(* ===== verification/Prelude.thy ===== *)
theory Prelude
  imports Main "HOL-Library.Word" "HOL-Library.AList"
begin

text \<open>
  Shared vocabulary of the development: the outcome of a Rust computation (it returns,
  panics, or does not return), machine integers of the width of \<open>usize\<close>, the values
  \<open>Poll\<close> and \<open>io::Result\<close> of the standard library, the borrow flag of a
  \<open>RefCell\<close>, and the interface of the third-party container \<open>slab::Slab\<close>, which
  is a parameter of every definition that uses it.
\<close>

section \<open>Outcomes\<close>

text \<open>
  The panics the crate can raise, one constructor per cause: an \<open>assert!\<close>, an
  \<open>unwrap\<close> or \<open>expect\<close> on a missing value or on an error, an index or key that is not there, a
  \<open>RefCell\<close> already borrowed, a future polled after it completed, an integer overflow
  (with overflow checks on), a waker used on a foreign thread, a missing current runtime, and a
  runtime that cannot park or cannot be created.
\<close>

datatype panic =
    AssertFailed
  | UnwrapNone
  | UnwrapErr
  | InvalidKey
  | AlreadyBorrowed
  | PolledAfterCompletion
  | Overflow
  | WrongThread
  | NoRuntime
  | ParkFailed
  | RuntimeFailed

text \<open>
  A computation either does not return (\<open>None\<close>), panics (\<open>Some (Inl p)\<close>) or
  returns a value (\<open>Some (Inr x)\<close>). Loops are \<open>partial_function (option)\<close>, so
  that a loop that never ends has the value \<open>None\<close> and a claim that it returns has to
  be proved.
\<close>

type_synonym 'a m = "(panic + 'a) option"

abbreviation Ret :: "'a \<Rightarrow> 'a m" where
  "Ret x \<equiv> Some (Inr x)"

abbreviation Panic :: "panic \<Rightarrow> 'a m" where
  "Panic p \<equiv> Some (Inl p)"

definition bindM :: "'a m \<Rightarrow> ('a \<Rightarrow> 'b m) \<Rightarrow> 'b m" where
  "bindM c f = (case c of None \<Rightarrow> None | Some r \<Rightarrow> (case r of Inl p \<Rightarrow> Panic p | Inr x \<Rightarrow> f x))"

lemma bindM_simps [simp]:
  "bindM None f = None"
  "bindM (Panic p) f = Panic p"
  "bindM (Ret x) f = f x"
  by (simp_all add: bindM_def)

lemma bindM_Ret_conv: "bindM c f = Ret y \<longleftrightarrow> (\<exists>x. c = Ret x \<and> f x = Ret y)"
  by (auto simp: bindM_def split: option.splits sum.splits)

lemma bindM_eq_RetE [elim]:
  assumes "bindM c f = Ret y"
  obtains x where "c = Ret x" and "f x = Ret y"
  using assms by (auto simp: bindM_Ret_conv)

definition returns :: "'a m \<Rightarrow> bool" where
  "returns c = (case c of Some (Inr _) \<Rightarrow> True | _ \<Rightarrow> False)"

lemma returns_simps [simp]:
  "returns (Ret x)" "\<not> returns (Panic p)" "\<not> returns None"
  by (simp_all add: returns_def)

lemma returns_conv: "returns c \<longleftrightarrow> (\<exists>x. c = Ret x)"
  by (auto simp: returns_def split: option.splits sum.splits)

text \<open>Two outcomes related by \<open>R\<close>: the same panic, or related results.\<close>

abbreviation rel_m :: "('a \<Rightarrow> 'b \<Rightarrow> bool) \<Rightarrow> 'a m \<Rightarrow> 'b m \<Rightarrow> bool" where
  "rel_m R \<equiv> rel_option (rel_sum (=) R)"

lemma rel_m_Ret [simp]:
  "rel_m R (Ret x) c \<longleftrightarrow> (\<exists>y. c = Ret y \<and> R x y)"
  "rel_m R d (Ret y) \<longleftrightarrow> (\<exists>x. d = Ret x \<and> R x y)"
  by (auto simp: option_rel_Some1 option_rel_Some2 elim: rel_sum.cases)

lemma rel_m_returns: "rel_m R c d \<Longrightarrow> returns c = returns d"
  by (auto simp: returns_conv)

text \<open>\<open>unwrap\<close> and indexing: a missing value is a panic.\<close>

definition expectM :: "panic \<Rightarrow> 'a option \<Rightarrow> 'a m" where
  "expectM p x = (case x of None \<Rightarrow> Panic p | Some v \<Rightarrow> Ret v)"

lemma expectM_simps [simp]:
  "expectM p None = Panic p" "expectM p (Some v) = Ret v"
  by (simp_all add: expectM_def)

lemma expectM_Ret_conv [simp]: "expectM p x = Ret v \<longleftrightarrow> x = Some v"
  by (auto simp: expectM_def split: option.splits)

section \<open>Poll and io::Result\<close>

datatype 'a poll = Pending | Ready 'a

fun map_poll_value :: "('a \<Rightarrow> 'b) \<Rightarrow> 'a poll \<Rightarrow> 'b poll" where
  "map_poll_value f Pending = Pending"
| "map_poll_value f (Ready x) = Ready (f x)"

lemma map_poll_value_conv:
  "Pending = map_poll_value f u \<longleftrightarrow> u = Pending"
  "Ready y = map_poll_value f u \<longleftrightarrow> (\<exists>x. u = Ready x \<and> y = f x)"
  "map_poll_value f u = Pending \<longleftrightarrow> u = Pending"
  "map_poll_value f u = Ready y \<longleftrightarrow> (\<exists>x. u = Ready x \<and> y = f x)"
  by (cases u; auto)+

text \<open>
  \<open>io::Error\<close> of the standard library: the kinds the crate distinguishes and the OS code
  it carries, if any.
\<close>

datatype error_kind = WouldBlock | Interrupted | OtherKind

record io_error =
  err_kind :: error_kind
  err_os :: "int option"

type_synonym 'a io_result = "io_error + 'a"

section \<open>Machine integers\<close>

type_synonym usize = "64 word"

text \<open>
  \<open>a += b\<close> on \<open>usize\<close>: with overflow checks (\<open>oc\<close>, the default of a debug build)
  an overflow panics, without them the sum wraps.
\<close>

definition usize_add :: "bool \<Rightarrow> usize \<Rightarrow> usize \<Rightarrow> usize m" where
  "usize_add oc a b = (if oc \<and> unat a + unat b \<ge> 2 ^ 64 then Panic Overflow else Ret (a + b))"

lemma usize_add_fits:
  assumes "unat a + unat b < 2 ^ 64"
  shows "usize_add oc a b = Ret (a + b)" and "unat (a + b) = unat a + unat b"
  using assms by (simp_all add: usize_add_def unat_word_ariths)

lemma unat_usize_sub: "b \<le> (a :: usize) \<Longrightarrow> unat (a - b) = unat a - unat b"
  by (rule unat_sub)

lemma word_room:
  assumes "x \<noteq> (- 1 :: usize)"
  shows "unat x + 1 < 2 ^ 64" and "x < x + 1"
proof -
  have s: "unat (1 + x) = Suc (unat x)"
    using assms max_word_wrap [of x] by (intro unatSuc) (auto simp: add.commute)
  have "unat (1 + x) < 2 ^ LENGTH(64)" by (rule unsigned_less)
  with s show "unat x + 1 < 2 ^ 64" by simp
  from s show "x < x + 1" by (simp add: word_less_nat_alt add.commute)
qed

section \<open>Borrow flags\<close>

text \<open>
  The flag of a \<open>RefCell\<close>: 0 when free, the number of shared borrows when positive, -1
  when mutably borrowed. A shared borrow panics when the cell is mutably borrowed or the
  counter is at \<open>isize::MAX\<close>; a mutable borrow panics unless the cell is free.
\<close>

type_synonym borrow_flag = int

definition isize_max :: int where
  "isize_max = 2 ^ 63 - 1"

definition cell_borrow :: "borrow_flag \<Rightarrow> borrow_flag m" where
  "cell_borrow b = (if b < 0 \<or> b = isize_max then Panic AlreadyBorrowed else Ret (b + 1))"

definition cell_borrow_mut :: "borrow_flag \<Rightarrow> borrow_flag m" where
  "cell_borrow_mut b = (if b = 0 then Ret (- 1) else Panic AlreadyBorrowed)"

definition drop_ref :: "borrow_flag \<Rightarrow> borrow_flag" where
  "drop_ref b = b - 1"

definition drop_ref_mut :: "borrow_flag \<Rightarrow> borrow_flag" where
  "drop_ref_mut b = b + 1"

section \<open>The slab interface\<close>

text \<open>
  \<open>slab::Slab\<close> is a crate the sources only call. Its operations are the fields of a
  record that every definition using a slab takes as an argument; \<open>slab_set\<close> is a write
  through \<open>get_mut\<close> or \<open>IndexMut\<close>. What its documentation promises is the locale
  \<open>slab_crate\<close>: an insertion takes a vacant key, the key that \<open>vacant_entry\<close>
  announces, and nothing but the addressed entry ever changes.
\<close>

record ('s, 'v) slab_api =
  slab_new :: 's
  slab_get :: "'s \<Rightarrow> nat \<Rightarrow> 'v option"
  slab_set :: "'s \<Rightarrow> nat \<Rightarrow> 'v \<Rightarrow> 's"
  slab_vacant_key :: "'s \<Rightarrow> nat"
  slab_insert :: "'s \<Rightarrow> 'v \<Rightarrow> nat \<times> 's"
  slab_remove :: "'s \<Rightarrow> nat \<Rightarrow> ('v \<times> 's) option"
  slab_is_empty :: "'s \<Rightarrow> bool"

locale slab_crate =
  fixes A :: "('s, 'v) slab_api"
  assumes get_new: "slab_get A (slab_new A) = Map.empty"
    and get_set: "slab_get A s k \<noteq> None \<Longrightarrow> slab_get A (slab_set A s k v) = (slab_get A s)(k \<mapsto> v)"
    and vacant_key: "slab_get A s (slab_vacant_key A s) = None"
    and insert_key: "fst (slab_insert A s v) = slab_vacant_key A s"
    and get_insert: "slab_get A (snd (slab_insert A s v)) = (slab_get A s)(slab_vacant_key A s \<mapsto> v)"
    and remove_None: "slab_remove A s k = None \<longleftrightarrow> slab_get A s k = None"
    and remove_Some: "slab_remove A s k = Some (v, s') \<Longrightarrow>
          slab_get A s k = Some v \<and> slab_get A s' = (slab_get A s)(k := None)"
    and is_empty: "slab_is_empty A s \<longleftrightarrow> slab_get A s = Map.empty"
begin

lemma insert_eq:
  obtains s' where "slab_insert A s v = (slab_vacant_key A s, s')"
    and "slab_get A s' = (slab_get A s)(slab_vacant_key A s \<mapsto> v)"
  using insert_key [of s v] get_insert [of s v] by (cases "slab_insert A s v") auto

lemma remove_eq:
  assumes "slab_get A s k = Some v"
  obtains s' where "slab_remove A s k = Some (v, s')"
    and "slab_get A s' = (slab_get A s)(k := None)"
proof (cases "slab_remove A s k")
  case None
  with assms show ?thesis by (simp add: remove_None)
next
  case (Some r)
  obtain v' s' where r: "r = (v', s')" by (cases r)
  with Some assms remove_Some [of s k v' s'] have "v' = v" by simp
  with Some r remove_Some [of s k v' s'] show ?thesis by (intro that [of s']) auto
qed

lemma get_set_other: "slab_get A s k \<noteq> None \<Longrightarrow> j \<noteq> k \<Longrightarrow> slab_get A (slab_set A s k v) j = slab_get A s j"
  by (simp add: get_set)

end

text \<open>
  An executable slab: an association list whose vacant key is the least key not in use, so
  that a removed key is used again, as the crate does. Concrete runs of the model are
  evaluated on it.
\<close>

type_synonym 'v assoc_slab = "(nat \<times> 'v) list"

definition assoc_vacant_key :: "'v assoc_slab \<Rightarrow> nat" where
  "assoc_vacant_key s = hd (filter (\<lambda>k. k \<notin> fst ` set s) [0..<Suc (length s)])"

definition assoc_slab :: "('v assoc_slab, 'v) slab_api" where
  "assoc_slab = \<lparr>
     slab_new = [],
     slab_get = map_of,
     slab_set = (\<lambda>s k v. AList.update k v s),
     slab_vacant_key = assoc_vacant_key,
     slab_insert = (\<lambda>s v. (assoc_vacant_key s, (assoc_vacant_key s, v) # s)),
     slab_remove = (\<lambda>s k. case map_of s k of None \<Rightarrow> None | Some v \<Rightarrow> Some (v, AList.delete k s)),
     slab_is_empty = (\<lambda>s. s = [])\<rparr>"

lemma assoc_slab_simps [simp]:
  "slab_new assoc_slab = []"
  "slab_get assoc_slab s k = map_of s k"
  "slab_set assoc_slab s k v = AList.update k v s"
  "slab_vacant_key assoc_slab s = assoc_vacant_key s"
  "slab_insert assoc_slab s v = (assoc_vacant_key s, (assoc_vacant_key s, v) # s)"
  "slab_remove assoc_slab s k =
     (case map_of s k of None \<Rightarrow> None | Some v \<Rightarrow> Some (v, AList.delete k s))"
  "slab_is_empty assoc_slab s = (s = [])"
  by (simp_all add: assoc_slab_def)

lemma vacant_key_exists: "filter (\<lambda>k. k \<notin> fst ` set s) [0..<Suc (length s)] \<noteq> []"
proof
  assume "filter (\<lambda>k. k \<notin> fst ` set s) [0..<Suc (length s)] = []"
  then have "{0..<Suc (length s)} \<subseteq> fst ` set s"
    unfolding filter_empty_conv set_upt by blast
  then have "card {0..<Suc (length s)} \<le> card (fst ` set s)" by (intro card_mono) auto
  also have "\<dots> \<le> length s" by (metis card_length length_map set_map)
  finally show False by simp
qed

lemma assoc_vacant_key_fresh: "assoc_vacant_key s \<notin> fst ` set s"
  using hd_in_set [OF vacant_key_exists, of s]
  unfolding assoc_vacant_key_def set_filter by blast

lemma assoc_vacant_key_map_of: "map_of s (assoc_vacant_key s) = None"
  by (simp add: map_of_eq_None_iff assoc_vacant_key_fresh)

interpretation assoc: slab_crate assoc_slab
proof
  show "slab_is_empty assoc_slab s \<longleftrightarrow> slab_get assoc_slab s = Map.empty" for s :: "'a assoc_slab"
    by (cases s) (auto simp: assoc_slab_def fun_eq_iff)
qed (auto simp: assoc_slab_def AList.update_conv' AList.delete_conv' assoc_vacant_key_map_of
       split: option.splits)

section \<open>Sequences\<close>

definition hd_opt :: "'a list \<Rightarrow> 'a option" where
  "hd_opt xs = (case xs of [] \<Rightarrow> None | x # _ \<Rightarrow> Some x)"

definition last_opt :: "'a list \<Rightarrow> 'a option" where
  "last_opt xs = (if xs = [] then None else Some (last xs))"

lemma hd_opt_simps [simp]: "hd_opt [] = None" "hd_opt (x # xs) = Some x"
  by (simp_all add: hd_opt_def)

lemma last_opt_simps [simp]:
  "last_opt [] = None" "last_opt (x # xs) = (if xs = [] then Some x else last_opt xs)"
  by (simp_all add: last_opt_def)

lemma hd_opt_None [simp]: "hd_opt xs = None \<longleftrightarrow> xs = []"
  by (cases xs) auto

lemma last_opt_None [simp]: "last_opt xs = None \<longleftrightarrow> xs = []"
  by (simp add: last_opt_def)

lemma hd_opt_append [simp]: "hd_opt (xs @ ys) = (if xs = [] then hd_opt ys else hd_opt xs)"
  by (cases xs) auto

lemma last_opt_append [simp]: "last_opt (xs @ ys) = (if ys = [] then last_opt xs else last_opt ys)"
  by (simp add: last_opt_def)

end
