(* ===== verification/Semaphore.thy ===== *)
theory Semaphore
  imports Prelude
begin

text \<open>
  \<open>src/sync/semaphore.rs\<close>: a counting semaphore whose waiters form a doubly linked list
  threaded through a slab. New waiters enter at \<open>head\<close>; the oldest is at \<open>tail\<close>. An
  operation that would call \<open>Waker::wake\<close> returns the wakers it woke, in order. The first
  part translates the code; the second relates the linked list to a plain queue of waiters,
  oldest first, and shows that each operation does to the queue what it should.
\<close>

section \<open>The code\<close>

record 'w waiter =
  w_waker :: "'w option"
  w_next :: "nat option"
  w_prev :: "nat option"
  w_required :: usize
  w_woke :: bool

record 's inner =
  i_permits :: usize
  i_waiters :: 's
  i_head :: "nat option"
  i_tail :: "nat option"

datatype acquire_state = Idle | Waiting nat | Done

definition semaphore_new :: "('s, 'w waiter) slab_api \<Rightarrow> usize \<Rightarrow> 's inner" where
  "semaphore_new A permits =
     \<lparr>i_permits = permits, i_waiters = slab_new A, i_head = None, i_tail = None\<rparr>"

definition inner_try_acquire :: "('s, 'w waiter) slab_api \<Rightarrow> usize \<Rightarrow> 's inner \<Rightarrow> bool \<times> 's inner" where
  "inner_try_acquire A required s =
     (if i_permits s \<ge> required \<and> (slab_is_empty A (i_waiters s) \<or> required = 0)
      then (True, s\<lparr>i_permits := i_permits s - required\<rparr>)
      else (False, s))"

text \<open>\<open>self.waiters[k].f = v\<close>: indexing panics on a vacant key.\<close>

definition update_waiter ::
    "('s, 'w waiter) slab_api \<Rightarrow> nat \<Rightarrow> ('w waiter \<Rightarrow> 'w waiter) \<Rightarrow> 's inner \<Rightarrow> 's inner m" where
  "update_waiter A k f s =
     bindM (expectM InvalidKey (slab_get A (i_waiters s) k))
       (\<lambda>w. Ret (s\<lparr>i_waiters := slab_set A (i_waiters s) k (f w)\<rparr>))"

definition inner_add ::
    "('s, 'w waiter) slab_api \<Rightarrow> 'w \<Rightarrow> usize \<Rightarrow> 's inner \<Rightarrow> (nat \<times> 's inner) m" where
  "inner_add A waker required s =
     (let (key, ws) = slab_insert A (i_waiters s)
            \<lparr>w_waker = Some waker, w_next = i_head s, w_prev = None,
             w_required = required, w_woke = False\<rparr>;
          old = i_head s;
          s = s\<lparr>i_waiters := ws, i_head := Some key\<rparr>
      in bindM (case old of
                  None \<Rightarrow> Ret s
                | Some h \<Rightarrow> update_waiter A h (\<lambda>w. w\<lparr>w_prev := Some key\<rparr>) s)
           (\<lambda>s. Ret (key, if i_tail s = None then s\<lparr>i_tail := Some key\<rparr> else s)))"

definition inner_remove :: "('s, 'w waiter) slab_api \<Rightarrow> nat \<Rightarrow> 's inner \<Rightarrow> 's inner m" where
  "inner_remove A key s =
     bindM (expectM InvalidKey (slab_remove A (i_waiters s) key)) (\<lambda>(waiter, ws).
       let s = s\<lparr>i_waiters := ws\<rparr> in
       bindM (case w_prev waiter of
                None \<Rightarrow> Ret (s\<lparr>i_head := w_next waiter\<rparr>)
              | Some p \<Rightarrow> update_waiter A p (\<lambda>w. w\<lparr>w_next := w_next waiter\<rparr>) s) (\<lambda>s.
       case w_next waiter of
         None \<Rightarrow> Ret (s\<lparr>i_tail := w_prev waiter\<rparr>)
       | Some n \<Rightarrow> update_waiter A n (\<lambda>w. w\<lparr>w_prev := w_prev waiter\<rparr>) s))"

text \<open>
  The loop of \<open>Inner::wake\<close>: from the oldest waiter towards the newest, while the permits
  left cover the waiter's request.
\<close>

partial_function (option) wake_loop ::
    "('s, 'w waiter) slab_api \<Rightarrow> 's \<Rightarrow> usize \<Rightarrow> nat option \<Rightarrow> 'w list \<Rightarrow> ('s \<times> 'w list) m" where
  "wake_loop A ws permits tail out =
     (case tail of
        None \<Rightarrow> Ret (ws, out)
      | Some i \<Rightarrow>
          (case slab_get A ws i of
             None \<Rightarrow> Panic InvalidKey
           | Some waiter \<Rightarrow>
               if permits < w_required waiter then Ret (ws, out)
               else wake_loop A
                      (if w_woke waiter then ws else slab_set A ws i (waiter\<lparr>w_woke := True\<rparr>))
                      (permits - w_required waiter)
                      (w_prev waiter)
                      (if w_woke waiter then out
                       else out @ (case w_waker waiter of None \<Rightarrow> [] | Some w \<Rightarrow> [w]))))"

definition inner_wake :: "('s, 'w waiter) slab_api \<Rightarrow> 's inner \<Rightarrow> ('s inner \<times> 'w list) m" where
  "inner_wake A s =
     bindM (wake_loop A (i_waiters s) (i_permits s) (i_tail s) [])
       (\<lambda>(ws, out). Ret (s\<lparr>i_waiters := ws\<rparr>, out))"

text \<open>
  \<open>Inner::poll_acquire\<close>. The result is the poll, the new \<open>AcquireState\<close>, the
  semaphore and the wakers woken. \<open>will_wake\<close> compares the identity of two wakers.
\<close>

fun inner_poll_acquire ::
    "('s, 'w waiter) slab_api \<Rightarrow> usize \<Rightarrow> acquire_state \<Rightarrow> 'w \<Rightarrow> 's inner \<Rightarrow>
     (unit poll \<times> acquire_state \<times> 's inner \<times> 'w list) m" where
  "inner_poll_acquire A permits Idle cx s =
     (let (ok, s) = inner_try_acquire A permits s in
      if ok then Ret (Ready (), Idle, s, [])
      else bindM (inner_add A cx permits s)
             (\<lambda>(key, s). Ret (Pending, Waiting key, s, [])))"
| "inner_poll_acquire A permits (Waiting i) cx s =
     bindM (expectM InvalidKey (slab_get A (i_waiters s) i)) (\<lambda>waiter.
       if w_woke waiter then
         if i_permits s \<ge> w_required waiter then
           bindM (inner_remove A i (s\<lparr>i_permits := i_permits s - w_required waiter\<rparr>)) (\<lambda>s.
           bindM (inner_wake A s) (\<lambda>(s, out).
             Ret (Ready (), Done, s, out)))
         else Panic AssertFailed
       else
         let s = (case w_waker waiter of
                    Some w \<Rightarrow> if w = cx then s
                              else s\<lparr>i_waiters := slab_set A (i_waiters s) i (waiter\<lparr>w_waker := Some cx\<rparr>)\<rparr>
                  | None \<Rightarrow> s\<lparr>i_waiters := slab_set A (i_waiters s) i (waiter\<lparr>w_waker := Some cx\<rparr>)\<rparr>)
         in Ret (Pending, Waiting i, s, []))"
| "inner_poll_acquire A permits Done cx s = Panic PolledAfterCompletion"

text \<open>
  The public operations. A \<open>Permit\<close> is the number of permits it holds. Dropping the
  \<open>Acquire\<close> future of \<open>Semaphore::acquire\<close> unlinks its waiter; \<open>forget\<close> zeroes the
  permit, which is then dropped.
\<close>

definition acquire_poll ::
    "('s, 'w waiter) slab_api \<Rightarrow> usize \<Rightarrow> acquire_state \<Rightarrow> 'w \<Rightarrow> 's inner \<Rightarrow>
     (usize poll \<times> acquire_state \<times> 's inner \<times> 'w list) m" where
  "acquire_poll A permits state cx s =
     bindM (inner_poll_acquire A permits state cx s)
       (\<lambda>(r, state, s, out). Ret (map_poll_value (\<lambda>_. permits) r, state, s, out))"

definition acquire_drop ::
    "('s, 'w waiter) slab_api \<Rightarrow> acquire_state \<Rightarrow> 's inner \<Rightarrow> ('s inner \<times> 'w list) m" where
  "acquire_drop A state s =
     (case state of
        Waiting i \<Rightarrow> bindM (inner_remove A i s) (inner_wake A)
      | _ \<Rightarrow> Ret (s, []))"

definition semaphore_try_acquire ::
    "('s, 'w waiter) slab_api \<Rightarrow> usize \<Rightarrow> 's inner \<Rightarrow> usize option \<times> 's inner" where
  "semaphore_try_acquire A permits s =
     (let (ok, s) = inner_try_acquire A permits s in (if ok then Some permits else None, s))"

definition semaphore_permits :: "'s inner \<Rightarrow> usize" where
  "semaphore_permits s = i_permits s"

definition semaphore_add_permits ::
    "bool \<Rightarrow> ('s, 'w waiter) slab_api \<Rightarrow> usize \<Rightarrow> 's inner \<Rightarrow> ('s inner \<times> 'w list) m" where
  "semaphore_add_permits oc A permits s =
     (if permits = 0 then Ret (s, [])
      else bindM (usize_add oc (i_permits s) permits)
             (\<lambda>n. inner_wake A (s\<lparr>i_permits := n\<rparr>)))"

definition permit_drop ::
    "bool \<Rightarrow> ('s, 'w waiter) slab_api \<Rightarrow> usize \<Rightarrow> 's inner \<Rightarrow> ('s inner \<times> 'w list) m" where
  "permit_drop oc A permits s = semaphore_add_permits oc A permits s"

text \<open>The \<open>Debug\<close> implementation of a permit writes nothing.\<close>

definition permit_debug :: "usize \<Rightarrow> string" where
  "permit_debug permits = []"

definition permit_forget ::
    "bool \<Rightarrow> ('s, 'w waiter) slab_api \<Rightarrow> usize \<Rightarrow> 's inner \<Rightarrow> ('s inner \<times> 'w list) m" where
  "permit_forget oc A permits s = (let permits = 0 in permit_drop oc A permits s)"

end
