(* ===== verification/Semaphore_Queue.thy ===== *)
theory Semaphore_Queue
  imports Semaphore
begin

text \<open>
  The contract of the linked list of \<open>src/sync/semaphore.rs\<close>: the waiters are a queue of
  entries, oldest first. \<open>sem_rel\<close> relates a semaphore to its queue; under it no
  operation panics or loops, and each one is the obvious operation on the queue
  (\<open>wake_queue\<close>, append, delete).
\<close>

section \<open>The queue a linked list represents\<close>

record 'w entry =
  e_key :: nat
  e_waker :: "'w option"
  e_required :: usize
  e_woke :: bool

definition entry_waiter :: "nat option \<Rightarrow> nat option \<Rightarrow> 'w entry \<Rightarrow> 'w waiter" where
  "entry_waiter nx pv e =
     \<lparr>w_waker = e_waker e, w_next = nx, w_prev = pv, w_required = e_required e, w_woke = e_woke e\<rparr>"

lemma entry_waiter_sel [simp]:
  "w_waker (entry_waiter nx pv e) = e_waker e" "w_next (entry_waiter nx pv e) = nx"
  "w_prev (entry_waiter nx pv e) = pv" "w_required (entry_waiter nx pv e) = e_required e"
  "w_woke (entry_waiter nx pv e) = e_woke e"
  by (simp_all add: entry_waiter_def)

lemma entry_waiter_upd [simp]:
  "(entry_waiter nx pv e)\<lparr>w_next := nx'\<rparr> = entry_waiter nx' pv e"
  "(entry_waiter nx pv e)\<lparr>w_prev := pv'\<rparr> = entry_waiter nx pv' e"
  "(entry_waiter nx pv e)\<lparr>w_woke := b\<rparr> = entry_waiter nx pv (e\<lparr>e_woke := b\<rparr>)"
  "(entry_waiter nx pv e)\<lparr>w_waker := w\<rparr> = entry_waiter nx pv (e\<lparr>e_waker := w\<rparr>)"
  by (simp_all add: entry_waiter_def)

abbreviation first_key :: "'w entry list \<Rightarrow> nat option" where
  "first_key q \<equiv> map_option e_key (hd_opt q)"

abbreviation last_key :: "'w entry list \<Rightarrow> nat option" where
  "last_key q \<equiv> map_option e_key (last_opt q)"

text \<open>
  A segment of the list: the entries \<open>q\<close> are linked one to the next, the oldest has
  \<open>next\<close> link \<open>nx\<close> and the newest has \<open>prev\<close> link \<open>pv\<close>.
\<close>

fun seg :: "(nat \<Rightarrow> 'w waiter option) \<Rightarrow> nat option \<Rightarrow> 'w entry list \<Rightarrow> nat option \<Rightarrow> bool" where
  "seg g nx [] pv = True"
| "seg g nx (e # es) pv =
     (g (e_key e) = Some (entry_waiter nx (if es = [] then pv else first_key es) e) \<and>
      seg g (Some (e_key e)) es pv)"

definition sem_rel :: "('s, 'w waiter) slab_api \<Rightarrow> 's inner \<Rightarrow> 'w entry list \<Rightarrow> bool" where
  "sem_rel A s q \<longleftrightarrow>
     distinct (map e_key q) \<and>
     dom (slab_get A (i_waiters s)) = e_key ` set q \<and>
     seg (slab_get A (i_waiters s)) None q None \<and>
     i_tail s = first_key q \<and> i_head s = last_key q"

section \<open>Segments\<close>

lemma seg_frame:
  assumes "\<And>e. e \<in> set q \<Longrightarrow> g' (e_key e) = g (e_key e)" and "seg g nx q pv"
  shows "seg g' nx q pv"
  using assms by (induction q arbitrary: nx) auto

lemma seg_upd_other: "k \<notin> e_key ` set q \<Longrightarrow> seg (g(k := v)) nx q pv = seg g nx q pv"
  by (induction q arbitrary: nx) auto

lemma seg_append:
  "seg g nx (xs @ ys) pv \<longleftrightarrow>
     seg g nx xs (if ys = [] then pv else first_key ys) \<and>
     seg g (if xs = [] then nx else last_key xs) ys pv"
proof (induction xs arbitrary: nx)
  case Nil
  then show ?case by simp
next
  case (Cons x xs)
  show ?case
    by (simp add: Cons.IH)
qed

lemma seg_lookup: "seg g nx q pv \<Longrightarrow> e \<in> set q \<Longrightarrow> \<exists>nx' pv'. g (e_key e) = Some (entry_waiter nx' pv' e)"
  by (induction q arbitrary: nx) auto

section \<open>Operations on the queue\<close>

text \<open>
  Waking: from the oldest entry, mark entries woken while the permits cover them; the
  result carries the wakers of the entries that were not woken before.
\<close>

fun wake_queue :: "usize \<Rightarrow> 'w entry list \<Rightarrow> 'w entry list" where
  "wake_queue p [] = []"
| "wake_queue p (e # es) =
     (if p < e_required e then e # es
      else e\<lparr>e_woke := True\<rparr> # wake_queue (p - e_required e) es)"

fun wake_wakers :: "usize \<Rightarrow> 'w entry list \<Rightarrow> 'w list" where
  "wake_wakers p [] = []"
| "wake_wakers p (e # es) =
     (if p < e_required e then []
      else (if e_woke e then [] else case e_waker e of None \<Rightarrow> [] | Some w \<Rightarrow> [w]) @
           wake_wakers (p - e_required e) es)"

definition delete_key :: "nat \<Rightarrow> 'w entry list \<Rightarrow> 'w entry list" where
  "delete_key k q = filter (\<lambda>e. e_key e \<noteq> k) q"

lemma wake_queue_keys [simp]: "map e_key (wake_queue p q) = map e_key q"
  by (induction p q rule: wake_queue.induct) auto

lemma wake_queue_required [simp]: "map e_required (wake_queue p q) = map e_required q"
  by (induction p q rule: wake_queue.induct) auto

lemma wake_queue_Nil [simp]: "wake_queue p q = [] \<longleftrightarrow> q = []"
  by (cases q) auto

lemma first_key_wake_queue [simp]: "first_key (wake_queue p q) = first_key q"
  by (cases q) auto

lemma key_set_wake_queue [simp]: "e_key ` set (wake_queue p q) = e_key ` set q"
  by (metis list.set_map wake_queue_keys)

lemma last_key_wake_queue [simp]: "last_key (wake_queue p q) = last_key q"
proof (cases "q = []")
  case False
  have "e_key (last (wake_queue p q)) = last (map e_key (wake_queue p q))"
    using False by (simp add: last_map del: wake_queue_keys)
  also have "\<dots> = e_key (last q)" using False by (simp add: last_map)
  finally show ?thesis using False by (simp add: last_opt_def)
qed simp

lemma delete_key_absent [simp]: "k \<notin> e_key ` set q \<Longrightarrow> delete_key k q = q"
  by (auto simp: delete_key_def filter_id_conv)

lemma delete_key_append [simp]: "delete_key k (xs @ ys) = delete_key k xs @ delete_key k ys"
  by (simp add: delete_key_def)

lemma delete_key_Cons [simp]:
  "delete_key k (e # q) = (if e_key e = k then delete_key k q else e # delete_key k q)"
  by (simp add: delete_key_def)

lemma delete_key_split:
  "distinct (map e_key (xs @ e # ys)) \<Longrightarrow> delete_key (e_key e) (xs @ e # ys) = xs @ ys"
  by simp

lemma set_delete_key [simp]: "set (delete_key k q) = {e \<in> set q. e_key e \<noteq> k}"
  by (auto simp: delete_key_def)

section \<open>The operations implement the queue\<close>

text \<open>The semaphore as a client of the slab: a slab crate that stores waiters.\<close>

locale waiter_slab = slab_crate A for A :: "('s, 'w waiter) slab_api"
begin

lemma sem_rel_new: "sem_rel A (semaphore_new A n) []"
  by (simp add: sem_rel_def semaphore_new_def get_new)

lemma sem_rel_empty: "sem_rel A s q \<Longrightarrow> slab_is_empty A (i_waiters s) \<longleftrightarrow> q = []"
  by (auto simp: sem_rel_def is_empty dom_eq_empty_conv [symmetric] simp del: dom_eq_empty_conv)

lemma sem_rel_permits [simp]: "sem_rel A (s\<lparr>i_permits := p\<rparr>) q \<longleftrightarrow> sem_rel A s q"
  by (simp add: sem_rel_def)

lemma sem_rel_lookup:
  assumes "sem_rel A s q" and "e \<in> set q"
  obtains nx pv where "slab_get A (i_waiters s) (e_key e) = Some (entry_waiter nx pv e)"
  using assms by (meson sem_rel_def seg_lookup)

lemma sem_rel_get_None:
  "sem_rel A s q \<Longrightarrow> slab_get A (i_waiters s) k = None \<longleftrightarrow> k \<notin> e_key ` set q"
  by (auto simp: sem_rel_def domIff)

text \<open>The loop of \<open>wake\<close>, started anywhere in the list.\<close>

lemma wake_loop_queue:
  assumes "seg (slab_get A ws) nx q None" and "distinct (map e_key q)"
  obtains ws' where
    "wake_loop A ws p (first_key q) out = Ret (ws', out @ wake_wakers p q)"
    and "seg (slab_get A ws') nx (wake_queue p q) None"
    and "\<And>k. k \<notin> e_key ` set q \<Longrightarrow> slab_get A ws' k = slab_get A ws k"
  using assms
proof (induction q arbitrary: ws nx p out thesis)
  case Nil
  show ?case by (rule Nil(1)) (simp_all add: wake_loop.simps)
next
  case (Cons e q)
  let ?pv = "first_key q"
  let ?ws = "if e_woke e then ws
     else slab_set A ws (e_key e) (entry_waiter nx ?pv (e\<lparr>e_woke := True\<rparr>))"
  let ?out = "if e_woke e then out
     else out @ (case e_waker e of None \<Rightarrow> [] | Some w \<Rightarrow> [w])"
  have get: "slab_get A ws (e_key e) = Some (entry_waiter nx ?pv e)"
    and rest: "seg (slab_get A ws) (Some (e_key e)) q None"
    and fresh: "e_key e \<notin> e_key ` set q" and dist: "distinct (map e_key q)"
    using Cons.prems by (auto split: if_splits)
  show ?case
  proof (cases "p < e_required e")
    case True
    with get Cons.prems show ?thesis
      by (intro Cons.prems(1) [of ws]) (simp_all add: wake_loop.simps [of A ws p])
  next
    case False
    have get': "slab_get A ?ws = (slab_get A ws)(e_key e \<mapsto> entry_waiter nx ?pv (e\<lparr>e_woke := True\<rparr>))"
      using get by (auto simp: get_set fun_eq_iff entry_waiter_def)
    then have "seg (slab_get A ?ws) (Some (e_key e)) q None"
      using rest fresh by (simp add: seg_upd_other)
    then obtain ws' where
      run: "wake_loop A ?ws (p - e_required e) (first_key q) ?out =
              Ret (ws', ?out @ wake_wakers (p - e_required e) q)"
      and sg: "seg (slab_get A ws') (Some (e_key e)) (wake_queue (p - e_required e) q) None"
      and fr: "\<And>k. k \<notin> e_key ` set q \<Longrightarrow> slab_get A ws' k = slab_get A ?ws k"
      using Cons.IH [OF _ _ dist] by blast
    show ?thesis
    proof (rule Cons.prems(1) [of ws'])
      show "wake_loop A ws p (first_key (e # q)) out = Ret (ws', out @ wake_wakers p (e # q))"
        using run get False by (cases "e_woke e") (simp_all add: wake_loop.simps [of A ws p])
      show "seg (slab_get A ws') nx (wake_queue p (e # q)) None"
        using sg fr [OF fresh] False by (simp add: get')
      show "\<And>k. k \<notin> e_key ` set (e # q) \<Longrightarrow> slab_get A ws' k = slab_get A ws k"
        using fr by (simp add: get')
    qed
  qed
qed

lemma inner_wake_queue:
  assumes "sem_rel A s q"
  obtains ws where
    "inner_wake A s = Ret (s\<lparr>i_waiters := ws\<rparr>, wake_wakers (i_permits s) q)"
    and "sem_rel A (s\<lparr>i_waiters := ws\<rparr>) (wake_queue (i_permits s) q)"
proof -
  let ?q = "wake_queue (i_permits s) q"
  have dist: "distinct (map e_key q)" and tail: "i_tail s = first_key q"
    and sg: "seg (slab_get A (i_waiters s)) None q None"
    using assms by (simp_all add: sem_rel_def)
  obtain ws where run: "wake_loop A (i_waiters s) (i_permits s) (first_key q) [] =
        Ret (ws, [] @ wake_wakers (i_permits s) q)"
    and sg': "seg (slab_get A ws) None ?q None"
    and fr: "\<And>k. k \<notin> e_key ` set q \<Longrightarrow> slab_get A ws k = slab_get A (i_waiters s) k"
    using wake_loop_queue [OF sg dist] by blast
  have dom_other: "slab_get A ws k = None" if "k \<notin> e_key ` set q" for k
    using that fr assms by (simp add: sem_rel_get_None)
  have dom_in: "slab_get A ws k \<noteq> None" if "k \<in> e_key ` set q" for k
  proof -
    have "k \<in> e_key ` set ?q" using that by simp
    then obtain e where e: "e \<in> set ?q" "k = e_key e" by blast
    show ?thesis using seg_lookup [OF sg' e(1)] e(2) by auto
  qed
  have "dom (slab_get A ws) = e_key ` set q"
    using dom_other dom_in unfolding dom_def by fastforce
  with assms sg' have "sem_rel A (s\<lparr>i_waiters := ws\<rparr>) ?q"
    by (simp add: sem_rel_def)
  with run tail show ?thesis by (intro that [of ws]) (simp_all add: inner_wake_def)
qed

text \<open>Appending a waiter.\<close>

lemma inner_add_queue:
  assumes "sem_rel A s q"
  obtains s' where
    "inner_add A w n s = Ret (slab_vacant_key A (i_waiters s), s')"
    and "sem_rel A s' (q @ [\<lparr>e_key = slab_vacant_key A (i_waiters s), e_waker = Some w,
                           e_required = n, e_woke = False\<rparr>])"
    and "i_permits s' = i_permits s"
proof -
  let ?k = "slab_vacant_key A (i_waiters s)"
  let ?e = "\<lparr>e_key = ?k, e_waker = Some w, e_required = n, e_woke = False\<rparr>"
  let ?new = "\<lparr>w_waker = Some w, w_next = i_head s, w_prev = None, w_required = n, w_woke = False\<rparr>"
  have fresh: "?k \<notin> e_key ` set q"
    using vacant_key [of "i_waiters s"] sem_rel_get_None [OF assms, of ?k] by simp
  obtain ws where ins: "slab_insert A (i_waiters s) ?new = (?k, ws)"
    and get: "slab_get A ws = (slab_get A (i_waiters s))(?k \<mapsto> ?new)"
    by (rule insert_eq [of "i_waiters s" ?new])
  have new: "?new = entry_waiter (last_key q) None ?e"
    using assms by (simp add: sem_rel_def entry_waiter_def)
  show ?thesis
  proof (cases q rule: rev_cases)
    case Nil
    with assms get ins new show ?thesis
      by (intro that [of "s\<lparr>i_waiters := ws, i_head := Some ?k, i_tail := Some ?k\<rparr>"])
        (auto simp: inner_add_def sem_rel_def Let_def)
  next
    case (snoc q' h)
    have sg: "seg (slab_get A (i_waiters s)) None (q' @ [h]) None"
      and dist: "distinct (map e_key (q' @ [h]))"
      using assms snoc by (simp_all add: sem_rel_def)
    have old: "slab_get A (i_waiters s) (e_key h) = Some (entry_waiter (if q' = [] then None else last_key q') None h)"
      using sg by (simp add: seg_append)
    have hk: "e_key h \<noteq> ?k" using fresh snoc by auto
    let ?ws = "slab_set A ws (e_key h) (entry_waiter (if q' = [] then None else last_key q') (Some ?k) h)"
    let ?s = "s\<lparr>i_waiters := ?ws, i_head := Some ?k\<rparr>"
    have get': "slab_get A ?ws = (slab_get A ws)(e_key h \<mapsto> entry_waiter (if q' = [] then None else last_key q') (Some ?k) h)"
      using old hk get by (simp add: get_set)
    have run: "inner_add A w n s = Ret (?k, ?s)"
      using assms snoc ins old hk
      by (simp add: inner_add_def Let_def update_waiter_def get sem_rel_def)
    have "seg (slab_get A ?ws) None (q @ [?e]) None"
      using sg fresh hk new snoc dist
      by (simp add: get' get seg_append seg_upd_other)
    moreover have "dom (slab_get A ?ws) = e_key ` set (q @ [?e])"
      using assms snoc hk by (auto simp: get' get sem_rel_def)
    ultimately have "sem_rel A ?s (q @ [?e])"
      using assms fresh snoc by (simp add: sem_rel_def)
    with run show ?thesis by (intro that [of ?s]) simp_all
  qed
qed

text \<open>Unlinking a waiter: its two neighbours are linked to each other.\<close>

lemma update_waiter_get:
  assumes "slab_get A (i_waiters s) k = Some w"
  obtains ws where "update_waiter A k f s = Ret (s\<lparr>i_waiters := ws\<rparr>)"
    and "slab_get A ws = (slab_get A (i_waiters s))(k \<mapsto> f w)"
  using assms by (intro that [of "slab_set A (i_waiters s) k (f w)"]) (simp_all add: update_waiter_def get_set)

lemma relink_newer:
  assumes "seg (slab_get A (i_waiters s)) nx0 ys None" and "distinct (map e_key ys)"
  obtains s2 where
    "(case first_key ys of None \<Rightarrow> Ret (s\<lparr>i_head := nx\<rparr>)
      | Some p \<Rightarrow> update_waiter A p (\<lambda>w. w\<lparr>w_next := nx\<rparr>) s) = Ret s2"
    and "seg (slab_get A (i_waiters s2)) nx ys None"
    and "\<And>k. k \<notin> e_key ` set ys \<Longrightarrow> slab_get A (i_waiters s2) k = slab_get A (i_waiters s) k"
    and "dom (slab_get A (i_waiters s2)) = dom (slab_get A (i_waiters s))"
    and "i_permits s2 = i_permits s" "i_tail s2 = i_tail s"
    and "i_head s2 = (if ys = [] then nx else i_head s)"
proof (cases ys)
  case Nil
  then show ?thesis by (intro that [of "s\<lparr>i_head := nx\<rparr>"]) simp_all
next
  case (Cons y ys')
  then have g: "slab_get A (i_waiters s) (e_key y) =
      Some (entry_waiter nx0 (if ys' = [] then None else first_key ys') y)"
    using assms(1) by simp
  obtain ws where up: "update_waiter A (e_key y) (\<lambda>w. w\<lparr>w_next := nx\<rparr>) s = Ret (s\<lparr>i_waiters := ws\<rparr>)"
    and get: "slab_get A ws = (slab_get A (i_waiters s))(e_key y \<mapsto>
        (entry_waiter nx0 (if ys' = [] then None else first_key ys') y)\<lparr>w_next := nx\<rparr>)"
    by (rule update_waiter_get [OF g, of "\<lambda>w. w\<lparr>w_next := nx\<rparr>"])
  have "seg (slab_get A ws) nx (y # ys') None"
    using assms(1,2) Cons by (simp add: get seg_upd_other)
  then show ?thesis using up get Cons g by (intro that [of "s\<lparr>i_waiters := ws\<rparr>"]) auto
qed

lemma relink_older:
  assumes "seg (slab_get A (i_waiters s)) None xs pv0" and "distinct (map e_key xs)"
  obtains s2 where
    "(case last_key xs of None \<Rightarrow> Ret (s\<lparr>i_tail := pv\<rparr>)
      | Some n \<Rightarrow> update_waiter A n (\<lambda>w. w\<lparr>w_prev := pv\<rparr>) s) = Ret s2"
    and "seg (slab_get A (i_waiters s2)) None xs pv"
    and "\<And>k. k \<notin> e_key ` set xs \<Longrightarrow> slab_get A (i_waiters s2) k = slab_get A (i_waiters s) k"
    and "dom (slab_get A (i_waiters s2)) = dom (slab_get A (i_waiters s))"
    and "i_permits s2 = i_permits s" "i_head s2 = i_head s"
    and "i_tail s2 = (if xs = [] then pv else i_tail s)"
proof (cases xs rule: rev_cases)
  case Nil
  then show ?thesis by (intro that [of "s\<lparr>i_tail := pv\<rparr>"]) simp_all
next
  case (snoc xs' x)
  let ?w = "entry_waiter (if xs' = [] then None else last_key xs') pv0 x"
  have g: "slab_get A (i_waiters s) (e_key x) = Some ?w"
    using assms(1) snoc by (simp add: seg_append)
  obtain ws where up: "update_waiter A (e_key x) (\<lambda>w. w\<lparr>w_prev := pv\<rparr>) s = Ret (s\<lparr>i_waiters := ws\<rparr>)"
    and get: "slab_get A ws = (slab_get A (i_waiters s))(e_key x \<mapsto> ?w\<lparr>w_prev := pv\<rparr>)"
    by (rule update_waiter_get [OF g, of "\<lambda>w. w\<lparr>w_prev := pv\<rparr>"])
  have "seg (slab_get A ws) None (xs' @ [x]) pv"
    using assms(1,2) snoc by (simp add: get seg_append seg_upd_other)
  then show ?thesis using up get snoc g by (intro that [of "s\<lparr>i_waiters := ws\<rparr>"]) auto
qed

lemma inner_remove_queue:
  assumes rel: "sem_rel A s (xs @ e # ys)"
  obtains s' where "inner_remove A (e_key e) s = Ret s'"
    and "sem_rel A s' (xs @ ys)" and "i_permits s' = i_permits s"
proof -
  let ?g = "slab_get A (i_waiters s)"
  let ?nx = "last_key xs" and ?pv = "first_key ys"
  have dist: "distinct (map e_key (xs @ e # ys))"
    and sg: "seg ?g None (xs @ e # ys) None"
    and dm: "dom ?g = e_key ` set (xs @ e # ys)"
    using rel by (simp_all add: sem_rel_def)
  then have distx: "distinct (map e_key xs)" and disty: "distinct (map e_key ys)" by simp_all
  have ge: "?g (e_key e) = Some (entry_waiter ?nx ?pv e)"
    and sx: "seg ?g None xs (Some (e_key e))" and sy: "seg ?g (Some (e_key e)) ys None"
    using sg by (auto simp: seg_append split: if_splits)
  obtain ws where rm: "slab_remove A (i_waiters s) (e_key e) = Some (entry_waiter ?nx ?pv e, ws)"
    and get: "slab_get A ws = ?g(e_key e := None)"
    by (rule remove_eq [OF ge])
  let ?s1 = "s\<lparr>i_waiters := ws\<rparr>"
  have sx1: "seg (slab_get A (i_waiters ?s1)) None xs (Some (e_key e))"
    and sy1: "seg (slab_get A (i_waiters ?s1)) (Some (e_key e)) ys None"
    using sx sy dist by (simp_all add: get seg_upd_other)
  obtain s2 where r2: "(case ?pv of None \<Rightarrow> Ret (?s1\<lparr>i_head := ?nx\<rparr>)
        | Some p \<Rightarrow> update_waiter A p (\<lambda>w. w\<lparr>w_next := ?nx\<rparr>) ?s1) = Ret s2"
    and sy2: "seg (slab_get A (i_waiters s2)) ?nx ys None"
    and f2: "\<And>k. k \<notin> e_key ` set ys \<Longrightarrow> slab_get A (i_waiters s2) k = slab_get A (i_waiters ?s1) k"
    and d2: "dom (slab_get A (i_waiters s2)) = dom (slab_get A (i_waiters ?s1))"
    and p2: "i_permits s2 = i_permits ?s1" "i_tail s2 = i_tail ?s1"
      "i_head s2 = (if ys = [] then ?nx else i_head ?s1)"
    using relink_newer [OF sy1 disty] by blast
  have sx2: "seg (slab_get A (i_waiters s2)) None xs (Some (e_key e))"
  proof (rule seg_frame [OF _ sx1])
    fix d assume "d \<in> set xs"
    with dist have "e_key d \<notin> e_key ` set ys" by auto
    then show "slab_get A (i_waiters s2) (e_key d) = slab_get A (i_waiters ?s1) (e_key d)"
      by (rule f2)
  qed
  obtain s3 where r3: "(case ?nx of None \<Rightarrow> Ret (s2\<lparr>i_tail := ?pv\<rparr>)
        | Some n \<Rightarrow> update_waiter A n (\<lambda>w. w\<lparr>w_prev := ?pv\<rparr>) s2) = Ret s3"
    and sx3: "seg (slab_get A (i_waiters s3)) None xs ?pv"
    and f3: "\<And>k. k \<notin> e_key ` set xs \<Longrightarrow> slab_get A (i_waiters s3) k = slab_get A (i_waiters s2) k"
    and d3: "dom (slab_get A (i_waiters s3)) = dom (slab_get A (i_waiters s2))"
    and p3: "i_permits s3 = i_permits s2" "i_head s3 = i_head s2"
      "i_tail s3 = (if xs = [] then ?pv else i_tail s2)"
    using relink_older [OF sx2 distx] by blast
  have sy3: "seg (slab_get A (i_waiters s3)) ?nx ys None"
  proof (rule seg_frame [OF _ sy2])
    fix d assume "d \<in> set ys"
    with dist have "e_key d \<notin> e_key ` set xs" by auto
    then show "slab_get A (i_waiters s3) (e_key d) = slab_get A (i_waiters s2) (e_key d)"
      by (rule f3)
  qed
  have "seg (slab_get A (i_waiters s3)) None (xs @ ys) None"
    using sx3 sy3 by (auto simp: seg_append)
  moreover have "dom (slab_get A (i_waiters s3)) = e_key ` set (xs @ ys)"
  proof -
    have "e_key e \<notin> e_key ` set (xs @ ys)" using dist by auto
    with d2 d3 dm show ?thesis by (simp add: get Diff_insert_absorb image_Un)
  qed
  ultimately have "sem_rel A s3 (xs @ ys)"
    using rel dist p2 p3 by (auto simp: sem_rel_def)
  moreover have "inner_remove A (e_key e) s = Ret s3"
    unfolding inner_remove_def Let_def rm expectM_simps bindM_simps prod.case entry_waiter_sel r2 r3 ..
  ultimately show ?thesis using p2 p3 by (intro that [of s3]) simp_all
qed

end

section \<open>The abstract semaphore\<close>

text \<open>
  The contract of the public operations: a number of permits and a queue of waiters, oldest
  first. The key a new waiter gets is the slab's choice, so it is an argument.
\<close>

record 'w asem =
  a_permits :: usize
  a_queue :: "'w entry list"

definition asem_wake :: "'w asem \<Rightarrow> 'w asem \<times> 'w list" where
  "asem_wake a = (a\<lparr>a_queue := wake_queue (a_permits a) (a_queue a)\<rparr>,
                  wake_wakers (a_permits a) (a_queue a))"

definition asem_try_acquire :: "usize \<Rightarrow> 'w asem \<Rightarrow> bool \<times> 'w asem" where
  "asem_try_acquire n a =
     (if n \<le> a_permits a \<and> (a_queue a = [] \<or> n = 0)
      then (True, a\<lparr>a_permits := a_permits a - n\<rparr>) else (False, a))"

definition asem_enqueue :: "nat \<Rightarrow> 'w \<Rightarrow> usize \<Rightarrow> 'w asem \<Rightarrow> 'w asem" where
  "asem_enqueue k w n a = a\<lparr>a_queue := a_queue a @
     [\<lparr>e_key = k, e_waker = Some w, e_required = n, e_woke = False\<rparr>]\<rparr>"

definition asem_set_waker :: "nat \<Rightarrow> 'w \<Rightarrow> 'w asem \<Rightarrow> 'w asem" where
  "asem_set_waker k w a = a\<lparr>a_queue :=
     map (\<lambda>e. if e_key e = k then e\<lparr>e_waker := Some w\<rparr> else e) (a_queue a)\<rparr>"

definition asem_delete :: "nat \<Rightarrow> 'w asem \<Rightarrow> 'w asem" where
  "asem_delete k a = a\<lparr>a_queue := delete_key k (a_queue a)\<rparr>"

definition entry_of :: "nat \<Rightarrow> 'w asem \<Rightarrow> 'w entry option" where
  "entry_of k a = find (\<lambda>e. e_key e = k) (a_queue a)"

fun asem_poll :: "nat \<Rightarrow> usize \<Rightarrow> acquire_state \<Rightarrow> 'w \<Rightarrow> 'w asem \<Rightarrow>
    (unit poll \<times> acquire_state \<times> 'w asem \<times> 'w list) m" where
  "asem_poll k n Idle cx a =
     (let (ok, a') = asem_try_acquire n a in
      if ok then Ret (Ready (), Idle, a', [])
      else Ret (Pending, Waiting k, asem_enqueue k cx n a, []))"
| "asem_poll k n (Waiting i) cx a =
     (case entry_of i a of
        None \<Rightarrow> Panic InvalidKey
      | Some e \<Rightarrow>
          if e_woke e then
            if e_required e \<le> a_permits a then
              let (a', out) = asem_wake (asem_delete i (a\<lparr>a_permits := a_permits a - e_required e\<rparr>))
              in Ret (Ready (), Done, a', out)
            else Panic AssertFailed
          else Ret (Pending, Waiting i, asem_set_waker i cx a, []))"
| "asem_poll k n Done cx a = Panic PolledAfterCompletion"

definition asem_drop :: "acquire_state \<Rightarrow> 'w asem \<Rightarrow> ('w asem \<times> 'w list) m" where
  "asem_drop st a =
     (case st of
        Waiting i \<Rightarrow> (case entry_of i a of None \<Rightarrow> Panic InvalidKey
                     | Some e \<Rightarrow> Ret (asem_wake (asem_delete i a)))
      | _ \<Rightarrow> Ret (a, []))"

definition asem_add_permits :: "bool \<Rightarrow> usize \<Rightarrow> 'w asem \<Rightarrow> ('w asem \<times> 'w list) m" where
  "asem_add_permits oc n a =
     (if n = 0 then Ret (a, [])
      else bindM (usize_add oc (a_permits a) n) (\<lambda>p. Ret (asem_wake (a\<lparr>a_permits := p\<rparr>))))"

text \<open>The simulation relation.\<close>

definition sem_abs :: "('s, 'w waiter) slab_api \<Rightarrow> 's inner \<Rightarrow> 'w asem \<Rightarrow> bool" where
  "sem_abs A s a \<longleftrightarrow> sem_rel A s (a_queue a) \<and> i_permits s = a_permits a"

definition poll_rel :: "('s, 'w waiter) slab_api \<Rightarrow> 'r poll \<times> acquire_state \<times> 's inner \<times> 'w list \<Rightarrow>
    'r poll \<times> acquire_state \<times> 'w asem \<times> 'w list \<Rightarrow> bool" where
  "poll_rel A = (\<lambda>(r, st, s, out) (r', st', a, out'). r = r' \<and> st = st' \<and> sem_abs A s a \<and> out = out')"

definition op_rel :: "('s, 'w waiter) slab_api \<Rightarrow> 's inner \<times> 'w list \<Rightarrow> 'w asem \<times> 'w list \<Rightarrow> bool" where
  "op_rel A = (\<lambda>(s, out) (a, out'). sem_abs A s a \<and> out = out')"

lemma entry_of_Some: "entry_of k a = Some e \<Longrightarrow> e \<in> set (a_queue a) \<and> e_key e = k"
  by (auto simp: entry_of_def find_Some_iff)

lemma entry_of_None: "entry_of k a = None \<longleftrightarrow> k \<notin> e_key ` set (a_queue a)"
  by (auto simp: entry_of_def find_None_iff)

lemma entry_of_split:
  assumes "entry_of k a = Some e"
  obtains xs ys where "a_queue a = xs @ e # ys" and "e_key e = k"
  using entry_of_Some [OF assms] by (meson split_list)

lemma entry_ofI:
  assumes "distinct (map e_key (a_queue a))" and "e \<in> set (a_queue a)"
  shows "entry_of (e_key e) a = Some e"
proof (cases "entry_of (e_key e) a")
  case None
  with assms(2) show ?thesis by (simp add: entry_of_None)
next
  case (Some f)
  from entry_of_Some [OF this] have "f \<in> set (a_queue a)" "e_key f = e_key e" by simp_all
  with assms have "f = e" unfolding distinct_map by (blast dest: inj_onD)
  with Some show ?thesis by simp
qed

context waiter_slab
begin

lemma sem_abs_distinct: "sem_abs A s a \<Longrightarrow> distinct (map e_key (a_queue a))"
  by (simp add: sem_abs_def sem_rel_def)

lemma sem_abs_get_None:
  "sem_abs A s a \<Longrightarrow> slab_get A (i_waiters s) k = None \<longleftrightarrow> entry_of k a = None"
  using sem_rel_get_None [of s "a_queue a" k] by (simp add: sem_abs_def entry_of_None)

lemma sem_abs_new: "sem_abs A (semaphore_new A n) \<lparr>a_permits = n, a_queue = []\<rparr>"
  using sem_rel_new by (simp add: sem_abs_def semaphore_new_def)

lemma sem_abs_permits [simp]:
  "sem_abs A s a \<Longrightarrow> sem_abs A (s\<lparr>i_permits := p\<rparr>) (a\<lparr>a_permits := p\<rparr>)"
  by (simp add: sem_abs_def)

lemma try_acquire_refines:
  assumes "sem_abs A s a"
  shows "fst (inner_try_acquire A n s) = fst (asem_try_acquire n a)"
    and "sem_abs A (snd (inner_try_acquire A n s)) (snd (asem_try_acquire n a))"
  using assms sem_rel_empty [of s "a_queue a"]
  by (auto simp: inner_try_acquire_def asem_try_acquire_def sem_abs_def)

lemma wake_refines:
  assumes "sem_abs A s a"
  obtains s' where "inner_wake A s = Ret (s', snd (asem_wake a))"
    and "sem_abs A s' (fst (asem_wake a))"
proof -
  from assms have r: "sem_rel A s (a_queue a)" and p: "i_permits s = a_permits a"
    by (simp_all add: sem_abs_def)
  obtain ws where "inner_wake A s = Ret (s\<lparr>i_waiters := ws\<rparr>, wake_wakers (i_permits s) (a_queue a))"
    and "sem_rel A (s\<lparr>i_waiters := ws\<rparr>) (wake_queue (i_permits s) (a_queue a))"
    by (rule inner_wake_queue [OF r])
  with p show ?thesis
    by (intro that [of "s\<lparr>i_waiters := ws\<rparr>"]) (simp_all add: asem_wake_def sem_abs_def)
qed

lemma remove_refines:
  assumes "sem_abs A s a" and "entry_of k a = Some e"
  obtains s' where "inner_remove A k s = Ret s'" and "sem_abs A s' (asem_delete k a)"
proof -
  obtain xs ys where q: "a_queue a = xs @ e # ys" and k: "e_key e = k"
    by (rule entry_of_split [OF assms(2)])
  have r: "sem_rel A s (xs @ e # ys)" and dist: "distinct (map e_key (xs @ e # ys))"
    using assms(1) q by (auto simp: sem_abs_def sem_rel_def)
  have del: "delete_key k (a_queue a) = xs @ ys"
    using delete_key_split [OF dist] q k by simp
  obtain s' where "inner_remove A (e_key e) s = Ret s'" "sem_rel A s' (xs @ ys)"
    "i_permits s' = i_permits s"
    by (rule inner_remove_queue [OF r])
  with assms(1) del k show ?thesis
    by (intro that [of s']) (simp_all add: sem_abs_def asem_delete_def)
qed

lemma add_refines:
  assumes "sem_abs A s a"
  obtains s' where "inner_add A w n s = Ret (slab_vacant_key A (i_waiters s), s')"
    and "sem_abs A s' (asem_enqueue (slab_vacant_key A (i_waiters s)) w n a)"
proof -
  from assms have r: "sem_rel A s (a_queue a)" by (simp add: sem_abs_def)
  let ?k = "slab_vacant_key A (i_waiters s)"
  obtain s' where "inner_add A w n s = Ret (?k, s')" and "i_permits s' = i_permits s"
    "sem_rel A s' (a_queue a @ [\<lparr>e_key = ?k, e_waker = Some w, e_required = n, e_woke = False\<rparr>])"
    by (rule inner_add_queue [OF r])
  with assms show ?thesis
    by (intro that [of s']) (simp_all add: sem_abs_def asem_enqueue_def)
qed

text \<open>Replacing the waker of one entry keeps the links.\<close>

lemma seg_set_waker:
  assumes "seg g nx q pv" and "g k = Some w" and "distinct (map e_key q)"
  shows "seg (g(k \<mapsto> w\<lparr>w_waker := x\<rparr>)) nx
           (map (\<lambda>e. if e_key e = k then e\<lparr>e_waker := x\<rparr> else e) q) pv"
  using assms
proof (induction q arbitrary: nx)
  case Nil
  then show ?case by simp
next
  case (Cons e q)
  have "first_key (map (\<lambda>e. if e_key e = k then e\<lparr>e_waker := x\<rparr> else e) q) = first_key q"
    by (cases q) auto
  with Cons show ?case by (auto simp: fun_upd_def)
qed

lemma set_waker_refines:
  assumes abs: "sem_abs A s a" and get: "slab_get A (i_waiters s) k = Some w"
  shows "sem_abs A (s\<lparr>i_waiters := slab_set A (i_waiters s) k (w\<lparr>w_waker := Some x\<rparr>)\<rparr>) (asem_set_waker k x a)"
proof -
  define q where "q = a_queue a"
  define q' where "q' = map (\<lambda>e. if e_key e = k then e\<lparr>e_waker := Some x\<rparr> else e) q"
  have keys: "map e_key q' = map e_key q" by (simp add: q'_def)
  have img: "e_key ` set q' = e_key ` set q" using keys by (metis image_set)
  have ends: "first_key q' = first_key q" "last_key q' = last_key q"
    unfolding q'_def by (cases q) (simp_all add: last_opt_def last_map)
  have rel: "sem_rel A s q" using abs by (simp add: sem_abs_def q_def)
  then have sg: "seg ((slab_get A (i_waiters s))(k \<mapsto> w\<lparr>w_waker := Some x\<rparr>)) None q' None"
    unfolding q'_def using get by (intro seg_set_waker) (simp_all add: sem_rel_def)
  have "k \<in> e_key ` set q"
    using get sem_rel_get_None [OF rel, of k] by auto
  then have dm: "insert k (e_key ` set q) = e_key ` set q" by blast
  have "sem_rel A (s\<lparr>i_waiters := slab_set A (i_waiters s) k (w\<lparr>w_waker := Some x\<rparr>)\<rparr>) q'"
    using rel get sg unfolding sem_rel_def by (simp add: get_set ends keys img dm)
  then show ?thesis
    using abs by (simp add: sem_abs_def asem_set_waker_def q'_def q_def)
qed

text \<open>The operations of the semaphore simulate their contract, panics included.\<close>

lemma poll_acquire_refines:
  assumes abs: "sem_abs A s a"
  shows "rel_m (poll_rel A) (inner_poll_acquire A n st cx s)
           (asem_poll (slab_vacant_key A (i_waiters s)) n st cx a)"
proof (cases st)
  case Idle
  obtain ok s1 where t: "inner_try_acquire A n s = (ok, s1)" by (cases "inner_try_acquire A n s")
  obtain a1 where t': "asem_try_acquire n a = (ok, a1)" and abs1: "sem_abs A s1 a1"
    using try_acquire_refines [OF abs, of n] t by (cases "asem_try_acquire n a") auto
  have same: "s1 = s" if "\<not> ok"
    using t that by (auto simp: inner_try_acquire_def split: if_splits)
  show ?thesis
  proof (cases ok)
    case True
    with Idle t t' abs1 show ?thesis by (simp add: poll_rel_def)
  next
    case False
    obtain s' where "inner_add A cx n s = Ret (slab_vacant_key A (i_waiters s), s')"
      and "sem_abs A s' (asem_enqueue (slab_vacant_key A (i_waiters s)) cx n a)"
      by (rule add_refines [OF abs])
    with False Idle t t' same show ?thesis by (simp add: poll_rel_def)
  qed
next
  case (Waiting i)
  show ?thesis
  proof (cases "entry_of i a")
    case None
    then have "slab_get A (i_waiters s) i = None"
      using abs by (simp add: sem_abs_get_None)
    with None Waiting show ?thesis by simp
  next
    case (Some e)
    note e = entry_of_Some [OF Some]
    obtain nx pv where get: "slab_get A (i_waiters s) i = Some (entry_waiter nx pv e)"
      using abs e sem_rel_lookup unfolding sem_abs_def by metis
    let ?s1 = "s\<lparr>i_permits := i_permits s - e_required e\<rparr>"
    let ?a1 = "a\<lparr>a_permits := a_permits a - e_required e\<rparr>"
    have p: "i_permits s = a_permits a" using abs by (simp add: sem_abs_def)
    have abs1: "sem_abs A ?s1 ?a1" using abs p by simp
    have ent1: "entry_of i ?a1 = Some e" using Some by (simp add: entry_of_def)
    obtain s2 where rm: "inner_remove A i ?s1 = Ret s2" and abs2: "sem_abs A s2 (asem_delete i ?a1)"
      by (rule remove_refines [OF abs1 ent1])
    obtain s3 where wk: "inner_wake A s2 = Ret (s3, snd (asem_wake (asem_delete i ?a1)))"
      and abs3: "sem_abs A s3 (fst (asem_wake (asem_delete i ?a1)))"
      by (rule wake_refines [OF abs2])
    have same: "asem_set_waker i cx a = a" if cx: "e_waker e = Some cx"
    proof -
      have "f = e" if "f \<in> set (a_queue a)" "e_key f = i" for f
        using entry_ofI [OF sem_abs_distinct [OF abs] that(1)] that(2) Some by simp
      then have "map (\<lambda>e. if e_key e = i then e\<lparr>e_waker := Some cx\<rparr> else e) (a_queue a) = a_queue a"
        using cx by (intro map_idI) auto
      then show ?thesis by (simp add: asem_set_waker_def)
    qed
    show ?thesis
    proof (cases "e_woke e")
      case True
      with Some Waiting get rm wk abs3 p show ?thesis
        by (simp add: poll_rel_def case_prod_unfold)
    next
      case False
      with Some Waiting get set_waker_refines [OF abs get, of cx] same abs show ?thesis
        by (simp add: poll_rel_def split: option.split)
    qed
  qed
next
  case Done
  then show ?thesis by simp
qed

lemma drop_refines:
  assumes abs: "sem_abs A s a"
  shows "rel_m (op_rel A) (acquire_drop A st s) (asem_drop st a)"
proof (cases st)
  case (Waiting i)
  show ?thesis
  proof (cases "entry_of i a")
    case None
    then have "slab_get A (i_waiters s) i = None"
      using abs by (simp add: sem_abs_get_None)
    then have "slab_remove A (i_waiters s) i = None" by (simp add: remove_None)
    with None Waiting show ?thesis by (simp add: acquire_drop_def asem_drop_def inner_remove_def)
  next
    case (Some e)
    obtain s2 where rm: "inner_remove A i s = Ret s2" and abs2: "sem_abs A s2 (asem_delete i a)"
      by (rule remove_refines [OF abs Some])
    show ?thesis
      by (rule wake_refines [OF abs2])
        (use rm Some Waiting in \<open>simp add: acquire_drop_def asem_drop_def op_rel_def case_prod_unfold\<close>)
  qed
qed (use abs in \<open>simp_all add: acquire_drop_def asem_drop_def op_rel_def\<close>)

lemma add_permits_refines:
  assumes abs: "sem_abs A s a"
  shows "rel_m (op_rel A) (semaphore_add_permits oc A n s) (asem_add_permits oc n a)"
proof (cases "usize_add oc (i_permits s) n")
  case None
  then show ?thesis by (simp add: usize_add_def split: if_splits)
next
  case (Some r)
  have p: "i_permits s = a_permits a" using abs by (simp add: sem_abs_def)
  show ?thesis
  proof (cases r)
    case (Inl e)
    with Some p abs show ?thesis
      by (simp add: semaphore_add_permits_def asem_add_permits_def op_rel_def)
  next
    case (Inr m)
    have abs1: "sem_abs A (s\<lparr>i_permits := m\<rparr>) (a\<lparr>a_permits := m\<rparr>)" using abs by simp
    show ?thesis
      by (rule wake_refines [OF abs1])
        (use Inr Some p abs in
          \<open>simp add: semaphore_add_permits_def asem_add_permits_def op_rel_def case_prod_unfold\<close>)
  qed
qed

end

interpretation waiters: waiter_slab assoc_slab ..

end
