(* ===== verification/Semaphore_Invariant.thy ===== *)
theory Semaphore_Invariant
  imports Semaphore_Queue
begin

text \<open>
  The invariant of the abstract semaphore: the woken waiters are the oldest ones, the
  permits cover all of them, every waiter asked for at least one permit, and when no waiter
  is woken the oldest one is blocked. Each operation keeps it.
\<close>

section \<open>The invariant\<close>

definition woken_first :: "'w entry list \<Rightarrow> bool" where
  "woken_first q \<longleftrightarrow> sorted_wrt (\<lambda>e f. e_woke f \<longrightarrow> e_woke e) q"

definition promised :: "'w entry list \<Rightarrow> nat" where
  "promised q = sum_list (map (\<lambda>e. if e_woke e then unat (e_required e) else 0) q)"

fun no_lost_wakeup :: "usize \<Rightarrow> 'w entry list \<Rightarrow> bool" where
  "no_lost_wakeup p [] = True"
| "no_lost_wakeup p (e # q) = (e_woke e \<or> p < e_required e)"

definition asem_inv :: "'w asem \<Rightarrow> bool" where
  "asem_inv a \<longleftrightarrow>
     distinct (map e_key (a_queue a)) \<and>
     woken_first (a_queue a) \<and>
     promised (a_queue a) \<le> unat (a_permits a) \<and>
     (\<forall>e \<in> set (a_queue a). 0 < e_required e) \<and>
     no_lost_wakeup (a_permits a) (a_queue a)"

lemma woken_first_simps [simp]:
  "woken_first []"
  "woken_first (e # q) \<longleftrightarrow> (\<forall>f \<in> set q. e_woke f \<longrightarrow> e_woke e) \<and> woken_first q"
  by (simp_all add: woken_first_def)

lemma promised_simps [simp]:
  "promised [] = 0"
  "promised (e # q) = (if e_woke e then unat (e_required e) else 0) + promised q"
  "promised (xs @ ys) = promised xs + promised ys"
  by (simp_all add: promised_def)

lemma woken_first_append:
  "woken_first (xs @ ys) \<longleftrightarrow>
     woken_first xs \<and> woken_first ys \<and> (\<forall>e \<in> set xs. \<forall>f \<in> set ys. e_woke f \<longrightarrow> e_woke e)"
  by (auto simp: woken_first_def sorted_wrt_append)

lemma promised_unwoken: "\<forall>e \<in> set q. \<not> e_woke e \<Longrightarrow> promised q = 0"
  by (induction q) auto

lemma promised_ge: "e \<in> set q \<Longrightarrow> e_woke e \<Longrightarrow> unat (e_required e) \<le> promised q"
  by (induction q) auto

section \<open>Waking\<close>

lemma wake_queue_woken_first: "woken_first q \<Longrightarrow> woken_first (wake_queue p q)"
  by (induction p q rule: wake_queue.induct) auto

lemma wake_queue_promised:
  assumes "woken_first q" and "promised q \<le> unat p"
  shows "promised (wake_queue p q) \<le> unat p"
  using assms
proof (induction p q rule: wake_queue.induct)
  case (2 p e es)
  show ?case
  proof (cases "p < e_required e")
    case True
    with 2 show ?thesis by simp
  next
    case False
    then have le: "unat (e_required e) \<le> unat p" by (simp add: word_le_nat_alt not_less)
    have "promised es \<le> unat p - unat (e_required e)"
    proof (cases "e_woke e")
      case True
      with 2(3) show ?thesis by simp
    next
      case False
      with 2(2) have "promised es = 0" by (intro promised_unwoken) auto
      then show ?thesis by simp
    qed
    with 2 False le have "promised (wake_queue (p - e_required e) es) \<le> unat p - unat (e_required e)"
      by (simp add: unat_usize_sub not_less)
    with False le show ?thesis by simp
  qed
qed simp

lemma wake_queue_no_lost:
  "no_lost_wakeup p (wake_queue p q)"
  by (cases q) auto

lemma wake_queue_positive:
  "\<forall>e \<in> set q. 0 < e_required e \<Longrightarrow> \<forall>e \<in> set (wake_queue p q). 0 < e_required e"
  by (induction p q rule: wake_queue.induct) auto

text \<open>
  What a wake-up leaves behind: each entry not woken is blocked by the entries before it,
  and the wakers called are those of the entries that were newly woken, oldest first.
\<close>

lemma wake_queue_woken_mono:
  "i < length q \<Longrightarrow> e_woke (q ! i) \<Longrightarrow> woken_first q \<Longrightarrow> promised q \<le> unat p \<Longrightarrow>
     e_woke (wake_queue p q ! i)"
proof (induction p q arbitrary: i rule: wake_queue.induct)
  case (2 p e es)
  show ?case
  proof (cases "p < e_required e")
    case True
    with 2 show ?thesis by simp
  next
    case False
    then have le: "unat (e_required e) \<le> unat p" by (simp add: word_le_nat_alt not_less)
    show ?thesis
    proof (cases i)
      case 0
      with False show ?thesis by simp
    next
      case (Suc j)
      with 2 have "e_woke (es ! j)" "j < length es" by simp_all
      moreover from this have "es ! j \<in> set es" by simp
      ultimately have "e_woke e" using 2(4) by auto
      with \<open>e_woke (es ! j)\<close> \<open>j < length es\<close> show ?thesis
        using 2(1) [OF False, of j] 2(4,5) Suc False le by (simp add: unat_usize_sub not_less)
    qed
  qed
qed simp

lemma wake_wakers_eq:
  assumes "woken_first q" and "promised q \<le> unat p"
  shows "wake_wakers p q =
    concat (map (\<lambda>(e, f). if \<not> e_woke e \<and> e_woke f
                 then case e_waker e of None \<Rightarrow> [] | Some w \<Rightarrow> [w] else [])
      (zip q (wake_queue p q)))"
  using assms
proof (induction p q rule: wake_queue.induct)
  case (2 p e es)
  show ?case
  proof (cases "p < e_required e")
    case True
    have "concat (map (\<lambda>(e, f). if \<not> e_woke e \<and> e_woke f
        then case e_waker e of None \<Rightarrow> [] | Some w \<Rightarrow> [w] else []) (zip q q)) = []" for q :: "'a entry list"
      by (induction q) auto
    from this [of "e # es"] True show ?thesis by simp
  next
    case False
    then have le: "unat (e_required e) \<le> unat p" by (simp add: word_le_nat_alt not_less)
    have "promised es \<le> unat (p - e_required e)"
    proof (cases "e_woke e")
      case True
      with 2(3) False show ?thesis by (simp add: unat_usize_sub not_less)
    next
      case False
      with 2(2) have "promised es = 0" by (intro promised_unwoken) auto
      then show ?thesis by simp
    qed
    with 2 False show ?thesis by simp
  qed
qed simp

section \<open>Every operation keeps the invariant\<close>

lemma asem_wake_inv_weak:
  assumes "distinct (map e_key (a_queue a))" and "woken_first (a_queue a)"
    and "promised (a_queue a) \<le> unat (a_permits a)"
    and "\<forall>e \<in> set (a_queue a). 0 < e_required e"
  shows "asem_inv (fst (asem_wake a))"
  using assms wake_queue_no_lost [of "a_permits a" "a_queue a"] wake_queue_positive [of "a_queue a"]
  by (simp add: asem_inv_def asem_wake_def wake_queue_woken_first wake_queue_promised
)
lemma asem_inv_new: "asem_inv \<lparr>a_permits = n, a_queue = []\<rparr>"
  by (simp add: asem_inv_def)

lemma asem_try_acquire_inv:
  assumes "asem_inv a" and "asem_try_acquire n a = (ok, a')"
  shows "asem_inv a'"
  using assms by (auto simp: asem_try_acquire_def asem_inv_def split: if_splits)

lemma asem_try_acquire_fail:
  assumes "asem_try_acquire n a = (False, a')"
  shows "a' = a" and "0 < n" and "a_queue a = [] \<Longrightarrow> a_permits a < n"
  using assms by (auto simp: asem_try_acquire_def word_gt_0 split: if_splits)

lemma asem_enqueue_inv:
  assumes inv: "asem_inv a" and fail: "asem_try_acquire n a = (False, a')"
    and fresh: "k \<notin> e_key ` set (a_queue a)"
  shows "asem_inv (asem_enqueue k w n a)"
  using inv fresh asem_try_acquire_fail [OF fail]
  by (cases "a_queue a") (auto simp: asem_inv_def asem_enqueue_def woken_first_append)

lemma promised_delete:
  "distinct (map e_key q) \<Longrightarrow> e \<in> set q \<Longrightarrow>
     promised (delete_key (e_key e) q) + (if e_woke e then unat (e_required e) else 0) = promised q"
  by (auto dest!: split_list)

lemma promised_delete_le: "promised (delete_key k q) \<le> promised q"
  by (induction q) (auto simp: delete_key_def)

lemma woken_first_delete: "woken_first q \<Longrightarrow> woken_first (delete_key k q)"
  by (simp add: woken_first_def delete_key_def sorted_wrt_filter)

lemma distinct_delete: "distinct (map e_key q) \<Longrightarrow> distinct (map e_key (delete_key k q))"
  by (simp add: delete_key_def distinct_map_filter)

lemma asem_delete_wake_inv:
  assumes "asem_inv a" and "promised (delete_key k (a_queue a)) \<le> unat p"
  shows "asem_inv (fst (asem_wake (asem_delete k (a\<lparr>a_permits := p\<rparr>))))"
  using assms
  by (intro asem_wake_inv_weak) (auto simp: asem_inv_def asem_delete_def woken_first_delete distinct_delete)

lemma asem_set_waker_inv:
  assumes "asem_inv a" shows "asem_inv (asem_set_waker k w a)"
proof -
  let ?f = "\<lambda>e. if e_key e = k then e\<lparr>e_waker := Some w\<rparr> else e"
  have f: "e_key (?f e) = e_key e" "e_woke (?f e) = e_woke e" "e_required (?f e) = e_required e" for e
    by simp_all
  have "map e_key (map ?f q) = map e_key q" "promised (map ?f q) = promised q" for q
    by (simp_all add: promised_def comp_def f cong: if_cong)
  moreover have "woken_first (map ?f q) = woken_first q" for q
    by (simp add: woken_first_def sorted_wrt_map f)
  moreover have "no_lost_wakeup p (map ?f q) = no_lost_wakeup p q" for p q
    by (cases q) (simp_all add: f)
  ultimately show ?thesis
    using assms by (auto simp: asem_inv_def asem_set_waker_def comp_def f)
qed

text \<open>
  Polling keeps the invariant; in particular the \<open>assert!\<close> of \<open>poll_acquire\<close> holds,
  because the permits cover every woken waiter.
\<close>

lemma asem_assert_holds:
  assumes "asem_inv a" and "entry_of i a = Some e" and "e_woke e"
  shows "e_required e \<le> a_permits a"
proof -
  have "unat (e_required e) \<le> promised (a_queue a)"
    using entry_of_Some [OF assms(2)] assms(3) by (intro promised_ge) simp_all
  with assms(1) show ?thesis by (simp add: asem_inv_def word_le_nat_alt)
qed

lemma asem_poll_inv:
  assumes inv: "asem_inv a" and fresh: "k \<notin> e_key ` set (a_queue a)"
    and run: "asem_poll k n st cx a = Ret (r, st', a', out)"
  shows "asem_inv a'"
proof (cases st)
  case Idle
  with run inv fresh show ?thesis
    by (auto split: prod.splits if_splits
        intro: asem_try_acquire_inv asem_enqueue_inv)
next
  case (Waiting i)
  then obtain e where e: "entry_of i a = Some e"
    using run by (auto split: option.splits)
  note mem = entry_of_Some [OF e]
  show ?thesis
  proof (cases "e_woke e")
    case True
    have le: "e_required e \<le> a_permits a" by (rule asem_assert_holds [OF inv e True])
    have "promised (delete_key i (a_queue a)) + unat (e_required e) \<le> unat (a_permits a)"
      using promised_delete [of "a_queue a" e] mem True inv by (auto simp: asem_inv_def)
    then have "promised (delete_key i (a_queue a)) \<le> unat (a_permits a - e_required e)"
      using le by (simp add: unat_usize_sub)
    from asem_delete_wake_inv [OF inv this] run Waiting e True le show ?thesis
      by (simp split: prod.splits)
  next
    case False
    with run Waiting e inv show ?thesis by (auto intro: asem_set_waker_inv)
  qed
next
  case Done
  with run show ?thesis by simp
qed

lemma asem_drop_inv:
  assumes inv: "asem_inv a" and run: "asem_drop st a = Ret (a', out)"
  shows "asem_inv a'"
proof (cases st)
  case (Waiting i)
  have "promised (delete_key i (a_queue a)) \<le> unat (a_permits a)"
    using promised_delete_le [of i "a_queue a"] inv by (simp add: asem_inv_def)
  from asem_delete_wake_inv [OF inv this] Waiting run show ?thesis
    by (auto simp: asem_drop_def split: option.splits prod.splits)
qed (use assms in \<open>simp_all add: asem_drop_def\<close>)

lemma asem_add_permits_inv:
  assumes inv: "asem_inv a" and run: "asem_add_permits oc n a = Ret (a', out)"
    and fits: "unat (a_permits a) + unat n < 2 ^ 64"
  shows "asem_inv a'"
proof (cases "n = 0")
  case False
  have "promised (a_queue a) \<le> unat (a_permits a + n)"
    using inv usize_add_fits(2) [OF fits] by (simp add: asem_inv_def)
  then have "asem_inv (fst (asem_wake (a\<lparr>a_permits := a_permits a + n\<rparr>)))"
    using inv by (intro asem_wake_inv_weak) (simp_all add: asem_inv_def)
  with False run usize_add_fits(1) [OF fits, of oc] show ?thesis
    by (simp add: asem_add_permits_def)
qed (use assms in \<open>simp add: asem_add_permits_def\<close>)

end
