(* ===== verification/Semaphore_System.thy ===== *)
theory Semaphore_System
  imports Semaphore_Invariant "HOL-Library.Multiset"
begin

text \<open>
  A semaphore and its clients: pending \<open>Acquire\<close> futures, live permits, and the number of
  permits in circulation. One rule of \<open>sem_step\<close> per public operation; each runs the code
  of \<open>Semaphore\<close>. The invariant \<open>sys_inv\<close> holds in every reachable state; under it no
  operation of the code panics or loops, and no permit is lost or duplicated.
\<close>

section \<open>Clients\<close>

record 's sem_sys =
  y_sem :: "'s inner"
  y_futs :: "nat \<Rightarrow> (acquire_state \<times> usize) option"
  y_held :: "usize multiset"
  y_total :: nat

definition sem_sys_new :: "('s, 'w waiter) slab_api \<Rightarrow> usize \<Rightarrow> 's sem_sys" where
  "sem_sys_new A n = \<lparr>y_sem = semaphore_new A n, y_futs = Map.empty, y_held = {#}, y_total = unat n\<rparr>"

text \<open>
  A step and the wakers it calls. An \<open>.await\<close>ed \<open>Acquire\<close> is not polled again once it is
  ready (its state is then dropped, which does nothing). A client may add permits as long
  as no more than \<open>usize::MAX\<close> are in circulation.
\<close>

inductive sem_step :: "bool \<Rightarrow> ('s, 'w waiter) slab_api \<Rightarrow> 's sem_sys \<Rightarrow> 'w list \<Rightarrow> 's sem_sys \<Rightarrow> bool"
  for oc A where
  start: "y_futs y f = None \<Longrightarrow>
     sem_step oc A y [] (y\<lparr>y_futs := (y_futs y)(f \<mapsto> (Idle, n))\<rparr>)"
| poll_pending: "y_futs y f = Some (st, n) \<Longrightarrow>
     acquire_poll A n st cx (y_sem y) = Ret (Pending, st', s', out) \<Longrightarrow>
     sem_step oc A y out (y\<lparr>y_sem := s', y_futs := (y_futs y)(f \<mapsto> (st', n))\<rparr>)"
| poll_ready: "y_futs y f = Some (st, n) \<Longrightarrow>
     acquire_poll A n st cx (y_sem y) = Ret (Ready p, st', s', out) \<Longrightarrow>
     sem_step oc A y out (y\<lparr>y_sem := s', y_futs := (y_futs y)(f := None), y_held := add_mset p (y_held y)\<rparr>)"
| cancel: "y_futs y f = Some (st, n) \<Longrightarrow>
     acquire_drop A st (y_sem y) = Ret (s', out) \<Longrightarrow>
     sem_step oc A y out (y\<lparr>y_sem := s', y_futs := (y_futs y)(f := None)\<rparr>)"
| try_ok: "semaphore_try_acquire A n (y_sem y) = (Some p, s') \<Longrightarrow>
     sem_step oc A y [] (y\<lparr>y_sem := s', y_held := add_mset p (y_held y)\<rparr>)"
| try_fail: "semaphore_try_acquire A n (y_sem y) = (None, s') \<Longrightarrow>
     sem_step oc A y [] (y\<lparr>y_sem := s'\<rparr>)"
| release: "p \<in># y_held y \<Longrightarrow> permit_drop oc A p (y_sem y) = Ret (s', out) \<Longrightarrow>
     sem_step oc A y out (y\<lparr>y_sem := s', y_held := y_held y - {#p#}\<rparr>)"
| forget: "p \<in># y_held y \<Longrightarrow> permit_forget oc A p (y_sem y) = Ret (s', out) \<Longrightarrow>
     sem_step oc A y out (y\<lparr>y_sem := s', y_held := y_held y - {#p#}, y_total := y_total y - unat p\<rparr>)"
| grow: "y_total y + unat n < 2 ^ 64 \<Longrightarrow>
     semaphore_add_permits oc A n (y_sem y) = Ret (s', out) \<Longrightarrow>
     sem_step oc A y out (y\<lparr>y_sem := s', y_total := y_total y + unat n\<rparr>)"

inductive sem_reach :: "bool \<Rightarrow> ('s, 'w waiter) slab_api \<Rightarrow> usize \<Rightarrow> 's sem_sys \<Rightarrow> bool" for oc A n where
  init: "sem_reach oc A n (sem_sys_new A n)"
| step: "sem_reach oc A n y \<Longrightarrow> sem_step oc A y out y' \<Longrightarrow> sem_reach oc A n y'"

section \<open>The invariant\<close>

text \<open>The requests in the queue, by key; each belongs to exactly one waiting future.\<close>

definition requests :: "'w entry list \<Rightarrow> (nat \<times> usize) set" where
  "requests q = (\<lambda>e. (e_key e, e_required e)) ` set q"

definition owners :: "(nat \<Rightarrow> (acquire_state \<times> usize) option) \<Rightarrow> (nat \<times> usize) set \<Rightarrow> bool" where
  "owners futs R \<longleftrightarrow>
     (\<forall>k n. (k, n) \<in> R \<longleftrightarrow> (\<exists>f. futs f = Some (Waiting k, n))) \<and>
     (\<forall>f g k n m. futs f = Some (Waiting k, n) \<longrightarrow> futs g = Some (Waiting k, m) \<longrightarrow> f = g) \<and>
     (\<forall>f n. futs f \<noteq> Some (Done, n))"

abbreviation held_sum :: "usize multiset \<Rightarrow> nat" where
  "held_sum M \<equiv> sum_mset (image_mset unat M)"

definition sys_rel :: "('s, 'w waiter) slab_api \<Rightarrow> 's sem_sys \<Rightarrow> 'w asem \<Rightarrow> bool" where
  "sys_rel A y a \<longleftrightarrow>
     sem_abs A (y_sem y) a \<and> asem_inv a \<and>
     owners (y_futs y) (requests (a_queue a)) \<and>
     unat (a_permits a) + held_sum (y_held y) = y_total y \<and> y_total y < 2 ^ 64"

definition sys_inv :: "('s, 'w waiter) slab_api \<Rightarrow> 's sem_sys \<Rightarrow> bool" where
  "sys_inv A y \<longleftrightarrow> (\<exists>a. sys_rel A y a)"

lemma requests_simps [simp]:
  "requests [] = {}" "requests (e # q) = insert (e_key e, e_required e) (requests q)"
  "requests (xs @ ys) = requests xs \<union> requests ys"
  by (simp_all add: requests_def image_Un)

lemma requests_wake [simp]: "requests (wake_queue p q) = requests q"
  by (induction p q rule: wake_queue.induct) simp_all

lemma requests_asem_wake [simp]: "requests (a_queue (fst (asem_wake a))) = requests (a_queue a)"
  by (simp add: asem_wake_def)

lemma requests_map_waker:
  "requests (map (\<lambda>e. if e_key e = k then e\<lparr>e_waker := w\<rparr> else e) q) = requests q"
  by (induction q) simp_all

lemma requests_set_waker [simp]: "requests (a_queue (asem_set_waker k w a)) = requests (a_queue a)"
  by (simp add: asem_set_waker_def requests_map_waker)

lemma Collect_insert_if: "{r \<in> insert x R. P r} = (if P x then insert x {r \<in> R. P r} else {r \<in> R. P r})"
  by auto

lemma requests_delete_key: "requests (delete_key k q) = {r \<in> requests q. fst r \<noteq> k}"
  by (induction q) (simp_all add: Collect_insert_if delete_key_def del: insert_iff)

lemma requests_delete [simp]:
  "requests (a_queue (asem_delete k a)) = {r \<in> requests (a_queue a). fst r \<noteq> k}"
  by (simp add: asem_delete_def requests_delete_key)

lemma requests_enqueue [simp]:
  "requests (a_queue (asem_enqueue k w n a)) = insert (k, n) (requests (a_queue a))"
  by (simp add: asem_enqueue_def)

lemma permits_wake [simp]: "a_permits (fst (asem_wake a)) = a_permits a"
  by (simp add: asem_wake_def)

lemma permits_ops [simp]:
  "a_permits (asem_delete k a) = a_permits a"
  "a_permits (asem_enqueue k w n a) = a_permits a"
  "a_permits (asem_set_waker k w a) = a_permits a"
  by (simp_all add: asem_delete_def asem_enqueue_def asem_set_waker_def)

text \<open>How the owners change when a future starts, waits, or goes.\<close>

lemma waiting_upd_other:
  "futs f \<noteq> Some (Waiting k, n) \<Longrightarrow> v \<noteq> Some (Waiting k, n) \<Longrightarrow>
     (\<exists>g. (futs(f := v)) g = Some (Waiting k, n)) \<longleftrightarrow> (\<exists>g. futs g = Some (Waiting k, n))"
  by (metis fun_upd_apply)

lemma ownersD:
  assumes "owners futs R"
  shows "(k, n) \<in> R \<Longrightarrow> \<exists>f. futs f = Some (Waiting k, n)"
    and "futs f = Some (Waiting k, n) \<Longrightarrow> (k, n) \<in> R"
    and "futs f = Some (Waiting k, n) \<Longrightarrow> futs g = Some (Waiting k, m) \<Longrightarrow> f = g"
    and "futs f = Some (Done, n) \<Longrightarrow> False"
  using assms unfolding owners_def by blast+

text \<open>A future outside the waiting state may change to any other such state, or go.\<close>

lemma owners_not_waiting:
  assumes own: "owners futs R" and old: "\<And>k n. futs f \<noteq> Some (Waiting k, n)"
    and new: "\<And>k n. v \<noteq> Some (Waiting k, n)" "\<And>n. v \<noteq> Some (Done, n)"
  shows "owners (futs(f := v)) R"
  unfolding owners_def
proof (intro conjI allI impI)
  fix k n show "(k, n) \<in> R \<longleftrightarrow> (\<exists>g. (futs(f := v)) g = Some (Waiting k, n))"
    using own waiting_upd_other [of futs f k n v, OF old new(1)] by (simp add: owners_def)
next
  fix g h k n m
  assume "(futs(f := v)) g = Some (Waiting k, n)" "(futs(f := v)) h = Some (Waiting k, m)"
  then show "g = h" using ownersD(3) [OF own, of g k n h m] new(1) by (auto split: if_splits)
next
  fix g n show "(futs(f := v)) g \<noteq> Some (Done, n)"
    using ownersD(4) [OF own, of g n] new(2) by auto
qed

lemma owners_wait:
  assumes own: "owners futs R" and old: "\<And>k n. futs f \<noteq> Some (Waiting k, n)"
    and k: "k \<notin> fst ` R"
  shows "owners (futs(f \<mapsto> (Waiting k, n))) (insert (k, n) R)"
  unfolding owners_def
proof (intro conjI allI impI)
  fix j m
  show "(j, m) \<in> insert (k, n) R \<longleftrightarrow> (\<exists>g. (futs(f \<mapsto> (Waiting k, n))) g = Some (Waiting j, m))"
  proof (cases "(j, m) = (k, n)")
    case True
    then show ?thesis by auto
  next
    case False
    then have "(\<exists>g. (futs(f \<mapsto> (Waiting k, n))) g = Some (Waiting j, m)) \<longleftrightarrow> (\<exists>g. futs g = Some (Waiting j, m))"
      by (intro waiting_upd_other old) auto
    with False own show ?thesis by (auto simp: owners_def)
  qed
next
  fix g h j m l
  assume gh: "(futs(f \<mapsto> (Waiting k, n))) g = Some (Waiting j, m)" "(futs(f \<mapsto> (Waiting k, n))) h = Some (Waiting j, l)"
  have free: "futs i \<noteq> Some (Waiting k, m)" for i m
    using k ownersD(2) [OF own, of i k m] by force
  show "g = h" using gh ownersD(3) [OF own, of g j m h l] free by (auto split: if_splits)
next
  fix g m show "(futs(f \<mapsto> (Waiting k, n))) g \<noteq> Some (Done, m)"
    using ownersD(4) [OF own, of g m] by auto
qed

lemma owners_gone:
  assumes own: "owners futs R" and old: "futs f = Some (Waiting k, n)"
  shows "owners (futs(f := None)) {r \<in> R. fst r \<noteq> k}"
  unfolding owners_def
proof (intro conjI allI impI)
  fix j m
  show "(j, m) \<in> {r \<in> R. fst r \<noteq> k} \<longleftrightarrow> (\<exists>g. (futs(f := None)) g = Some (Waiting j, m))"
  proof (cases "j = k")
    case True
    have "(futs(f := None)) g \<noteq> Some (Waiting k, m)" for g
      using ownersD(3) [OF own old, of g m] by auto
    with True show ?thesis by simp
  next
    case False
    then have "(\<exists>g. (futs(f := None)) g = Some (Waiting j, m)) \<longleftrightarrow> (\<exists>g. futs g = Some (Waiting j, m))"
      using old by (intro waiting_upd_other) auto
    with False own show ?thesis by (simp add: owners_def)
  qed
next
  fix g h j m l
  assume "(futs(f := None)) g = Some (Waiting j, m)" "(futs(f := None)) h = Some (Waiting j, l)"
  then show "g = h" using ownersD(3) [OF own, of g j m h l] by (auto split: if_splits)
next
  fix g m show "(futs(f := None)) g \<noteq> Some (Done, m)"
    using ownersD(4) [OF own, of g m] by auto
qed

section \<open>Every step keeps the invariant\<close>

lemma held_sum_member: "p \<in># M \<Longrightarrow> held_sum (M - {#p#}) + unat p = held_sum M"
  by (auto dest!: multi_member_split)

lemma asem_poll_pending:
  assumes own: "owners futs (requests (a_queue a))" and fut: "futs f = Some (st, n)"
    and fresh: "k \<notin> e_key ` set (a_queue a)"
    and run: "asem_poll k n st cx a = Ret (Pending, st', a', out)"
  shows "owners (futs(f \<mapsto> (st', n))) (requests (a_queue a'))" and "a_permits a' = a_permits a"
proof -
  have fr: "k \<notin> fst ` requests (a_queue a)"
    using fresh by (simp add: requests_def image_image)
  have "owners (futs(f \<mapsto> (st', n))) (requests (a_queue a')) \<and> a_permits a' = a_permits a"
  proof (cases st)
    case Idle
    then obtain a1 where t: "asem_try_acquire n a = (False, a1)"
      and r: "st' = Waiting k" "a' = asem_enqueue k cx n a"
      using run by (auto split: prod.splits if_splits)
    with owners_wait [OF own _ fr] fut Idle show ?thesis by simp
  next
    case (Waiting i)
    with run have "st' = st" "a' = asem_set_waker i cx a"
      by (auto split: option.splits if_splits prod.splits)
    with own fut show ?thesis by (simp add: fun_upd_idem)
  next
    case Done
    with run show ?thesis by simp
  qed
  then show "owners (futs(f \<mapsto> (st', n))) (requests (a_queue a'))" "a_permits a' = a_permits a"
    by simp_all
qed

lemma asem_poll_ready:
  assumes own: "owners futs (requests (a_queue a))" and fut: "futs f = Some (st, n)"
    and dist: "distinct (map e_key (a_queue a))"
    and run: "asem_poll k n st cx a = Ret (Ready u, st', a', out)"
  shows "owners (futs(f := None)) (requests (a_queue a'))"
    and "unat (a_permits a') + unat n = unat (a_permits a)"
proof -
  have "owners (futs(f := None)) (requests (a_queue a')) \<and> unat (a_permits a') + unat n = unat (a_permits a)"
  proof (cases st)
    case Idle
    then have t: "asem_try_acquire n a = (True, a')"
      using run by (auto split: prod.splits if_splits)
    then have "n \<le> a_permits a" "a' = a\<lparr>a_permits := a_permits a - n\<rparr>"
      by (auto simp: asem_try_acquire_def split: if_splits)
    then show ?thesis
      using owners_not_waiting [OF own, of f None] fut Idle
      by (simp add: unat_usize_sub word_le_nat_alt)
  next
    case (Waiting i)
    then obtain e where e: "entry_of i a = Some e" "e_woke e" "e_required e \<le> a_permits a"
      and a': "a' = fst (asem_wake (asem_delete i (a\<lparr>a_permits := a_permits a - e_required e\<rparr>)))"
      using run by (auto split: option.splits if_splits prod.splits)
    have "(i, n) \<in> requests (a_queue a)"
      using ownersD(2) [OF own] fut Waiting by simp
    then obtain d where d: "d \<in> set (a_queue a)" "e_key d = i" "e_required d = n"
      by (auto simp: requests_def)
    with entry_ofI [OF dist d(1)] e(1) have n: "e_required e = n" by simp
    have "owners (futs(f := None)) (requests (a_queue a'))"
      using owners_gone [OF own, of f i n] fut Waiting by (simp add: a')
    with n e(3) show ?thesis by (simp add: a' unat_usize_sub word_le_nat_alt)
  next
    case Done
    with run show ?thesis by simp
  qed
  then show "owners (futs(f := None)) (requests (a_queue a'))"
    "unat (a_permits a') + unat n = unat (a_permits a)" by simp_all
qed

lemma asem_drop_owners:
  assumes own: "owners futs (requests (a_queue a))" and fut: "futs f = Some (st, n)"
    and run: "asem_drop st a = Ret (a', out)"
  shows "owners (futs(f := None)) (requests (a_queue a'))" and "a_permits a' = a_permits a"
proof -
  have "owners (futs(f := None)) (requests (a_queue a')) \<and> a_permits a' = a_permits a"
  proof (cases st)
    case (Waiting i)
    then have "a' = fst (asem_wake (asem_delete i a))"
      using run by (auto simp: asem_drop_def split: option.splits)
    with owners_gone [OF own, of f i n] fut Waiting show ?thesis by simp
  next
    case Idle
    with run owners_not_waiting [OF own, of f None] fut show ?thesis by (simp add: asem_drop_def)
  next
    case Done
    with ownersD(4) [OF own] fut show ?thesis by blast
  qed
  then show "owners (futs(f := None)) (requests (a_queue a'))" "a_permits a' = a_permits a"
    by simp_all
qed

lemma asem_add_permits_effect:
  assumes run: "asem_add_permits oc n a = Ret (a', out)" and fits: "unat (a_permits a) + unat n < 2 ^ 64"
  shows "requests (a_queue a') = requests (a_queue a)"
    and "unat (a_permits a') = unat (a_permits a) + unat n"
proof -
  have "requests (a_queue a') = requests (a_queue a) \<and> unat (a_permits a') = unat (a_permits a) + unat n"
  proof (cases "n = 0")
    case False
    then have "a' = fst (asem_wake (a\<lparr>a_permits := a_permits a + n\<rparr>))"
      using run usize_add_fits(1) [OF fits, of oc] by (simp add: asem_add_permits_def)
    then show ?thesis using usize_add_fits(2) [OF fits] by simp
  qed (use run in \<open>simp add: asem_add_permits_def\<close>)
  then show "requests (a_queue a') = requests (a_queue a)"
    "unat (a_permits a') = unat (a_permits a) + unat n" by simp_all
qed

text \<open>The code's operations on a related pair.\<close>

context waiter_slab
begin

lemma vacant_not_queued: "sem_abs A s a \<Longrightarrow> slab_vacant_key A (i_waiters s) \<notin> e_key ` set (a_queue a)"
  using vacant_key [of "i_waiters s"] by (simp add: sem_abs_get_None entry_of_None)

lemma acquire_poll_abs:
  assumes abs: "sem_abs A s a" and run: "acquire_poll A n st cx s = Ret (r, st', s', out)"
  obtains u a' where
    "asem_poll (slab_vacant_key A (i_waiters s)) n st cx a = Ret (u, st', a', out)"
    and "sem_abs A s' a'" and "r = map_poll_value (\<lambda>_. n) u"
proof -
  from run obtain u where "inner_poll_acquire A n st cx s = Ret (u, st', s', out)"
    and r: "r = map_poll_value (\<lambda>_. n) u"
    by (auto simp: acquire_poll_def bindM_Ret_conv)
  with poll_acquire_refines [OF abs, of n st cx] show ?thesis
    by (auto simp: poll_rel_def intro: that)
qed

lemma acquire_drop_abs:
  assumes abs: "sem_abs A s a" and run: "acquire_drop A st s = Ret (s', out)"
  obtains a' where "asem_drop st a = Ret (a', out)" and "sem_abs A s' a'"
  using drop_refines [OF abs, of st] run by (auto simp: op_rel_def)

lemma add_permits_abs:
  assumes abs: "sem_abs A s a" and run: "semaphore_add_permits oc A n s = Ret (s', out)"
  obtains a' where "asem_add_permits oc n a = Ret (a', out)" and "sem_abs A s' a'"
  using add_permits_refines [OF abs, of oc n] run by (auto simp: op_rel_def)

lemma try_acquire_abs:
  assumes abs: "sem_abs A s a" and run: "semaphore_try_acquire A n s = (p, s')"
  obtains ok a' where "asem_try_acquire n a = (ok, a')" and "sem_abs A s' a'"
    and "p = (if ok then Some n else None)"
proof -
  obtain ok s1 where t: "inner_try_acquire A n s = (ok, s1)" by (cases "inner_try_acquire A n s")
  obtain ok' a' where t': "asem_try_acquire n a = (ok', a')" by (cases "asem_try_acquire n a")
  from try_acquire_refines [OF abs, of n] t t' run show ?thesis
    by (intro that [of ok' a']) (simp_all add: semaphore_try_acquire_def)
qed

lemma sys_inv_new: "sys_inv A (sem_sys_new A n)"
  unfolding sys_inv_def sys_rel_def sem_sys_new_def
  by (rule exI [of _ "\<lparr>a_permits = n, a_queue = []\<rparr>"])
    (use sem_abs_new [of n] asem_inv_new [of n] unsigned_less [of n] in \<open>simp add: owners_def\<close>)

lemma add_permits_step:
  assumes rel: "sys_rel A y a" and run: "semaphore_add_permits oc A n (y_sem y) = Ret (s', out)"
    and fits: "unat (a_permits a) + unat n < 2 ^ 64"
  obtains a' where "sem_abs A s' a'" and "asem_inv a'"
    and "owners (y_futs y) (requests (a_queue a'))"
    and "unat (a_permits a') = unat (a_permits a) + unat n"
proof -
  obtain a' where r: "asem_add_permits oc n a = Ret (a', out)" and abs: "sem_abs A s' a'"
    using add_permits_abs [OF _ run, of a] rel by (auto simp: sys_rel_def)
  show ?thesis
    by (rule that [OF abs])
      (use asem_add_permits_inv [OF _ r fits] asem_add_permits_effect [OF r fits] rel in
        \<open>simp_all add: sys_rel_def\<close>)
qed

lemma sem_step_inv:
  assumes "sem_step oc A y out y'" and "sys_inv A y"
  shows "sys_inv A y'"
  using assms
proof (cases rule: sem_step.cases)
  case (start f n)
  from assms(2) obtain a where rel: "sys_rel A y a" by (auto simp: sys_inv_def)
  then have "owners ((y_futs y)(f \<mapsto> (Idle, n))) (requests (a_queue a))"
    using start by (intro owners_not_waiting) (simp_all add: sys_rel_def)
  with rel start show ?thesis unfolding sys_inv_def sys_rel_def by (intro exI [of _ a]) simp
next
  case (poll_pending f st n cx st' s')
  from assms(2) obtain a where rel: "sys_rel A y a" by (auto simp: sys_inv_def)
  then have abs: "sem_abs A (y_sem y) a" and inv: "asem_inv a"
    and own: "owners (y_futs y) (requests (a_queue a))" by (simp_all add: sys_rel_def)
  obtain u a' where r: "asem_poll (slab_vacant_key A (i_waiters (y_sem y))) n st cx a = Ret (u, st', a', out)"
    and abs': "sem_abs A s' a'" and u: "u = Pending"
    by (rule acquire_poll_abs [OF abs poll_pending(3)]) (simp add: map_poll_value_conv)
  note r = r [unfolded u] and fresh = vacant_not_queued [OF abs]
  from asem_poll_inv [OF inv fresh r] asem_poll_pending [OF own poll_pending(2) fresh r] abs' rel poll_pending
  show ?thesis unfolding sys_inv_def sys_rel_def by (intro exI [of _ a']) simp
next
  case (poll_ready f st n cx p st' s')
  from assms(2) obtain a where rel: "sys_rel A y a" by (auto simp: sys_inv_def)
  then have abs: "sem_abs A (y_sem y) a" and inv: "asem_inv a"
    and own: "owners (y_futs y) (requests (a_queue a))" by (simp_all add: sys_rel_def)
  obtain v a' where r: "asem_poll (slab_vacant_key A (i_waiters (y_sem y))) n st cx a = Ret (Ready v, st', a', out)"
    and abs': "sem_abs A s' a'" and p: "p = n"
    by (rule acquire_poll_abs [OF abs poll_ready(3)]) (auto simp: map_poll_value_conv)
  note fresh = vacant_not_queued [OF abs]
  from asem_poll_inv [OF inv fresh r] asem_poll_ready [OF own poll_ready(2) sem_abs_distinct [OF abs] r]
    abs' rel poll_ready p
  show ?thesis unfolding sys_inv_def sys_rel_def by (intro exI [of _ a']) simp
next
  case (cancel f st n s')
  from assms(2) obtain a where rel: "sys_rel A y a" by (auto simp: sys_inv_def)
  then have abs: "sem_abs A (y_sem y) a" and inv: "asem_inv a"
    and own: "owners (y_futs y) (requests (a_queue a))" by (simp_all add: sys_rel_def)
  obtain a' where r: "asem_drop st a = Ret (a', out)" and abs': "sem_abs A s' a'"
    by (rule acquire_drop_abs [OF abs cancel(3)])
  from asem_drop_inv [OF inv r] asem_drop_owners [OF own cancel(2) r] abs' rel cancel
  show ?thesis unfolding sys_inv_def sys_rel_def by (intro exI [of _ a']) simp
next
  case (try_ok n p s')
  from assms(2) obtain a where rel: "sys_rel A y a" by (auto simp: sys_inv_def)
  then have abs: "sem_abs A (y_sem y) a" and inv: "asem_inv a" by (simp_all add: sys_rel_def)
  obtain a' where t: "asem_try_acquire n a = (True, a')" and abs': "sem_abs A s' a'" and p: "p = n"
    by (rule try_acquire_abs [OF abs try_ok(3)]) (auto split: if_splits)
  then have "n \<le> a_permits a" "a' = a\<lparr>a_permits := a_permits a - n\<rparr>"
    by (auto simp: asem_try_acquire_def split: if_splits)
  with rel abs' asem_try_acquire_inv [OF inv t] try_ok p
  show ?thesis unfolding sys_inv_def sys_rel_def
    by (intro exI [of _ a']) (simp add: unat_usize_sub word_le_nat_alt)
next
  case (try_fail n s')
  from assms(2) obtain a where rel: "sys_rel A y a" by (auto simp: sys_inv_def)
  then have abs: "sem_abs A (y_sem y) a" by (simp add: sys_rel_def)
  obtain a' where t: "asem_try_acquire n a = (False, a')" and abs': "sem_abs A s' a'"
    by (rule try_acquire_abs [OF abs try_fail(3)]) (auto split: if_splits)
  from asem_try_acquire_fail(1) [OF t] abs' rel try_fail
  show ?thesis unfolding sys_inv_def sys_rel_def by (intro exI [of _ a]) simp
next
  case (release p s')
  from assms(2) obtain a where rel: "sys_rel A y a" by (auto simp: sys_inv_def)
  note held = held_sum_member [OF release(2)]
  have fits: "unat (a_permits a) + unat p < 2 ^ 64" using rel held by (simp add: sys_rel_def)
  obtain a' where "sem_abs A s' a'" "asem_inv a'" "owners (y_futs y) (requests (a_queue a'))"
    "unat (a_permits a') = unat (a_permits a) + unat p"
    by (rule add_permits_step [OF rel release(3) [unfolded permit_drop_def] fits])
  with rel held release show ?thesis unfolding sys_inv_def sys_rel_def by (intro exI [of _ a']) simp
next
  case (forget p s')
  from assms(2) obtain a where rel: "sys_rel A y a" by (auto simp: sys_inv_def)
  have "s' = y_sem y"
    using forget(3) by (simp add: permit_forget_def permit_drop_def semaphore_add_permits_def)
  moreover have "unat (a_permits a) + held_sum (y_held y - {#p#}) = y_total y - unat p"
    and "y_total y - unat p < 2 ^ 64"
    using rel held_sum_member [OF forget(2)] unfolding sys_rel_def by linarith+
  ultimately show ?thesis using rel forget
    unfolding sys_inv_def sys_rel_def by (intro exI [of _ a]) simp
next
  case (grow n s')
  from assms(2) obtain a where rel: "sys_rel A y a" by (auto simp: sys_inv_def)
  have fits: "unat (a_permits a) + unat n < 2 ^ 64" using rel grow(2) by (simp add: sys_rel_def)
  obtain a' where "sem_abs A s' a'" "asem_inv a'" "owners (y_futs y) (requests (a_queue a'))"
    "unat (a_permits a') = unat (a_permits a) + unat n"
    by (rule add_permits_step [OF rel grow(3) fits])
  with rel grow show ?thesis unfolding sys_inv_def sys_rel_def by (intro exI [of _ a']) simp
qed

lemma sem_reach_inv: "sem_reach oc A n y \<Longrightarrow> sys_inv A y"
  by (induction rule: sem_reach.induct) (auto intro: sys_inv_new sem_step_inv)

section \<open>The operations return\<close>

lemma asem_poll_returns:
  assumes inv: "asem_inv a" and own: "owners futs (requests (a_queue a))" and fut: "futs f = Some (st, n)"
  shows "returns (asem_poll k n st cx a)"
proof (cases st)
  case Idle
  then show ?thesis by (simp split: prod.split)
next
  case (Waiting i)
  have "(i, n) \<in> requests (a_queue a)" using ownersD(2) [OF own] fut Waiting by simp
  then have "i \<in> e_key ` set (a_queue a)" by (auto simp: requests_def)
  then obtain e where e: "entry_of i a = Some e" using entry_of_None [of i a] by auto
  with Waiting asem_assert_holds [OF inv e] show ?thesis by (simp split: prod.split)
next
  case Done
  with ownersD(4) [OF own] fut show ?thesis by blast
qed

lemma asem_drop_returns:
  assumes own: "owners futs (requests (a_queue a))" and fut: "futs f = Some (st, n)"
  shows "returns (asem_drop st a)"
proof (cases st)
  case (Waiting i)
  have "(i, n) \<in> requests (a_queue a)" using ownersD(2) [OF own] fut Waiting by simp
  then have "i \<in> e_key ` set (a_queue a)" by (auto simp: requests_def)
  then obtain e where "entry_of i a = Some e" using entry_of_None [of i a] by auto
  with Waiting show ?thesis by (simp add: asem_drop_def)
qed (simp_all add: asem_drop_def)

lemma returns_bindM: "returns c \<Longrightarrow> (\<And>x. c = Ret x \<Longrightarrow> returns (f x)) \<Longrightarrow> returns (bindM c f)"
  by (auto simp: returns_conv bindM_Ret_conv)

lemma acquire_poll_safe:
  assumes "sys_rel A y a" and "y_futs y f = Some (st, n)"
  shows "returns (acquire_poll A n st cx (y_sem y))"
proof -
  have "returns (inner_poll_acquire A n st cx (y_sem y))"
    using rel_m_returns [OF poll_acquire_refines [of "y_sem y" a n st cx]] asem_poll_returns [of a "y_futs y" f st n] assms
    by (simp add: sys_rel_def)
  then show ?thesis unfolding acquire_poll_def by (rule returns_bindM) (simp split: prod.split)
qed

lemma acquire_drop_safe:
  assumes "sys_rel A y a" and "y_futs y f = Some (st, n)"
  shows "returns (acquire_drop A st (y_sem y))"
  using rel_m_returns [OF drop_refines [of "y_sem y" a st]] asem_drop_returns [of "y_futs y" a f st n] assms
  by (simp add: sys_rel_def)

lemma permit_drop_safe:
  assumes rel: "sys_rel A y a" and "p \<in># y_held y"
  shows "returns (permit_drop oc A p (y_sem y))"
proof -
  have "unat (a_permits a) + unat p < 2 ^ 64"
    using rel held_sum_member [OF assms(2)] by (simp add: sys_rel_def)
  from usize_add_fits(1) [OF this, of oc] have "returns (asem_add_permits oc p a)"
    by (simp add: asem_add_permits_def)
  then show ?thesis
    using rel_m_returns [OF add_permits_refines [of "y_sem y" a oc p]] rel
    by (simp add: sys_rel_def permit_drop_def)
qed

section \<open>What the invariant says of the code's state\<close>

lemma sys_tail_waiter:
  assumes rel: "sys_rel A y a" and tail: "i_tail (y_sem y) = Some k"
  obtains e q nx pv where "a_queue a = e # q" and "e_key e = k"
    and "slab_get A (i_waiters (y_sem y)) k = Some (entry_waiter nx pv e)"
    and "e_woke e \<or> i_permits (y_sem y) < e_required e"
proof -
  have sr: "sem_rel A (y_sem y) (a_queue a)" and p: "i_permits (y_sem y) = a_permits a"
    using rel by (simp_all add: sys_rel_def sem_abs_def)
  then obtain e q where q: "a_queue a = e # q" and k: "e_key e = k"
    using tail by (cases "a_queue a") (auto simp: sem_rel_def)
  obtain nx pv where "slab_get A (i_waiters (y_sem y)) (e_key e) = Some (entry_waiter nx pv e)"
    using sem_rel_lookup [OF sr, of e] q by auto
  moreover have "e_woke e \<or> i_permits (y_sem y) < e_required e"
    using rel q p by (simp add: sys_rel_def asem_inv_def)
  ultimately show ?thesis using q k by (intro that) auto
qed

lemma sys_woken_older:
  assumes rel: "sys_rel A y a" and get: "slab_get A (i_waiters (y_sem y)) k = Some w"
    and "w_woke w" and nx: "w_next w = Some j"
  shows "\<exists>v. slab_get A (i_waiters (y_sem y)) j = Some v \<and> w_woke v"
proof -
  let ?g = "slab_get A (i_waiters (y_sem y))"
  have sr: "sem_rel A (y_sem y) (a_queue a)" using rel by (simp add: sys_rel_def sem_abs_def)
  then have "k \<in> e_key ` set (a_queue a)" using get sem_rel_get_None [OF sr, of k] by auto
  then obtain e where "e \<in> set (a_queue a)" and k: "e_key e = k" by blast
  then obtain xs ys where q: "a_queue a = xs @ e # ys" by (meson split_list)
  have sg: "seg ?g None (xs @ e # ys) None" using sr q by (simp add: sem_rel_def)
  then have w: "w = entry_waiter (if xs = [] then None else last_key xs) (if ys = [] then None else first_key ys) e"
    using get k by (simp add: seg_append)
  with nx have ne: "xs \<noteq> []" and j: "j = e_key (last xs)" by (auto simp: last_opt_def split: if_splits)
  have "last xs \<in> set (a_queue a)" using ne q by simp
  then obtain nx' pv' where g: "?g (e_key (last xs)) = Some (entry_waiter nx' pv' (last xs))"
    using sem_rel_lookup [OF sr] by blast
  have "woken_first (xs @ e # ys)" using rel q by (simp add: sys_rel_def asem_inv_def)
  then have "e_woke (last xs)" using ne \<open>w_woke w\<close> w by (simp add: woken_first_append)
  with g j show ?thesis by simp
qed

lemma sys_promised_covered:
  assumes "sys_rel A y a" and "slab_get A (i_waiters (y_sem y)) k = Some w" and "w_woke w"
  shows "w_required w \<le> i_permits (y_sem y)"
proof -
  have sr: "sem_rel A (y_sem y) (a_queue a)" using assms(1) by (simp add: sys_rel_def sem_abs_def)
  then have "k \<in> e_key ` set (a_queue a)" using assms(2) sem_rel_get_None [OF sr, of k] by auto
  then obtain e where e: "e \<in> set (a_queue a)" "e_key e = k" by blast
  from sem_rel_lookup [OF sr e(1)] obtain nx pv where "w = entry_waiter nx pv e"
    using assms(2) e(2) by (metis option.inject)
  moreover from this have "unat (e_required e) \<le> promised (a_queue a)"
    using e assms(3) by (intro promised_ge) simp_all
  ultimately show ?thesis
    using assms(1) by (simp add: sys_rel_def asem_inv_def sem_abs_def word_le_nat_alt)
qed

text \<open>A woken waiter's next poll is ready with the permits it asked for.\<close>

lemma sys_woken_ready:
  assumes rel: "sys_rel A y a" and fut: "y_futs y f = Some (Waiting k, n)"
    and get: "slab_get A (i_waiters (y_sem y)) k = Some w" and "w_woke w"
  shows "\<exists>s' out. acquire_poll A n (Waiting k) cx (y_sem y) = Ret (Ready n, Done, s', out)"
proof -
  obtain r where r: "acquire_poll A n (Waiting k) cx (y_sem y) = Ret r"
    using acquire_poll_safe [OF rel fut, of cx] by (auto simp: returns_conv)
  with get \<open>w_woke w\<close> show ?thesis
    by (auto simp: acquire_poll_def bindM_Ret_conv split: if_splits)
qed

end

end
