(* ===== verification/Semaphore_Properties.thy ===== *)
theory Semaphore_Properties
  imports Semaphore_System
begin

text \<open>
  The properties of \<open>src/sync/semaphore.rs\<close>, for any slab that keeps its documented
  contract (\<open>waiter_slab\<close>), any number of clients and any interleaving of their operations.
  The witnesses run three clients on the executable slab.
\<close>

section \<open>A concrete run\<close>

text \<open>
  Two permits: future 0 takes both, futures 1 and 2 wait for one permit each (with wakers 7
  and 8), then the holder releases both permits and both waiters are woken.
\<close>

definition ex_waiting :: "(nat waiter) assoc_slab sem_sys" where
  "ex_waiting = \<lparr>y_sem = \<lparr>i_permits = 0,
       i_waiters = [(1, \<lparr>w_waker = Some 8, w_next = Some 0, w_prev = None, w_required = 1, w_woke = False\<rparr>),
                    (0, \<lparr>w_waker = Some 7, w_next = None, w_prev = Some 1, w_required = 1, w_woke = False\<rparr>)],
       i_head = Some 1, i_tail = Some 0\<rparr>,
     y_futs = [1 \<mapsto> (Waiting 0, 1), 2 \<mapsto> (Waiting 1, 1)], y_held = {#2#}, y_total = 2\<rparr>"

definition ex_released :: "(nat waiter) assoc_slab sem_sys" where
  "ex_released = \<lparr>y_sem = \<lparr>i_permits = 2,
       i_waiters = [(1, \<lparr>w_waker = Some 8, w_next = Some 0, w_prev = None, w_required = 1, w_woke = True\<rparr>),
                    (0, \<lparr>w_waker = Some 7, w_next = None, w_prev = Some 1, w_required = 1, w_woke = True\<rparr>)],
       i_head = Some 1, i_tail = Some 0\<rparr>,
     y_futs = [1 \<mapsto> (Waiting 0, 1), 2 \<mapsto> (Waiting 1, 1)], y_held = {#}, y_total = 2\<rparr>"

lemma assoc_vacant_key_eval [simp]:
  "assoc_vacant_key [] = 0" "assoc_vacant_key [(0, v)] = 1"
  by (simp_all add: assoc_vacant_key_def upt_conv_Cons)

lemmas sem_eval = acquire_poll_def inner_try_acquire_def inner_add_def inner_remove_def
  inner_wake_def update_waiter_def semaphore_new_def wake_loop.simps sem_sys_new_def
  permit_drop_def semaphore_add_permits_def usize_add_def Let_def

lemma assoc_waiter_slab: "waiter_slab assoc_slab"
  by (rule waiters.waiter_slab_axioms)

lemma ex_waiting_reach: "sem_reach True assoc_slab 2 ex_waiting"
proof -
  let ?R = "sem_reach True (assoc_slab :: (nat waiter assoc_slab, nat waiter) slab_api) 2"
  let ?y0 = "sem_sys_new (assoc_slab :: (nat waiter assoc_slab, nat waiter) slab_api) 2"
  let ?y1 = "?y0\<lparr>y_futs := [0 \<mapsto> (Idle, 2)]\<rparr>"
  let ?y2 = "?y1\<lparr>y_sem := (y_sem ?y1)\<lparr>i_permits := 0\<rparr>, y_futs := Map.empty, y_held := {#2#}\<rparr>"
  let ?y3 = "?y2\<lparr>y_futs := [1 \<mapsto> (Idle, 1)]\<rparr>"
  let ?w0 = "\<lparr>w_waker = Some 7, w_next = None, w_prev = None, w_required = 1, w_woke = False\<rparr>"
  let ?y4 = "?y3\<lparr>y_sem := (y_sem ?y3)\<lparr>i_waiters := [(0, ?w0)], i_head := Some 0, i_tail := Some 0\<rparr>,
                 y_futs := [1 \<mapsto> (Waiting 0, 1)]\<rparr>"
  let ?y5 = "?y4\<lparr>y_futs := [1 \<mapsto> (Waiting 0, 1), 2 \<mapsto> (Idle, 1)]\<rparr>"
  have "?R ?y0" by (rule sem_reach.init)
  moreover have "sem_step True assoc_slab ?y0 [] ?y1"
    using sem_step.start [of ?y0 0 True assoc_slab 2] by (simp add: sem_sys_new_def)
  ultimately have "?R ?y1" by (rule sem_reach.step)
  moreover have "sem_step True assoc_slab ?y1 [] ?y2"
    using sem_step.poll_ready [of ?y1 0 Idle 2 assoc_slab 7 2 Idle "(y_sem ?y1)\<lparr>i_permits := 0\<rparr>" "[]" True]
    by (simp add: sem_eval)
  ultimately have "?R ?y2" by (rule sem_reach.step)
  moreover have "sem_step True assoc_slab ?y2 [] ?y3"
    using sem_step.start [of ?y2 1 True assoc_slab 1] by simp
  ultimately have "?R ?y3" by (rule sem_reach.step)
  moreover have "sem_step True assoc_slab ?y3 [] ?y4"
    using sem_step.poll_pending [of ?y3 1 Idle 1 assoc_slab 7 "Waiting 0" "y_sem ?y4" "[]" True]
    by (simp add: sem_eval)
  ultimately have "?R ?y4" by (rule sem_reach.step)
  moreover have "sem_step True assoc_slab ?y4 [] ?y5"
    using sem_step.start [of ?y4 2 True assoc_slab 1] by simp
  ultimately have "?R ?y5" by (rule sem_reach.step)
  moreover have "sem_step True assoc_slab ?y5 [] ex_waiting"
    using sem_step.poll_pending [of ?y5 2 Idle 1 assoc_slab 8 "Waiting 1" "y_sem ex_waiting" "[]" True]
    by (simp add: sem_eval ex_waiting_def)
  ultimately show ?thesis by (rule sem_reach.step)
qed

lemma ex_released_reach: "sem_reach True assoc_slab 2 ex_released"
proof -
  have "sem_step True assoc_slab ex_waiting [7, 8] ex_released"
    using sem_step.release [of 2 ex_waiting True assoc_slab "y_sem ex_released" "[7, 8]"]
    by (simp add: sem_eval ex_waiting_def ex_released_def)
  with ex_waiting_reach show ?thesis by (rule sem_reach.step)
qed

section \<open>Properties\<close>



text \<open>
  C16. Permits are conserved: in every reachable state the permits of the semaphore plus
  those held by live \<open>Permit\<close>s are exactly the permits in circulation (initial, plus added,
  minus forgotten), and they never exceed \<open>usize::MAX\<close>.
\<close>

theorem sem_permits_conserved:
  assumes "waiter_slab A" and "sem_reach oc A n0 y"
  shows "unat (semaphore_permits (y_sem y)) + held_sum (y_held y) = y_total y \<and> y_total y < 2 ^ 64"
proof -
  obtain a where "sys_rel A y a"
    using waiter_slab.sem_reach_inv [OF assms] by (auto simp: sys_inv_def)
  then show ?thesis by (simp add: sys_rel_def sem_abs_def semaphore_permits_def)
qed

theorem sem_permits_conserved_witness:
  "unat (semaphore_permits (y_sem ex_released)) + held_sum (y_held ex_released) = 2"
  using sem_permits_conserved [OF assoc_waiter_slab ex_released_reach] by (simp add: ex_released_def)

text \<open>
  C9. No wake-up is lost: whenever futures are waiting, the oldest waiter has been woken or
  its request exceeds the permits available, so permits never sit idle in front of a waiter
  that nobody will wake.
\<close>

theorem sem_no_lost_wakeup:
  assumes "waiter_slab A" and "sem_reach oc A n0 y" and "i_tail (y_sem y) = Some k"
  shows "\<exists>w. slab_get A (i_waiters (y_sem y)) k = Some w \<and>
             (w_woke w \<or> i_permits (y_sem y) < w_required w)"
proof -
  obtain a where rel: "sys_rel A y a"
    using waiter_slab.sem_reach_inv [OF assms(1,2)] by (auto simp: sys_inv_def)
  show ?thesis
    by (rule waiter_slab.sys_tail_waiter [OF assms(1) rel assms(3)]) auto
qed

theorem sem_no_lost_wakeup_witness:
  "\<exists>w. slab_get assoc_slab (i_waiters (y_sem ex_waiting)) 0 = Some w \<and>
       (w_woke w \<or> i_permits (y_sem ex_waiting) < w_required w)"
  by (rule sem_no_lost_wakeup [OF assoc_waiter_slab ex_waiting_reach]) (simp add: ex_waiting_def)

text \<open>
  C26. First come, first served: a waiter is woken only after every waiter that arrived
  before it (\<open>next\<close> leads towards the oldest), and the permits cover each woken waiter.
\<close>

theorem sem_fifo:
  assumes "waiter_slab A" and "sem_reach oc A n0 y"
    and "slab_get A (i_waiters (y_sem y)) k = Some w" and "w_woke w"
  shows "w_required w \<le> i_permits (y_sem y) \<and>
    (\<forall>j. w_next w = Some j \<longrightarrow> (\<exists>v. slab_get A (i_waiters (y_sem y)) j = Some v \<and> w_woke v))"
proof -
  obtain a where rel: "sys_rel A y a"
    using waiter_slab.sem_reach_inv [OF assms(1,2)] by (auto simp: sys_inv_def)
  show ?thesis
    using waiter_slab.sys_promised_covered [OF assms(1) rel assms(3,4)]
      waiter_slab.sys_woken_older [OF assms(1) rel assms(3,4)] by blast
qed

theorem sem_fifo_witness:
  "\<exists>v. slab_get assoc_slab (i_waiters (y_sem ex_released)) 0 = Some v \<and> w_woke v"
  using sem_fifo [OF assoc_waiter_slab ex_released_reach, of 1
      "\<lparr>w_waker = Some 8, w_next = Some 0, w_prev = None, w_required = 1, w_woke = True\<rparr>"]
  by (simp add: ex_released_def)

text \<open>
  Progress: when the permits cover the request of the oldest waiter, its future's next
  poll, with whatever waker, completes with exactly the permits it asked for.
\<close>

theorem sem_oldest_progress:
  assumes "waiter_slab A" and "sem_reach oc A n0 y" and "i_tail (y_sem y) = Some k"
    and "y_futs y f = Some (Waiting k, n)" and "n \<le> i_permits (y_sem y)"
  shows "\<exists>s' out. acquire_poll A n (Waiting k) cx (y_sem y) = Ret (Ready n, Done, s', out)"
proof -
  obtain a where rel: "sys_rel A y a"
    using waiter_slab.sem_reach_inv [OF assms(1,2)] by (auto simp: sys_inv_def)
  obtain e q nx pv where q: "a_queue a = e # q" "e_key e = k"
    and get: "slab_get A (i_waiters (y_sem y)) k = Some (entry_waiter nx pv e)"
    and w: "e_woke e \<or> i_permits (y_sem y) < e_required e"
    by (rule waiter_slab.sys_tail_waiter [OF assms(1) rel assms(3)])
  have "(k, n) \<in> requests (a_queue a)"
    using ownersD(2) [of "y_futs y"] rel assms(4) by (auto simp: sys_rel_def)
  moreover have "k \<notin> e_key ` set q"
    using rel q by (auto simp: sys_rel_def asem_inv_def)
  ultimately have "e_required e = n" using q by (auto simp: requests_def)
  with w assms(5) have "w_woke (entry_waiter nx pv e)" by auto
  from waiter_slab.sys_woken_ready [OF assms(1) rel assms(4) get this] show ?thesis .
qed

theorem sem_oldest_progress_witness:
  "\<exists>s' out. acquire_poll assoc_slab 1 (Waiting 0) 9 (y_sem ex_released) = Ret (Ready 1, Done, s', out)"
  by (rule sem_oldest_progress [OF assoc_waiter_slab ex_released_reach, of 0 1])
    (simp_all add: ex_released_def)

text \<open>
  C27. No barging: while futures are waiting, a new request for one or more permits never
  overtakes them. \<open>try_acquire\<close> fails and leaves the semaphore as it was, and the first poll
  of \<open>acquire\<close> joins the queue as its newest waiter.
\<close>

theorem sem_no_barging:
  assumes "waiter_slab A" and "sem_reach oc A n0 y" and "i_tail (y_sem y) \<noteq> None" and "n \<noteq> 0"
  shows "semaphore_try_acquire A n (y_sem y) = (None, y_sem y) \<and>
    (\<exists>s'. acquire_poll A n Idle cx (y_sem y) =
             Ret (Pending, Waiting (slab_vacant_key A (i_waiters (y_sem y))), s', []) \<and>
          i_head s' = Some (slab_vacant_key A (i_waiters (y_sem y))) \<and>
          i_permits s' = i_permits (y_sem y))"
proof -
  obtain a where rel: "sys_rel A y a"
    using waiter_slab.sem_reach_inv [OF assms(1,2)] by (auto simp: sys_inv_def)
  then have abs: "sem_abs A (y_sem y) a" by (simp add: sys_rel_def)
  have ne: "\<not> slab_is_empty A (i_waiters (y_sem y))"
    using waiter_slab.sem_rel_empty [OF assms(1), of "y_sem y" "a_queue a"] abs assms(3)
    by (auto simp: sem_abs_def sem_rel_def)
  then have t: "inner_try_acquire A n (y_sem y) = (False, y_sem y)"
    using assms(4) by (simp add: inner_try_acquire_def)
  let ?k = "slab_vacant_key A (i_waiters (y_sem y))"
  obtain s' where add: "inner_add A cx n (y_sem y) = Ret (?k, s')"
    and abs': "sem_abs A s' (asem_enqueue ?k cx n a)"
    by (rule waiter_slab.add_refines [OF assms(1) abs])
  have "i_head s' = Some ?k" "i_permits s' = i_permits (y_sem y)"
    using abs' abs by (simp_all add: sem_abs_def sem_rel_def asem_enqueue_def)
  with t add show ?thesis by (simp add: semaphore_try_acquire_def acquire_poll_def)
qed

theorem sem_no_barging_witness:
  "semaphore_try_acquire assoc_slab 1 (y_sem ex_released) = (None, y_sem ex_released)"
  using sem_no_barging [OF assoc_waiter_slab ex_released_reach, of 1] by (simp add: ex_released_def)

text \<open>
  C10. The linked list implements a queue: on a semaphore whose list represents the queue
  \<open>a\<close>, \<open>poll_acquire\<close> has the outcome of the abstract semaphore (same poll result, same
  \<open>AcquireState\<close>, same wakers in the same order, or the same panic), and leaves a list that
  represents the resulting queue.
\<close>

theorem poll_acquire_implements_queue:
  assumes "waiter_slab A" and "sem_abs A s a"
  shows "rel_m (poll_rel A) (inner_poll_acquire A n st cx s)
           (asem_poll (slab_vacant_key A (i_waiters s)) n st cx a)"
  by (rule waiter_slab.poll_acquire_refines [OF assms])

theorem poll_acquire_implements_queue_witness:
  "rel_m (poll_rel assoc_slab) (inner_poll_acquire assoc_slab 3 Idle 9 (semaphore_new assoc_slab 2))
     (asem_poll 0 3 Idle 9 \<lparr>a_permits = 2, a_queue = [] :: nat entry list\<rparr>)"
  using poll_acquire_implements_queue [OF assoc_waiter_slab
      waiter_slab.sem_abs_new [OF assoc_waiter_slab, of 2], of 3 Idle 9]
  by (simp add: semaphore_new_def)

text \<open>
  Who is woken: releasing permits to a semaphore whose list represents \<open>a\<close> (with the
  invariant) calls exactly the wakers of the waiters it newly marks as woken, oldest first,
  and each of those waiters is covered by the permits left after the older ones.
\<close>

theorem release_wakes_exactly:
  assumes "waiter_slab A" and "sem_abs A s a" and "asem_inv a" and "n \<noteq> 0"
    and "unat (i_permits s) + unat n < 2 ^ 64"
  shows "\<exists>s' out q'. semaphore_add_permits oc A n s = Ret (s', out) \<and>
     sem_rel A s' q' \<and> q' = wake_queue (i_permits s + n) (a_queue a) \<and>
     promised q' \<le> unat (i_permits s) + unat n \<and>
     out = concat (map (\<lambda>(e, f). if \<not> e_woke e \<and> e_woke f
             then case e_waker e of None \<Rightarrow> [] | Some w \<Rightarrow> [w] else []) (zip (a_queue a) q'))"
proof -
  have p: "i_permits s = a_permits a" using assms(2) by (simp add: sem_abs_def)
  note fits = usize_add_fits [OF assms(5)]
  have inv: "woken_first (a_queue a)" "promised (a_queue a) \<le> unat (i_permits s + n)"
    using assms(3) fits(2) p by (simp_all add: asem_inv_def)
  obtain s' where run: "inner_wake A (s\<lparr>i_permits := i_permits s + n\<rparr>) =
        Ret (s', snd (asem_wake (a\<lparr>a_permits := i_permits s + n\<rparr>)))"
    and abs: "sem_abs A s' (fst (asem_wake (a\<lparr>a_permits := i_permits s + n\<rparr>)))"
    by (rule waiter_slab.wake_refines [OF assms(1) waiter_slab.sem_abs_permits [OF assms(1,2)]])
  have "semaphore_add_permits oc A n s = Ret (s', wake_wakers (i_permits s + n) (a_queue a))"
    using run fits(1) [of oc] assms(4) by (simp add: semaphore_add_permits_def asem_wake_def)
  with abs show ?thesis
    using wake_wakers_eq [OF inv] wake_queue_promised [OF inv] fits(2)
    by (simp add: sem_abs_def asem_wake_def)
qed

lemma ex_one_waiter:
  "sem_abs assoc_slab \<lparr>i_permits = 0, i_waiters = [(0, \<lparr>w_waker = Some 7, w_next = None, w_prev = None,
       w_required = 1, w_woke = False\<rparr>)], i_head = Some 0, i_tail = Some 0\<rparr>
     \<lparr>a_permits = 0, a_queue = [\<lparr>e_key = 0, e_waker = Some (7::nat), e_required = 1, e_woke = False\<rparr>]\<rparr>"
  by (simp add: sem_abs_def sem_rel_def entry_waiter_def assoc_slab_def)

theorem release_wakes_exactly_witness:
  "\<exists>s'. semaphore_add_permits True assoc_slab 1 \<lparr>i_permits = 0, i_waiters = [(0, \<lparr>w_waker = Some 7,
       w_next = None, w_prev = None, w_required = 1, w_woke = False\<rparr>)], i_head = Some 0, i_tail = Some 0\<rparr>
     = Ret (s', [7::nat])"
proof -
  have "asem_inv \<lparr>a_permits = 0, a_queue = [\<lparr>e_key = 0, e_waker = Some (7::nat), e_required = 1, e_woke = False\<rparr>]\<rparr>"
    by (simp add: asem_inv_def)
  from release_wakes_exactly [OF assoc_waiter_slab ex_one_waiter this, of 1 True]
  show ?thesis by auto
qed

section \<open>The linked list\<close>

lemma seg_links:
  assumes "seg g nx q pv" and "j < length (map e_key q)"
  shows "\<exists>w. g (map e_key q ! j) = Some w \<and> w_next w = (if j = 0 then nx else Some (map e_key q ! (j - 1))) \<and>
      w_prev w = (if Suc j < length (map e_key q) then Some (map e_key q ! Suc j) else pv)"
  using assms
proof (induction q arbitrary: nx j)
  case (Cons e es)
  show ?case
  proof (cases j)
    case 0
    with Cons.prems show ?thesis by (cases es) auto
  next
    case (Suc i)
    with Cons.prems Cons.IH [of "Some (e_key e)" i] show ?thesis by (cases i) auto
  qed
qed simp

text \<open>
  C28. The linked list is well formed: in every reachable state the occupied slots of the slab,
  from \<open>tail\<close> to \<open>head\<close>, form one list without repetitions whose \<open>next\<close> and \<open>prev\<close> links point
  to the neighbours, so no link dangles and none leads in a circle. Each slot belongs to exactly
  one waiting future, and each waiting future has its slot.
\<close>

theorem sem_list_wellformed:
  assumes "waiter_slab A" and "sem_reach oc A n0 y"
  shows "(\<exists>ks. distinct ks \<and> set ks = dom (slab_get A (i_waiters (y_sem y))) \<and>
      i_tail (y_sem y) = (if ks = [] then None else Some (hd ks)) \<and>
      i_head (y_sem y) = (if ks = [] then None else Some (last ks)) \<and>
      (\<forall>j < length ks. \<exists>w. slab_get A (i_waiters (y_sem y)) (ks ! j) = Some w \<and>
         w_next w = (if j = 0 then None else Some (ks ! (j - 1))) \<and>
         w_prev w = (if Suc j < length ks then Some (ks ! Suc j) else None))) \<and>
    (\<forall>k. slab_get A (i_waiters (y_sem y)) k \<noteq> None \<longleftrightarrow> (\<exists>!f. \<exists>n. y_futs y f = Some (Waiting k, n)))"
proof -
  obtain a where r: "sys_rel A y a"
    using waiter_slab.sem_reach_inv [OF assms] by (auto simp: sys_inv_def)
  let ?q = "a_queue a" and ?g = "slab_get A (i_waiters (y_sem y))"
  have s: "sem_rel A (y_sem y) ?q" and own: "owners (y_futs y) (requests ?q)"
    using r by (simp_all add: sys_rel_def sem_abs_def)
  let ?ks = "map e_key ?q"
  have "distinct ?ks" "set ?ks = dom ?g" "seg ?g None ?q None"
    "i_tail (y_sem y) = (if ?ks = [] then None else Some (hd ?ks))"
    "i_head (y_sem y) = (if ?ks = [] then None else Some (last ?ks))"
    using s by (auto simp: sem_rel_def hd_opt_def last_opt_def last_map split: list.split)
  moreover from this(3) have "\<forall>j < length ?ks. \<exists>w. ?g (?ks ! j) = Some w \<and>
         w_next w = (if j = 0 then None else Some (?ks ! (j - 1))) \<and>
         w_prev w = (if Suc j < length ?ks then Some (?ks ! Suc j) else None)"
    by (intro allI impI) (rule seg_links)
  ultimately have 1: "\<exists>ks. distinct ks \<and> set ks = dom ?g \<and>
      i_tail (y_sem y) = (if ks = [] then None else Some (hd ks)) \<and>
      i_head (y_sem y) = (if ks = [] then None else Some (last ks)) \<and>
      (\<forall>j < length ks. \<exists>w. ?g (ks ! j) = Some w \<and>
         w_next w = (if j = 0 then None else Some (ks ! (j - 1))) \<and>
         w_prev w = (if Suc j < length ks then Some (ks ! Suc j) else None))"
    by (intro exI [of _ ?ks] conjI)
  have "?g k \<noteq> None \<longleftrightarrow> (\<exists>!f. \<exists>n. y_futs y f = Some (Waiting k, n))" for k
  proof -
    have "dom ?g = e_key ` set ?q" using s by (simp add: sem_rel_def)
    then have "?g k \<noteq> None \<longleftrightarrow> (\<exists>n. (k, n) \<in> requests ?q)"
      by (simp only: domIff [symmetric]) (auto simp: requests_def)
    also have "\<dots> \<longleftrightarrow> (\<exists>f n. y_futs y f = Some (Waiting k, n))"
      using ownersD(1,2) [OF own] by blast
    also have "\<dots> \<longleftrightarrow> (\<exists>!f. \<exists>n. y_futs y f = Some (Waiting k, n))"
      using ownersD(3) [OF own] by (intro iffI) (elim exE, rule ex1I, blast, blast, blast)
    finally show ?thesis .
  qed
  then show ?thesis by (intro conjI allI 1)
qed

theorem sem_list_wellformed_witness:
  "\<exists>!f. \<exists>n. y_futs ex_waiting f = Some (Waiting 1, n)"
proof -
  have "slab_get assoc_slab (i_waiters (y_sem ex_waiting)) 1 \<noteq> None" by (simp add: ex_waiting_def)
  with conjunct2 [OF sem_list_wellformed [OF assoc_waiter_slab ex_waiting_reach]] show ?thesis by blast
qed

end
