(* ===== verification/Mutex.thy ===== *)
theory Mutex
  imports Semaphore_System
begin

text \<open>
  \<open>src/sync/mutex.rs\<close>: a \<open>RefCell\<close> guarded by a semaphore of one permit. The guard is
  its permit; that it also holds the cell's mutable borrow is the cell's flag. The clients of
  one mutex are the step relation \<open>mutex_step\<close>, whose steps are steps of the semaphore's
  clients; what a lock needs of the semaphore is the locale \<open>permit_gate\<close>.
\<close>

section \<open>The interface of the semaphore to locks\<close>

locale permit_gate =
  fixes ok :: "'y \<Rightarrow> bool"
    and held :: "'y \<Rightarrow> usize multiset"
    and in_circulation :: "'y \<Rightarrow> nat"
  assumes covered: "ok y \<Longrightarrow> held_sum (held y) \<le> in_circulation y"
begin

lemma held_le: "ok y \<Longrightarrow> p \<in># held y \<Longrightarrow> unat p \<le> in_circulation y"
  using covered [of y] held_sum_member [of p "held y"] by linarith

text \<open>A permit worth everything in circulation excludes every other permit.\<close>

lemma exclusive:
  assumes "ok y" and p: "p \<in># held y" and "unat p = in_circulation y"
    and pos: "\<And>q. q \<in># held y \<Longrightarrow> 0 < q"
  shows "held y = {#p#}"
proof -
  have "held_sum (held y - {#p#}) = 0"
    using covered [OF assms(1)] held_sum_member [OF p] assms(3) by linarith
  moreover have "unat q \<noteq> 0" if "q \<in># held y - {#p#}" for q
    using pos [of q] that by (auto dest: in_diffD simp: unat_eq_0 word_gt_0)
  ultimately have "held y - {#p#} = {#}"
    by (auto simp: sum_mset_0_iff multiset_eq_iff elim: multiset_nonemptyE)
  with p show ?thesis by (metis insert_DiffM)
qed

end

interpretation gate: permit_gate "sys_inv A" y_held y_total for A
  by unfold_locales (auto simp: sys_inv_def sys_rel_def)

section \<open>The code\<close>

record ('s, 't) mutex =
  mx_semaphore :: "'s inner"
  mx_borrow :: borrow_flag
  mx_value :: 't

definition mutex_new :: "('s, 'w waiter) slab_api \<Rightarrow> 't \<Rightarrow> ('s, 't) mutex" where
  "mutex_new A v = \<lparr>mx_semaphore = semaphore_new A 1, mx_borrow = 0, mx_value = v\<rparr>"

text \<open>
  One poll of \<open>lock()\<close>, an \<open>async fn\<close> that awaits \<open>acquire(1)\<close> and, in the poll in which
  it is ready, borrows the cell.
\<close>

definition mutex_lock_poll ::
    "('s, 'w waiter) slab_api \<Rightarrow> acquire_state \<Rightarrow> 'w \<Rightarrow> ('s, 't) mutex \<Rightarrow>
     (usize poll \<times> acquire_state \<times> ('s, 't) mutex \<times> 'w list) m" where
  "mutex_lock_poll A st cx m =
     bindM (acquire_poll A 1 st cx (mx_semaphore m)) (\<lambda>(r, st, s, out).
       case r of
         Pending \<Rightarrow> Ret (Pending, st, m\<lparr>mx_semaphore := s\<rparr>, out)
       | Ready permit \<Rightarrow>
           bindM (cell_borrow_mut (mx_borrow m))
             (\<lambda>b. Ret (Ready permit, st, m\<lparr>mx_semaphore := s, mx_borrow := b\<rparr>, out)))"

definition mutex_try_lock ::
    "('s, 'w waiter) slab_api \<Rightarrow> ('s, 't) mutex \<Rightarrow> (usize option \<times> ('s, 't) mutex) m" where
  "mutex_try_lock A m =
     (let (p, s) = semaphore_try_acquire A 1 (mx_semaphore m); m = m\<lparr>mx_semaphore := s\<rparr> in
      case p of
        None \<Rightarrow> Ret (None, m)
      | Some permit \<Rightarrow>
          bindM (cell_borrow_mut (mx_borrow m)) (\<lambda>b. Ret (Some permit, m\<lparr>mx_borrow := b\<rparr>)))"

text \<open>Dropping a guard drops its fields in order: the borrow, then the permit.\<close>

definition mutex_guard_drop ::
    "bool \<Rightarrow> ('s, 'w waiter) slab_api \<Rightarrow> usize \<Rightarrow> ('s, 't) mutex \<Rightarrow> (('s, 't) mutex \<times> 'w list) m" where
  "mutex_guard_drop oc A permit m =
     (let m = m\<lparr>mx_borrow := drop_ref_mut (mx_borrow m)\<rparr> in
      bindM (permit_drop oc A permit (mx_semaphore m))
        (\<lambda>(s, out). Ret (m\<lparr>mx_semaphore := s\<rparr>, out)))"

definition mutex_deref :: "('s, 't) mutex \<Rightarrow> 't" where
  "mutex_deref m = mx_value m"

definition mutex_deref_mut :: "('t \<Rightarrow> 't) \<Rightarrow> ('s, 't) mutex \<Rightarrow> ('s, 't) mutex" where
  "mutex_deref_mut f m = m\<lparr>mx_value := f (mx_value m)\<rparr>"

definition mutex_get_mut :: "('t \<Rightarrow> 't) \<Rightarrow> ('s, 't) mutex \<Rightarrow> ('s, 't) mutex" where
  "mutex_get_mut f m = m\<lparr>mx_value := f (mx_value m)\<rparr>"

definition mutex_into_inner :: "('s, 't) mutex \<Rightarrow> 't" where
  "mutex_into_inner m = mx_value m"

text \<open>\<open>Debug\<close> and \<open>Display\<close> of the guard print the value, with the formatter \<open>show_t\<close> of its type.\<close>

definition mutex_guard_fmt :: "('t \<Rightarrow> string) \<Rightarrow> ('s, 't) mutex \<Rightarrow> string" where
  "mutex_guard_fmt show_t m = show_t (mutex_deref m)"

text \<open>
  \<open>Debug\<close> prints the value under a temporary guard, or that the mutex is locked; \<open>show_t\<close>
  is the value's own \<open>Debug\<close>. Result: the field printed, the mutex, the wakers called.
\<close>

definition mutex_fmt ::
    "bool \<Rightarrow> ('s, 'w waiter) slab_api \<Rightarrow> ('t \<Rightarrow> string) \<Rightarrow> ('s, 't) mutex \<Rightarrow>
     (string \<times> ('s, 't) mutex \<times> 'w list) m" where
  "mutex_fmt oc A show_t m =
     bindM (mutex_try_lock A m) (\<lambda>(g, m).
       case g of
         None \<Rightarrow> Ret (''<locked>'', m, [])
       | Some permit \<Rightarrow>
           bindM (mutex_guard_drop oc A permit m)
             (\<lambda>(m', out). Ret (show_t (mutex_deref m), m', out)))"

section \<open>Clients of one mutex\<close>

record ('s, 't) mutex_sys =
  m_lock :: "('s, 't) mutex"
  m_futs :: "nat \<Rightarrow> (acquire_state \<times> usize) option"
  m_guards :: "usize multiset"

definition mutex_sys_new :: "('s, 'w waiter) slab_api \<Rightarrow> 't \<Rightarrow> ('s, 't) mutex_sys" where
  "mutex_sys_new A v = \<lparr>m_lock = mutex_new A v, m_futs = Map.empty, m_guards = {#}\<rparr>"

inductive mutex_step :: "bool \<Rightarrow> ('s, 'w waiter) slab_api \<Rightarrow>
    ('s, 't) mutex_sys \<Rightarrow> 'w list \<Rightarrow> ('s, 't) mutex_sys \<Rightarrow> bool" for oc A where
  lock_start: "m_futs y f = None \<Longrightarrow>
     mutex_step oc A y [] (y\<lparr>m_futs := (m_futs y)(f \<mapsto> (Idle, 1))\<rparr>)"
| lock_pending: "m_futs y f = Some (st, n) \<Longrightarrow>
     mutex_lock_poll A st cx (m_lock y) = Ret (Pending, st', m', out) \<Longrightarrow>
     mutex_step oc A y out (y\<lparr>m_lock := m', m_futs := (m_futs y)(f \<mapsto> (st', n))\<rparr>)"
| lock_ready: "m_futs y f = Some (st, n) \<Longrightarrow>
     mutex_lock_poll A st cx (m_lock y) = Ret (Ready p, st', m', out) \<Longrightarrow>
     mutex_step oc A y out
       (y\<lparr>m_lock := m', m_futs := (m_futs y)(f := None), m_guards := add_mset p (m_guards y)\<rparr>)"
| lock_cancel: "m_futs y f = Some (st, n) \<Longrightarrow>
     acquire_drop A st (mx_semaphore (m_lock y)) = Ret (s', out) \<Longrightarrow>
     mutex_step oc A y out
       (y\<lparr>m_lock := (m_lock y)\<lparr>mx_semaphore := s'\<rparr>, m_futs := (m_futs y)(f := None)\<rparr>)"
| try_lock: "mutex_try_lock A (m_lock y) = Ret (p, m') \<Longrightarrow>
     mutex_step oc A y [] (y\<lparr>m_lock := m',
       m_guards := (case p of None \<Rightarrow> m_guards y | Some q \<Rightarrow> add_mset q (m_guards y))\<rparr>)"
| write_value: "p \<in># m_guards y \<Longrightarrow>
     mutex_step oc A y [] (y\<lparr>m_lock := mutex_deref_mut g (m_lock y)\<rparr>)"
| unlock: "p \<in># m_guards y \<Longrightarrow> mutex_guard_drop oc A p (m_lock y) = Ret (m', out) \<Longrightarrow>
     mutex_step oc A y out (y\<lparr>m_lock := m', m_guards := m_guards y - {#p#}\<rparr>)"

inductive mutex_reach :: "bool \<Rightarrow> ('s, 'w waiter) slab_api \<Rightarrow> 't \<Rightarrow> ('s, 't) mutex_sys \<Rightarrow> bool" for oc A v where
  init: "mutex_reach oc A v (mutex_sys_new A v)"
| step: "mutex_reach oc A v y \<Longrightarrow> mutex_step oc A y out y' \<Longrightarrow> mutex_reach oc A v y'"

section \<open>The invariant\<close>

definition mutex_sem :: "('s, 't) mutex_sys \<Rightarrow> 's sem_sys" where
  "mutex_sem y = \<lparr>y_sem = mx_semaphore (m_lock y), y_futs = m_futs y, y_held = m_guards y, y_total = 1\<rparr>"

definition mutex_inv :: "('s, 'w waiter) slab_api \<Rightarrow> ('s, 't) mutex_sys \<Rightarrow> bool" where
  "mutex_inv A y \<longleftrightarrow>
     sys_inv A (mutex_sem y) \<and>
     (\<forall>f st n. m_futs y f = Some (st, n) \<longrightarrow> n = 1) \<and>
     (\<forall>p \<in># m_guards y. p = 1) \<and>
     mx_borrow (m_lock y) = (if m_guards y = {#} then 0 else - 1)"

lemma mutex_sem_simps [simp]:
  "y_sem (mutex_sem y) = mx_semaphore (m_lock y)" "y_futs (mutex_sem y) = m_futs y"
  "y_held (mutex_sem y) = m_guards y" "y_total (mutex_sem y) = 1"
  by (simp_all add: mutex_sem_def)

lemma mutex_inv_guards:
  assumes "mutex_inv A y"
  shows "m_guards y = {#} \<or> m_guards y = {#1#}"
proof (cases "m_guards y = {#}")
  case False
  then obtain p where p: "p \<in># m_guards y" by auto
  with assms have "p = 1" by (simp add: mutex_inv_def)
  moreover have "0 < q" if "q \<in># m_guards y" for q
  proof -
    have "q = 1" using assms that by (simp add: mutex_inv_def)
    then show ?thesis by simp
  qed
  ultimately show ?thesis
    using assms p gate.exclusive [of A "mutex_sem y" 1] by (simp add: mutex_inv_def)
qed simp

lemma mutex_inv_new: "waiter_slab A \<Longrightarrow> mutex_inv A (mutex_sys_new A v)"
  using waiter_slab.sys_inv_new [of A 1]
  by (simp add: mutex_inv_def mutex_sem_def mutex_sys_new_def mutex_new_def sem_sys_new_def)

text \<open>Taking apart one call of the code.\<close>

lemma mutex_lock_pollE:
  assumes "mutex_lock_poll A st cx m = Ret (r, st', m', out)"
  obtains s where "acquire_poll A 1 st cx (mx_semaphore m) = Ret (r, st', s, out)"
    and "r = Pending" and "m' = m\<lparr>mx_semaphore := s\<rparr>"
  | s p where "acquire_poll A 1 st cx (mx_semaphore m) = Ret (r, st', s, out)"
    and "r = Ready p" and "mx_borrow m = 0" and "m' = m\<lparr>mx_semaphore := s, mx_borrow := - 1\<rparr>"
proof -
  obtain r0 st0 s0 out0 where poll: "acquire_poll A 1 st cx (mx_semaphore m) = Ret (r0, st0, s0, out0)"
    using assms by (auto simp: mutex_lock_poll_def bindM_Ret_conv)
  show ?thesis
    using assms poll that
    by (cases r0) (auto simp: mutex_lock_poll_def bindM_Ret_conv cell_borrow_mut_def split: if_splits)
qed

lemma mutex_try_lockE:
  assumes "mutex_try_lock A m = Ret (g, m')"
  obtains s where "semaphore_try_acquire A 1 (mx_semaphore m) = (g, s)"
    and "g = None" and "m' = m\<lparr>mx_semaphore := s\<rparr>"
  | s p where "semaphore_try_acquire A 1 (mx_semaphore m) = (g, s)"
    and "g = Some p" and "mx_borrow m = 0" and "m' = m\<lparr>mx_semaphore := s, mx_borrow := - 1\<rparr>"
  using assms
  by (auto simp: mutex_try_lock_def bindM_Ret_conv cell_borrow_mut_def Let_def
      split: prod.splits option.splits if_splits)

lemma mutex_guard_dropE:
  assumes "mutex_guard_drop oc A p m = Ret (m', out)"
  obtains s where "permit_drop oc A p (mx_semaphore m) = Ret (s, out)"
    and "m' = m\<lparr>mx_semaphore := s, mx_borrow := mx_borrow m + 1\<rparr>"
  using assms by (auto simp: mutex_guard_drop_def bindM_Ret_conv drop_ref_mut_def)

text \<open>A step of the mutex is a step of its semaphore, or leaves the semaphore alone.\<close>

lemma try_acquire_amount: "semaphore_try_acquire A n s = (Some p, s') \<Longrightarrow> p = n"
  by (auto simp: semaphore_try_acquire_def split: prod.splits if_splits)

lemma acquire_poll_amount: "acquire_poll A n st cx s = Ret (Ready p, st', s', out) \<Longrightarrow> p = n"
  by (auto simp: acquire_poll_def bindM_Ret_conv map_poll_value_conv)

lemma mutex_step_sem:
  assumes "mutex_step oc A y out y'" and "mutex_inv A y"
  shows "sem_step oc A (mutex_sem y) out (mutex_sem y') \<or> mutex_sem y' = mutex_sem y"
  using assms
proof (cases rule: mutex_step.cases)
  case (lock_start f)
  then show ?thesis using sem_step.start [of "mutex_sem y" f oc A 1] by (simp add: mutex_sem_def)
next
  case (lock_pending f st n cx st' m')
  then have n: "n = 1" using assms(2) by (auto simp: mutex_inv_def)
  from lock_pending(3) show ?thesis
    by (cases rule: mutex_lock_pollE)
      (use lock_pending n sem_step.poll_pending [of "mutex_sem y" f st n A cx st' _ out oc] in
        \<open>auto simp: mutex_sem_def\<close>)
next
  case (lock_ready f st n cx p st' m')
  then have n: "n = 1" using assms(2) by (auto simp: mutex_inv_def)
  from lock_ready(3) show ?thesis
    by (cases rule: mutex_lock_pollE)
      (use lock_ready n sem_step.poll_ready [of "mutex_sem y" f st n A cx p st' _ out oc] in
        \<open>auto simp: mutex_sem_def\<close>)
next
  case (lock_cancel f st n s')
  then show ?thesis
    using sem_step.cancel [of "mutex_sem y" f st n A s' out oc] by (simp add: mutex_sem_def)
next
  case (try_lock p m')
  from try_lock(3) show ?thesis
    by (cases rule: mutex_try_lockE)
      (use try_lock sem_step.try_ok [of A 1 "mutex_sem y" _ _ oc]
        sem_step.try_fail [of A 1 "mutex_sem y" _ oc] in \<open>auto simp: mutex_sem_def\<close>)
next
  case (write_value p g)
  then show ?thesis by (simp add: mutex_sem_def mutex_deref_mut_def)
next
  case (unlock p m')
  from unlock(3) show ?thesis
    by (rule mutex_guard_dropE)
      (use unlock sem_step.release [of p "mutex_sem y" oc A _ out] in \<open>auto simp: mutex_sem_def\<close>)
qed

lemma mutex_step_cell:
  assumes "mutex_step oc A y out y'" and inv: "mutex_inv A y"
  shows "(\<forall>f st n. m_futs y' f = Some (st, n) \<longrightarrow> n = 1) \<and> (\<forall>p \<in># m_guards y'. p = 1) \<and>
    mx_borrow (m_lock y') = (if m_guards y' = {#} then 0 else - 1)"
  using assms
proof (cases rule: mutex_step.cases)
  case (lock_pending f st n cx st' m')
  from lock_pending(3) show ?thesis
    by (cases rule: mutex_lock_pollE) (use lock_pending inv in \<open>auto simp: mutex_inv_def\<close>)
next
  case (lock_ready f st n cx p st' m')
  from lock_ready(3) show ?thesis
    by (cases rule: mutex_lock_pollE)
      (use lock_ready inv in \<open>auto simp: mutex_inv_def dest: acquire_poll_amount split: if_splits\<close>)
next
  case (try_lock p m')
  from try_lock(3) show ?thesis
    by (cases rule: mutex_try_lockE)
      (use try_lock inv in \<open>auto simp: mutex_inv_def dest: try_acquire_amount split: if_splits\<close>)
next
  case (unlock p m')
  then have g: "m_guards y = {#1#}" using mutex_inv_guards [OF inv] by auto
  then have "p = 1" using unlock by simp
  from unlock(3) show ?thesis
    by (rule mutex_guard_dropE) (use unlock inv g \<open>p = 1\<close> in \<open>auto simp: mutex_inv_def\<close>)
qed (use inv in \<open>auto simp: mutex_inv_def mutex_deref_mut_def split: if_splits\<close>)

lemma mutex_step_inv:
  assumes "waiter_slab A" and "mutex_step oc A y out y'" and "mutex_inv A y"
  shows "mutex_inv A y'"
proof -
  have "sys_inv A (mutex_sem y')"
    using mutex_step_sem [OF assms(2,3)] waiter_slab.sem_step_inv [OF assms(1)] assms(3)
    by (auto simp: mutex_inv_def)
  with mutex_step_cell [OF assms(2,3)] show ?thesis by (simp add: mutex_inv_def)
qed

lemma mutex_reach_inv: "waiter_slab A \<Longrightarrow> mutex_reach oc A v y \<Longrightarrow> mutex_inv A y"
  by (rotate_tac, induction rule: mutex_reach.induct) (auto intro: mutex_inv_new mutex_step_inv)

section \<open>Safety\<close>

lemma held_sum_le_one: "held_sum (add_mset 1 M) \<le> 1 \<Longrightarrow> \<forall>p \<in># M. p = 1 \<Longrightarrow> M = {#}"
  by (cases "M = {#}") (auto elim!: multiset_nonemptyE dest!: multi_member_split)

lemma mutex_acquired_free:
  assumes A: "waiter_slab A" and inv: "mutex_inv A y"
    and stp: "sem_step oc A (mutex_sem y) out y'" and held: "y_held y' = add_mset 1 (m_guards y)"
    and tot: "y_total y' = 1"
  shows "mx_borrow (m_lock y) = 0"
proof -
  have "sys_inv A y'" using waiter_slab.sem_step_inv [OF A stp] inv by (simp add: mutex_inv_def)
  then have "held_sum (add_mset 1 (m_guards y)) \<le> 1" using gate.covered [of A y'] held tot by simp
  with inv held_sum_le_one have "m_guards y = {#}" by (auto simp: mutex_inv_def)
  with inv show ?thesis by (simp add: mutex_inv_def)
qed

lemma mutex_lock_safe:
  assumes A: "waiter_slab A" and inv: "mutex_inv A y" and fut: "m_futs y f = Some (st, n)"
  shows "returns (mutex_lock_poll A st cx (m_lock y))"
proof -
  obtain a where rel: "sys_rel A (mutex_sem y) a" using inv by (auto simp: mutex_inv_def sys_inv_def)
  have n: "n = 1" using inv fut by (auto simp: mutex_inv_def)
  obtain r st' s out where poll: "acquire_poll A 1 st cx (mx_semaphore (m_lock y)) = Ret (r, st', s, out)"
    using waiter_slab.acquire_poll_safe [OF A rel, of f st n cx] fut n by (auto simp: returns_conv)
  show ?thesis
  proof (cases r)
    case Pending
    with poll show ?thesis by (simp add: mutex_lock_poll_def)
  next
    case (Ready p)
    with poll acquire_poll_amount [of A 1 st cx _ p st' s out] have p: "p = 1" by simp
    have "mx_borrow (m_lock y) = 0"
      using mutex_acquired_free [OF A inv sem_step.poll_ready [of "mutex_sem y" f st n A cx p st' s out False]]
        fut poll Ready n p by simp
    with poll Ready show ?thesis by (simp add: mutex_lock_poll_def cell_borrow_mut_def)
  qed
qed

lemma mutex_try_lock_safe:
  assumes A: "waiter_slab A" and inv: "mutex_inv A y"
  shows "returns (mutex_try_lock A (m_lock y))"
proof -
  obtain g s where t: "semaphore_try_acquire A 1 (mx_semaphore (m_lock y)) = (g, s)"
    by (cases "semaphore_try_acquire A 1 (mx_semaphore (m_lock y))")
  show ?thesis
  proof (cases g)
    case None
    with t show ?thesis by (simp add: mutex_try_lock_def)
  next
    case (Some p)
    with t try_acquire_amount [of A 1 _ p s] have p: "p = 1" by simp
    have "mx_borrow (m_lock y) = 0"
      using mutex_acquired_free [OF A inv sem_step.try_ok [of A 1 "mutex_sem y" p s False]] t Some p by simp
    with t Some show ?thesis by (simp add: mutex_try_lock_def cell_borrow_mut_def)
  qed
qed

lemma mutex_guard_drop_safe:
  assumes A: "waiter_slab A" and inv: "mutex_inv A y" and "p \<in># m_guards y"
  shows "returns (mutex_guard_drop oc A p (m_lock y))"
proof -
  obtain a where rel: "sys_rel A (mutex_sem y) a" using inv by (auto simp: mutex_inv_def sys_inv_def)
  have "returns (permit_drop oc A p (mx_semaphore (m_lock y)))"
    using waiter_slab.permit_drop_safe [OF A rel, of p oc] assms(3) by simp
  then show ?thesis by (auto simp: mutex_guard_drop_def returns_conv)
qed

lemma mutex_cancel_safe:
  assumes A: "waiter_slab A" and inv: "mutex_inv A y" and fut: "m_futs y f = Some (st, n)"
  shows "returns (acquire_drop A st (mx_semaphore (m_lock y)))"
proof -
  obtain a where rel: "sys_rel A (mutex_sem y) a" using inv by (auto simp: mutex_inv_def sys_inv_def)
  show ?thesis using waiter_slab.acquire_drop_safe [OF A rel, of f st n] fut by simp
qed

text \<open>A temporary guard leaves the mutex as it was: locking and unlocking a free mutex.\<close>

lemma mutex_free_round_trip:
  assumes A: "waiter_slab A" and inv: "mutex_inv A y"
    and got: "mutex_try_lock A (m_lock y) = Ret (Some p, m1)"
  shows "mutex_guard_drop oc A p m1 = Ret (m_lock y, [])"
proof -
  from got obtain s where t: "semaphore_try_acquire A 1 (mx_semaphore (m_lock y)) = (Some p, s)"
    and b: "mx_borrow (m_lock y) = 0"
    and m1: "m1 = (m_lock y)\<lparr>mx_semaphore := s, mx_borrow := - 1\<rparr>"
    by (cases rule: mutex_try_lockE) auto
  let ?s = "mx_semaphore (m_lock y)"
  have p: "p = 1" and s: "s = ?s\<lparr>i_permits := i_permits ?s - 1\<rparr>" and emp: "slab_is_empty A (i_waiters ?s)"
    and pos: "1 \<le> i_permits ?s"
    using t by (auto simp: semaphore_try_acquire_def inner_try_acquire_def split: if_splits)
  obtain a where rel: "sys_rel A (mutex_sem y) a" using inv by (auto simp: mutex_inv_def sys_inv_def)
  then have "sem_rel A ?s (a_queue a)" and q: "a_queue a = []"
    using waiter_slab.sem_rel_empty [OF A, of ?s "a_queue a"] emp by (auto simp: sys_rel_def sem_abs_def)
  then have tail: "i_tail ?s = None" by (simp add: sem_rel_def)
  have "unat (i_permits ?s - 1) + unat (1 :: usize) < 2 ^ 64"
    using pos unsigned_less [of "i_permits ?s"] by (simp add: unat_usize_sub word_le_nat_alt)
  from usize_add_fits(1) [OF this, of oc] tail b show ?thesis
    by (simp add: m1 p s mutex_guard_drop_def permit_drop_def semaphore_add_permits_def
        inner_wake_def wake_loop.simps drop_ref_mut_def)
qed

end
