(* ===== verification/RwLock.thy ===== *)
theory RwLock
  imports Mutex
begin

text \<open>
  \<open>src/sync/rwlock.rs\<close>: a \<open>RefCell\<close> guarded by a semaphore of \<open>usize::MAX\<close> permits, of
  which a reader takes one and a writer all. A guard is its permits; the borrow it holds is
  the cell's flag.
\<close>

section \<open>The code\<close>

definition rw_permits :: usize where
  "rw_permits = - 1"

record ('s, 't) rwlock =
  rw_semaphore :: "'s inner"
  rw_borrow :: borrow_flag
  rw_value :: 't

definition rwlock_new :: "('s, 'w waiter) slab_api \<Rightarrow> 't \<Rightarrow> ('s, 't) rwlock" where
  "rwlock_new A v = \<lparr>rw_semaphore = semaphore_new A rw_permits, rw_borrow = 0, rw_value = v\<rparr>"

definition rwlock_read_poll ::
    "('s, 'w waiter) slab_api \<Rightarrow> acquire_state \<Rightarrow> 'w \<Rightarrow> ('s, 't) rwlock \<Rightarrow>
     (usize poll \<times> acquire_state \<times> ('s, 't) rwlock \<times> 'w list) m" where
  "rwlock_read_poll A st cx l =
     bindM (acquire_poll A 1 st cx (rw_semaphore l)) (\<lambda>(r, st, s, out).
       case r of
         Pending \<Rightarrow> Ret (Pending, st, l\<lparr>rw_semaphore := s\<rparr>, out)
       | Ready permit \<Rightarrow>
           bindM (cell_borrow (rw_borrow l))
             (\<lambda>b. Ret (Ready permit, st, l\<lparr>rw_semaphore := s, rw_borrow := b\<rparr>, out)))"

definition rwlock_write_poll ::
    "('s, 'w waiter) slab_api \<Rightarrow> acquire_state \<Rightarrow> 'w \<Rightarrow> ('s, 't) rwlock \<Rightarrow>
     (usize poll \<times> acquire_state \<times> ('s, 't) rwlock \<times> 'w list) m" where
  "rwlock_write_poll A st cx l =
     bindM (acquire_poll A rw_permits st cx (rw_semaphore l)) (\<lambda>(r, st, s, out).
       case r of
         Pending \<Rightarrow> Ret (Pending, st, l\<lparr>rw_semaphore := s\<rparr>, out)
       | Ready permit \<Rightarrow>
           bindM (cell_borrow_mut (rw_borrow l))
             (\<lambda>b. Ret (Ready permit, st, l\<lparr>rw_semaphore := s, rw_borrow := b\<rparr>, out)))"

definition rwlock_try_read ::
    "('s, 'w waiter) slab_api \<Rightarrow> ('s, 't) rwlock \<Rightarrow> (usize option \<times> ('s, 't) rwlock) m" where
  "rwlock_try_read A l =
     (let (p, s) = semaphore_try_acquire A 1 (rw_semaphore l); l = l\<lparr>rw_semaphore := s\<rparr> in
      case p of
        None \<Rightarrow> Ret (None, l)
      | Some permit \<Rightarrow>
          bindM (cell_borrow (rw_borrow l)) (\<lambda>b. Ret (Some permit, l\<lparr>rw_borrow := b\<rparr>)))"

definition rwlock_try_write ::
    "('s, 'w waiter) slab_api \<Rightarrow> ('s, 't) rwlock \<Rightarrow> (usize option \<times> ('s, 't) rwlock) m" where
  "rwlock_try_write A l =
     (let (p, s) = semaphore_try_acquire A rw_permits (rw_semaphore l); l = l\<lparr>rw_semaphore := s\<rparr> in
      case p of
        None \<Rightarrow> Ret (None, l)
      | Some permit \<Rightarrow>
          bindM (cell_borrow_mut (rw_borrow l)) (\<lambda>b. Ret (Some permit, l\<lparr>rw_borrow := b\<rparr>)))"

text \<open>The guards: dropping one drops its borrow, then its permits.\<close>

definition rwlock_read_guard_drop ::
    "bool \<Rightarrow> ('s, 'w waiter) slab_api \<Rightarrow> usize \<Rightarrow> ('s, 't) rwlock \<Rightarrow> (('s, 't) rwlock \<times> 'w list) m" where
  "rwlock_read_guard_drop oc A permit l =
     (let l = l\<lparr>rw_borrow := drop_ref (rw_borrow l)\<rparr> in
      bindM (permit_drop oc A permit (rw_semaphore l))
        (\<lambda>(s, out). Ret (l\<lparr>rw_semaphore := s\<rparr>, out)))"

definition rwlock_write_guard_drop ::
    "bool \<Rightarrow> ('s, 'w waiter) slab_api \<Rightarrow> usize \<Rightarrow> ('s, 't) rwlock \<Rightarrow> (('s, 't) rwlock \<times> 'w list) m" where
  "rwlock_write_guard_drop oc A permit l =
     (let l = l\<lparr>rw_borrow := drop_ref_mut (rw_borrow l)\<rparr> in
      bindM (permit_drop oc A permit (rw_semaphore l))
        (\<lambda>(s, out). Ret (l\<lparr>rw_semaphore := s\<rparr>, out)))"

definition rwlock_deref :: "('s, 't) rwlock \<Rightarrow> 't" where
  "rwlock_deref l = rw_value l"

definition rwlock_write_deref :: "('s, 't) rwlock \<Rightarrow> 't" where
  "rwlock_write_deref l = rw_value l"

text \<open>\<open>Debug\<close> and \<open>Display\<close> of both guards print the value, with the formatter \<open>show_t\<close> of its type.\<close>

definition rwlock_read_guard_fmt :: "('t \<Rightarrow> string) \<Rightarrow> ('s, 't) rwlock \<Rightarrow> string" where
  "rwlock_read_guard_fmt show_t l = show_t (rwlock_deref l)"

definition rwlock_write_guard_fmt :: "('t \<Rightarrow> string) \<Rightarrow> ('s, 't) rwlock \<Rightarrow> string" where
  "rwlock_write_guard_fmt show_t l = show_t (rwlock_write_deref l)"

definition rwlock_deref_mut :: "('t \<Rightarrow> 't) \<Rightarrow> ('s, 't) rwlock \<Rightarrow> ('s, 't) rwlock" where
  "rwlock_deref_mut f l = l\<lparr>rw_value := f (rw_value l)\<rparr>"

definition rwlock_get_mut :: "('t \<Rightarrow> 't) \<Rightarrow> ('s, 't) rwlock \<Rightarrow> ('s, 't) rwlock" where
  "rwlock_get_mut f l = l\<lparr>rw_value := f (rw_value l)\<rparr>"

definition rwlock_into_inner :: "('s, 't) rwlock \<Rightarrow> 't" where
  "rwlock_into_inner l = rw_value l"

definition rwlock_fmt ::
    "bool \<Rightarrow> ('s, 'w waiter) slab_api \<Rightarrow> ('t \<Rightarrow> string) \<Rightarrow> ('s, 't) rwlock \<Rightarrow>
     (string \<times> ('s, 't) rwlock \<times> 'w list) m" where
  "rwlock_fmt oc A show_t l =
     bindM (rwlock_try_read A l) (\<lambda>(g, l).
       case g of
         None \<Rightarrow> Ret (''<locked>'', l, [])
       | Some permit \<Rightarrow>
           bindM (rwlock_read_guard_drop oc A permit l)
             (\<lambda>(l', out). Ret (show_t (rwlock_deref l), l', out)))"

section \<open>Clients of one lock\<close>

text \<open>
  A future of the read kind waits for one permit, one of the write kind for all; readers
  and writers below are the live guards of each kind.
\<close>

record ('s, 't) rw_sys =
  r_lock :: "('s, 't) rwlock"
  r_futs :: "nat \<Rightarrow> (acquire_state \<times> usize) option"
  r_guards :: "usize multiset"

definition rw_sys_new :: "('s, 'w waiter) slab_api \<Rightarrow> 't \<Rightarrow> ('s, 't) rw_sys" where
  "rw_sys_new A v = \<lparr>r_lock = rwlock_new A v, r_futs = Map.empty, r_guards = {#}\<rparr>"

inductive rw_step :: "bool \<Rightarrow> ('s, 'w waiter) slab_api \<Rightarrow>
    ('s, 't) rw_sys \<Rightarrow> 'w list \<Rightarrow> ('s, 't) rw_sys \<Rightarrow> bool" for oc A where
  rw_start: "r_futs y f = None \<Longrightarrow> n = 1 \<or> n = rw_permits \<Longrightarrow>
     rw_step oc A y [] (y\<lparr>r_futs := (r_futs y)(f \<mapsto> (Idle, n))\<rparr>)"
| read_poll: "r_futs y f = Some (st, 1) \<Longrightarrow>
     rwlock_read_poll A st cx (r_lock y) = Ret (r, st', l', out) \<Longrightarrow>
     rw_step oc A y out (case r of
         Pending \<Rightarrow> y\<lparr>r_lock := l', r_futs := (r_futs y)(f \<mapsto> (st', 1))\<rparr>
       | Ready p \<Rightarrow> y\<lparr>r_lock := l', r_futs := (r_futs y)(f := None), r_guards := add_mset p (r_guards y)\<rparr>)"
| write_poll: "r_futs y f = Some (st, rw_permits) \<Longrightarrow>
     rwlock_write_poll A st cx (r_lock y) = Ret (r, st', l', out) \<Longrightarrow>
     rw_step oc A y out (case r of
         Pending \<Rightarrow> y\<lparr>r_lock := l', r_futs := (r_futs y)(f \<mapsto> (st', rw_permits))\<rparr>
       | Ready p \<Rightarrow> y\<lparr>r_lock := l', r_futs := (r_futs y)(f := None), r_guards := add_mset p (r_guards y)\<rparr>)"
| rw_cancel: "r_futs y f = Some (st, n) \<Longrightarrow>
     acquire_drop A st (rw_semaphore (r_lock y)) = Ret (s', out) \<Longrightarrow>
     rw_step oc A y out
       (y\<lparr>r_lock := (r_lock y)\<lparr>rw_semaphore := s'\<rparr>, r_futs := (r_futs y)(f := None)\<rparr>)"
| try_read: "rwlock_try_read A (r_lock y) = Ret (p, l') \<Longrightarrow>
     rw_step oc A y [] (y\<lparr>r_lock := l',
       r_guards := (case p of None \<Rightarrow> r_guards y | Some q \<Rightarrow> add_mset q (r_guards y))\<rparr>)"
| try_write: "rwlock_try_write A (r_lock y) = Ret (p, l') \<Longrightarrow>
     rw_step oc A y [] (y\<lparr>r_lock := l',
       r_guards := (case p of None \<Rightarrow> r_guards y | Some q \<Rightarrow> add_mset q (r_guards y))\<rparr>)"
| rw_modify: "rw_permits \<in># r_guards y \<Longrightarrow>
     rw_step oc A y [] (y\<lparr>r_lock := rwlock_deref_mut g (r_lock y)\<rparr>)"
| read_unlock: "1 \<in># r_guards y \<Longrightarrow> rwlock_read_guard_drop oc A 1 (r_lock y) = Ret (l', out) \<Longrightarrow>
     rw_step oc A y out (y\<lparr>r_lock := l', r_guards := r_guards y - {#1#}\<rparr>)"
| write_unlock: "rw_permits \<in># r_guards y \<Longrightarrow>
     rwlock_write_guard_drop oc A rw_permits (r_lock y) = Ret (l', out) \<Longrightarrow>
     rw_step oc A y out (y\<lparr>r_lock := l', r_guards := r_guards y - {#rw_permits#}\<rparr>)"

inductive rw_reach :: "bool \<Rightarrow> ('s, 'w waiter) slab_api \<Rightarrow> 't \<Rightarrow> ('s, 't) rw_sys \<Rightarrow> bool" for oc A v where
  init: "rw_reach oc A v (rw_sys_new A v)"
| step: "rw_reach oc A v y \<Longrightarrow> rw_step oc A y out y' \<Longrightarrow> rw_reach oc A v y'"

definition rw_sem :: "('s, 't) rw_sys \<Rightarrow> 's sem_sys" where
  "rw_sem y = \<lparr>y_sem = rw_semaphore (r_lock y), y_futs = r_futs y, y_held = r_guards y,
               y_total = unat rw_permits\<rparr>"

text \<open>The borrow flag that live guards account for.\<close>

definition guards_flag :: "usize multiset \<Rightarrow> borrow_flag" where
  "guards_flag M = (if rw_permits \<in># M then - 1 else int (size M))"

definition rw_inv :: "('s, 'w waiter) slab_api \<Rightarrow> ('s, 't) rw_sys \<Rightarrow> bool" where
  "rw_inv A y \<longleftrightarrow>
     sys_inv A (rw_sem y) \<and>
     (\<forall>f st n. r_futs y f = Some (st, n) \<longrightarrow> n = 1 \<or> n = rw_permits) \<and>
     (\<forall>p \<in># r_guards y. p = 1 \<or> p = rw_permits) \<and>
     rw_borrow (r_lock y) = guards_flag (r_guards y)"

lemma rw_sem_simps [simp]:
  "y_sem (rw_sem y) = rw_semaphore (r_lock y)" "y_futs (rw_sem y) = r_futs y"
  "y_held (rw_sem y) = r_guards y" "y_total (rw_sem y) = unat rw_permits"
  by (simp_all add: rw_sem_def)

lemma unat_rw_permits: "unat rw_permits = 2 ^ 64 - 1"
  by (simp add: rw_permits_def unsigned_minus_1_eq_mask mask_eq_exp_minus_1)

lemma rw_permits_simps [simp]: "rw_permits \<noteq> 1" "1 \<noteq> rw_permits" "rw_permits \<noteq> 0" "0 < rw_permits"
  by (simp_all add: rw_permits_def word_gt_0)

text \<open>Which guards can be live together, from what the semaphore promises.\<close>

lemma writer_alone:
  assumes "held_sum M \<le> unat rw_permits" and "\<forall>p \<in># M. p = 1 \<or> p = rw_permits"
    and "rw_permits \<in># M"
  shows "M = {#rw_permits#}"
proof -
  have "held_sum (M - {#rw_permits#}) = 0"
    using assms(1) held_sum_member [OF assms(3)] by linarith
  moreover have "unat p \<noteq> 0" if "p \<in># M - {#rw_permits#}" for p
  proof -
    have "p = 1 \<or> p = rw_permits" using assms(2) that by (auto dest: in_diffD)
    then show ?thesis by (auto simp: unat_rw_permits)
  qed
  ultimately have "M - {#rw_permits#} = {#}" by (auto elim!: multiset_nonemptyE)
  with assms(3) show ?thesis by (metis insert_DiffM)
qed

lemma readers_only:
  assumes "held_sum (add_mset 1 M) \<le> unat rw_permits"
  shows "rw_permits \<notin># M"
proof
  assume "rw_permits \<in># M"
  from held_sum_member [OF this] assms show False by simp
qed

lemma writer_first:
  assumes "held_sum (add_mset rw_permits M) \<le> unat rw_permits"
    and "\<forall>p \<in># M. p = 1 \<or> p = rw_permits"
  shows "M = {#}"
  using writer_alone [of "add_mset rw_permits M"] assms by auto

lemma guards_flag_simps [simp]:
  "guards_flag {#} = 0"
  "rw_permits \<notin># M \<Longrightarrow> guards_flag (add_mset 1 M) = guards_flag M + 1"
  "guards_flag (add_mset rw_permits M) = - 1"
  by (simp_all add: guards_flag_def)

section \<open>Every step keeps the invariant\<close>

lemma rw_inv_new: "waiter_slab A \<Longrightarrow> rw_inv A (rw_sys_new A v)"
  using waiter_slab.sys_inv_new [of A rw_permits]
  by (simp add: rw_inv_def rw_sem_def rw_sys_new_def rwlock_new_def sem_sys_new_def)

text \<open>Taking apart one call of the code.\<close>

lemma rwlock_read_pollE:
  assumes "rwlock_read_poll A st cx l = Ret (r, st', l', out)"
  obtains s where "acquire_poll A 1 st cx (rw_semaphore l) = Ret (Pending, st', s, out)"
    and "r = Pending" and "l' = l\<lparr>rw_semaphore := s\<rparr>"
  | s where "acquire_poll A 1 st cx (rw_semaphore l) = Ret (Ready 1, st', s, out)"
    and "r = Ready 1" and "l' = l\<lparr>rw_semaphore := s, rw_borrow := rw_borrow l + 1\<rparr>"
proof -
  obtain r0 st0 s0 out0 where poll: "acquire_poll A 1 st cx (rw_semaphore l) = Ret (r0, st0, s0, out0)"
    using assms by (auto simp: rwlock_read_poll_def bindM_Ret_conv)
  show ?thesis
    using assms poll that acquire_poll_amount [of A 1 st cx "rw_semaphore l" _ st0 s0 out0]
    by (cases r0) (auto simp: rwlock_read_poll_def bindM_Ret_conv cell_borrow_def split: if_splits)
qed

lemma rwlock_write_pollE:
  assumes "rwlock_write_poll A st cx l = Ret (r, st', l', out)"
  obtains s where "acquire_poll A rw_permits st cx (rw_semaphore l) = Ret (Pending, st', s, out)"
    and "r = Pending" and "l' = l\<lparr>rw_semaphore := s\<rparr>"
  | s where "acquire_poll A rw_permits st cx (rw_semaphore l) = Ret (Ready rw_permits, st', s, out)"
    and "r = Ready rw_permits" and "l' = l\<lparr>rw_semaphore := s, rw_borrow := - 1\<rparr>"
proof -
  obtain r0 st0 s0 out0 where poll: "acquire_poll A rw_permits st cx (rw_semaphore l) = Ret (r0, st0, s0, out0)"
    using assms by (auto simp: rwlock_write_poll_def bindM_Ret_conv)
  show ?thesis
    using assms poll that acquire_poll_amount [of A rw_permits st cx "rw_semaphore l" _ st0 s0 out0]
    by (cases r0) (auto simp: rwlock_write_poll_def bindM_Ret_conv cell_borrow_mut_def split: if_splits)
qed

lemma rwlock_try_readE:
  assumes "rwlock_try_read A l = Ret (g, l')"
  obtains s where "semaphore_try_acquire A 1 (rw_semaphore l) = (None, s)"
    and "g = None" and "l' = l\<lparr>rw_semaphore := s\<rparr>"
  | s where "semaphore_try_acquire A 1 (rw_semaphore l) = (Some 1, s)"
    and "g = Some 1" and "l' = l\<lparr>rw_semaphore := s, rw_borrow := rw_borrow l + 1\<rparr>"
proof -
  obtain g0 s0 where t: "semaphore_try_acquire A 1 (rw_semaphore l) = (g0, s0)"
    by (cases "semaphore_try_acquire A 1 (rw_semaphore l)")
  show ?thesis
    using assms t that try_acquire_amount [of A 1 "rw_semaphore l" _ s0]
    by (cases g0) (auto simp: rwlock_try_read_def bindM_Ret_conv cell_borrow_def Let_def split: if_splits)
qed

lemma rwlock_try_writeE:
  assumes "rwlock_try_write A l = Ret (g, l')"
  obtains s where "semaphore_try_acquire A rw_permits (rw_semaphore l) = (None, s)"
    and "g = None" and "l' = l\<lparr>rw_semaphore := s\<rparr>"
  | s where "semaphore_try_acquire A rw_permits (rw_semaphore l) = (Some rw_permits, s)"
    and "g = Some rw_permits" and "l' = l\<lparr>rw_semaphore := s, rw_borrow := - 1\<rparr>"
proof -
  obtain g0 s0 where t: "semaphore_try_acquire A rw_permits (rw_semaphore l) = (g0, s0)"
    by (cases "semaphore_try_acquire A rw_permits (rw_semaphore l)")
  show ?thesis
    using assms t that try_acquire_amount [of A rw_permits "rw_semaphore l" _ s0]
    by (cases g0) (auto simp: rwlock_try_write_def bindM_Ret_conv cell_borrow_mut_def split: if_splits)
qed

lemma rwlock_guard_dropE:
  "rwlock_read_guard_drop oc A p l = Ret (l', out) \<Longrightarrow>
     \<exists>s. permit_drop oc A p (rw_semaphore l) = Ret (s, out) \<and>
         l' = l\<lparr>rw_semaphore := s, rw_borrow := rw_borrow l - 1\<rparr>"
  "rwlock_write_guard_drop oc A p l = Ret (l', out) \<Longrightarrow>
     \<exists>s. permit_drop oc A p (rw_semaphore l) = Ret (s, out) \<and>
         l' = l\<lparr>rw_semaphore := s, rw_borrow := rw_borrow l + 1\<rparr>"
  by (auto simp: rwlock_read_guard_drop_def rwlock_write_guard_drop_def bindM_Ret_conv
      drop_ref_def drop_ref_mut_def)

text \<open>A step of the lock is a step of its semaphore, or leaves the semaphore alone.\<close>

lemma rw_step_sem:
  assumes "rw_step oc A y out y'"
  shows "sem_step oc A (rw_sem y) out (rw_sem y') \<or> rw_sem y' = rw_sem y"
  using assms
proof (cases rule: rw_step.cases)
  case (rw_start f n)
  then show ?thesis using sem_step.start [of "rw_sem y" f oc A n] by (simp add: rw_sem_def)
next
  case (read_poll f st cx r st' l')
  from read_poll(3) show ?thesis
    by (cases rule: rwlock_read_pollE)
      (use read_poll sem_step.poll_pending [of "rw_sem y" f st 1 A cx st' _ out oc]
        sem_step.poll_ready [of "rw_sem y" f st 1 A cx 1 st' _ out oc] in \<open>auto simp: rw_sem_def\<close>)
next
  case (write_poll f st cx r st' l')
  from write_poll(3) show ?thesis
    by (cases rule: rwlock_write_pollE)
      (use write_poll sem_step.poll_pending [of "rw_sem y" f st rw_permits A cx st' _ out oc]
        sem_step.poll_ready [of "rw_sem y" f st rw_permits A cx rw_permits st' _ out oc] in
        \<open>auto simp: rw_sem_def\<close>)
next
  case (rw_cancel f st n s')
  then show ?thesis
    using sem_step.cancel [of "rw_sem y" f st n A s' out oc] by (simp add: rw_sem_def)
next
  case (try_read p l')
  from try_read(3) show ?thesis
    by (cases rule: rwlock_try_readE)
      (use try_read sem_step.try_ok [of A 1 "rw_sem y" _ _ oc]
        sem_step.try_fail [of A 1 "rw_sem y" _ oc] in \<open>auto simp: rw_sem_def\<close>)
next
  case (try_write p l')
  from try_write(3) show ?thesis
    by (cases rule: rwlock_try_writeE)
      (use try_write sem_step.try_ok [of A rw_permits "rw_sem y" _ _ oc]
        sem_step.try_fail [of A rw_permits "rw_sem y" _ oc] in \<open>auto simp: rw_sem_def\<close>)
next
  case (rw_modify g)
  then show ?thesis by (simp add: rw_sem_def rwlock_deref_mut_def)
next
  case (read_unlock l')
  from rwlock_guard_dropE(1) [OF read_unlock(3)] show ?thesis
    using read_unlock sem_step.release [of 1 "rw_sem y" oc A _ out] by (auto simp: rw_sem_def)
next
  case (write_unlock l')
  from rwlock_guard_dropE(2) [OF write_unlock(3)] show ?thesis
    using write_unlock sem_step.release [of rw_permits "rw_sem y" oc A _ out] by (auto simp: rw_sem_def)
qed

lemma rw_covered: "sys_inv A (rw_sem y) \<Longrightarrow> held_sum (r_guards y) \<le> unat rw_permits"
  using gate.covered [of A "rw_sem y"] by simp

lemma guards_flag_remove:
  assumes "\<forall>p \<in># M. p = 1 \<or> p = rw_permits" and "held_sum M \<le> unat rw_permits"
  shows "1 \<in># M \<Longrightarrow> guards_flag (M - {#1#}) = guards_flag M - 1"
    and "rw_permits \<in># M \<Longrightarrow> guards_flag (M - {#rw_permits#}) = guards_flag M + 1"
proof -
  assume "1 \<in># M"
  then obtain N where M: "M = add_mset 1 N" by (metis multi_member_split)
  then have "rw_permits \<notin># N" using readers_only [of N] assms(2) by simp
  then show "guards_flag (M - {#1#}) = guards_flag M - 1" by (simp add: M)
next
  assume "rw_permits \<in># M"
  with writer_alone [OF assms(2,1)] have "M = {#rw_permits#}" .
  then show "guards_flag (M - {#rw_permits#}) = guards_flag M + 1"
    using guards_flag_simps(3) [of "{#}"] by simp
qed

lemma rw_step_cell:
  assumes "rw_step oc A y out y'" and inv: "rw_inv A y" and new: "sys_inv A (rw_sem y')"
  shows "(\<forall>f st n. r_futs y' f = Some (st, n) \<longrightarrow> n = 1 \<or> n = rw_permits) \<and>
    (\<forall>p \<in># r_guards y'. p = 1 \<or> p = rw_permits) \<and>
    rw_borrow (r_lock y') = guards_flag (r_guards y')"
  using assms(1)
proof (cases rule: rw_step.cases)
  case (read_poll f st cx r st' l')
  from read_poll(3) show ?thesis
    by (cases rule: rwlock_read_pollE)
      (use read_poll inv rw_covered [OF new] readers_only [of "r_guards y"] in
        \<open>auto simp: rw_inv_def split: if_splits\<close>)
next
  case (write_poll f st cx r st' l')
  from write_poll(3) show ?thesis
    by (cases rule: rwlock_write_pollE) (use write_poll inv in \<open>auto simp: rw_inv_def split: if_splits\<close>)
next
  case (try_read p l')
  from try_read(3) show ?thesis
    by (cases rule: rwlock_try_readE)
      (use try_read inv rw_covered [OF new] readers_only [of "r_guards y"] in
        \<open>auto simp: rw_inv_def\<close>)
next
  case (try_write p l')
  from try_write(3) show ?thesis
    by (cases rule: rwlock_try_writeE) (use try_write inv in \<open>auto simp: rw_inv_def\<close>)
next
  case (read_unlock l')
  have "held_sum (r_guards y) \<le> unat rw_permits" using inv rw_covered by (auto simp: rw_inv_def)
  with rwlock_guard_dropE(1) [OF read_unlock(3)] show ?thesis
    using read_unlock inv guards_flag_remove(1) [of "r_guards y"]
    by (auto simp: rw_inv_def dest: in_diffD)
next
  case (write_unlock l')
  have "held_sum (r_guards y) \<le> unat rw_permits" using inv rw_covered by (auto simp: rw_inv_def)
  with rwlock_guard_dropE(2) [OF write_unlock(3)] show ?thesis
    using write_unlock inv guards_flag_remove(2) [of "r_guards y"]
    by (auto simp: rw_inv_def dest: in_diffD)
qed (use inv in \<open>auto simp: rw_inv_def rwlock_deref_mut_def split: if_splits\<close>)

lemma rw_step_inv:
  assumes "waiter_slab A" and "rw_step oc A y out y'" and "rw_inv A y"
  shows "rw_inv A y'"
proof -
  have new: "sys_inv A (rw_sem y')"
    using rw_step_sem [OF assms(2)] waiter_slab.sem_step_inv [OF assms(1)] assms(3)
    by (auto simp: rw_inv_def)
  with rw_step_cell [OF assms(2,3) new] show ?thesis by (simp add: rw_inv_def)
qed

lemma rw_reach_inv: "waiter_slab A \<Longrightarrow> rw_reach oc A v y \<Longrightarrow> rw_inv A y"
  by (rotate_tac, induction rule: rw_reach.induct) (auto intro: rw_inv_new rw_step_inv)

section \<open>Safety\<close>

lemma rw_acquired:
  assumes A: "waiter_slab A" and inv: "rw_inv A y"
    and stp: "sem_step oc A (rw_sem y) out y'" and held: "y_held y' = add_mset p (r_guards y)"
    and tot: "y_total y' = unat rw_permits"
  shows "held_sum (add_mset p (r_guards y)) \<le> unat rw_permits"
proof -
  have "sys_inv A y'" using waiter_slab.sem_step_inv [OF A stp] inv by (simp add: rw_inv_def)
  then show ?thesis using gate.covered [of A y'] held tot by simp
qed

lemma rw_read_cell:
  assumes inv: "rw_inv A y" and "held_sum (add_mset 1 (r_guards y)) \<le> unat rw_permits"
    and "int (size (r_guards y)) < isize_max"
  shows "cell_borrow (rw_borrow (r_lock y)) = Ret (rw_borrow (r_lock y) + 1)"
  using assms readers_only [OF assms(2)] by (simp add: rw_inv_def guards_flag_def cell_borrow_def)

lemma rw_write_cell:
  assumes inv: "rw_inv A y" and "held_sum (add_mset rw_permits (r_guards y)) \<le> unat rw_permits"
  shows "cell_borrow_mut (rw_borrow (r_lock y)) = Ret (- 1)"
proof -
  have "r_guards y = {#}" using writer_first [OF assms(2)] inv by (simp add: rw_inv_def)
  with inv show ?thesis by (simp add: rw_inv_def cell_borrow_mut_def)
qed

lemma rwlock_read_safe:
  assumes A: "waiter_slab A" and inv: "rw_inv A y" and fut: "r_futs y f = Some (st, 1)"
    and room: "int (size (r_guards y)) < isize_max"
  shows "returns (rwlock_read_poll A st cx (r_lock y))"
proof -
  obtain a where rel: "sys_rel A (rw_sem y) a" using inv by (auto simp: rw_inv_def sys_inv_def)
  obtain r st' s out where poll: "acquire_poll A 1 st cx (rw_semaphore (r_lock y)) = Ret (r, st', s, out)"
    using waiter_slab.acquire_poll_safe [OF A rel, of f st 1 cx] fut by (auto simp: returns_conv)
  show ?thesis
  proof (cases r)
    case Pending
    with poll show ?thesis by (simp add: rwlock_read_poll_def)
  next
    case (Ready p)
    with poll acquire_poll_amount [of A 1 st cx _ p st' s out] have p: "p = 1" by simp
    have "held_sum (add_mset 1 (r_guards y)) \<le> unat rw_permits"
      using rw_acquired [OF A inv sem_step.poll_ready [of "rw_sem y" f st 1 A cx 1 st' s out False]]
        fut poll Ready p by simp
    from rw_read_cell [OF inv this room] poll Ready show ?thesis by (simp add: rwlock_read_poll_def)
  qed
qed

lemma rwlock_write_safe:
  assumes A: "waiter_slab A" and inv: "rw_inv A y" and fut: "r_futs y f = Some (st, rw_permits)"
  shows "returns (rwlock_write_poll A st cx (r_lock y))"
proof -
  obtain a where rel: "sys_rel A (rw_sem y) a" using inv by (auto simp: rw_inv_def sys_inv_def)
  obtain r st' s out where poll: "acquire_poll A rw_permits st cx (rw_semaphore (r_lock y)) = Ret (r, st', s, out)"
    using waiter_slab.acquire_poll_safe [OF A rel, of f st rw_permits cx] fut by (auto simp: returns_conv)
  show ?thesis
  proof (cases r)
    case Pending
    with poll show ?thesis by (simp add: rwlock_write_poll_def)
  next
    case (Ready p)
    with poll acquire_poll_amount [of A rw_permits st cx _ p st' s out] have p: "p = rw_permits" by simp
    have "held_sum (add_mset rw_permits (r_guards y)) \<le> unat rw_permits"
      using rw_acquired [OF A inv sem_step.poll_ready [of "rw_sem y" f st rw_permits A cx rw_permits st' s out False]]
        fut poll Ready p by simp
    from rw_write_cell [OF inv this] poll Ready show ?thesis by (simp add: rwlock_write_poll_def)
  qed
qed

lemma rwlock_try_read_safe:
  assumes A: "waiter_slab A" and inv: "rw_inv A y" and room: "int (size (r_guards y)) < isize_max"
  shows "returns (rwlock_try_read A (r_lock y))"
proof -
  obtain g s where t: "semaphore_try_acquire A 1 (rw_semaphore (r_lock y)) = (g, s)"
    by (cases "semaphore_try_acquire A 1 (rw_semaphore (r_lock y))")
  show ?thesis
  proof (cases g)
    case None
    with t show ?thesis by (simp add: rwlock_try_read_def)
  next
    case (Some p)
    with t try_acquire_amount [of A 1 _ p s] have p: "p = 1" by simp
    have "held_sum (add_mset 1 (r_guards y)) \<le> unat rw_permits"
      using rw_acquired [OF A inv sem_step.try_ok [of A 1 "rw_sem y" 1 s False]] t Some p by simp
    from rw_read_cell [OF inv this room] t Some show ?thesis by (simp add: rwlock_try_read_def)
  qed
qed

lemma rwlock_try_write_safe:
  assumes A: "waiter_slab A" and inv: "rw_inv A y"
  shows "returns (rwlock_try_write A (r_lock y))"
proof -
  obtain g s where t: "semaphore_try_acquire A rw_permits (rw_semaphore (r_lock y)) = (g, s)"
    by (cases "semaphore_try_acquire A rw_permits (rw_semaphore (r_lock y))")
  show ?thesis
  proof (cases g)
    case None
    with t show ?thesis by (simp add: rwlock_try_write_def)
  next
    case (Some p)
    with t try_acquire_amount [of A rw_permits _ p s] have p: "p = rw_permits" by simp
    have "held_sum (add_mset rw_permits (r_guards y)) \<le> unat rw_permits"
      using rw_acquired [OF A inv sem_step.try_ok [of A rw_permits "rw_sem y" rw_permits s False]] t Some p by simp
    from rw_write_cell [OF inv this] t Some show ?thesis by (simp add: rwlock_try_write_def)
  qed
qed

lemma rwlock_drop_safe:
  assumes A: "waiter_slab A" and inv: "rw_inv A y" and "p \<in># r_guards y"
  shows "returns (rwlock_read_guard_drop oc A p (r_lock y))"
    and "returns (rwlock_write_guard_drop oc A p (r_lock y))"
proof -
  obtain a where rel: "sys_rel A (rw_sem y) a" using inv by (auto simp: rw_inv_def sys_inv_def)
  have "returns (permit_drop oc A p (rw_semaphore (r_lock y)))"
    using waiter_slab.permit_drop_safe [OF A rel, of p oc] assms(3) by simp
  then show "returns (rwlock_read_guard_drop oc A p (r_lock y))"
    "returns (rwlock_write_guard_drop oc A p (r_lock y))"
    by (auto simp: rwlock_read_guard_drop_def rwlock_write_guard_drop_def returns_conv)
qed

end
