(* ===== verification/Locks_Properties.thy ===== *)
theory Locks_Properties
  imports RwLock Semaphore_Properties
begin

text \<open>
  The properties of \<open>src/sync/mutex.rs\<close> and \<open>src/sync/rwlock.rs\<close>: mutual exclusion, no
  panic from the \<open>RefCell\<close> inside the locks, writers are not overtaken, and the number of
  readers at which that \<open>RefCell\<close> does panic.
\<close>

section \<open>Concrete runs\<close>

definition ex_locked :: "((nat waiter) assoc_slab, int) mutex_sys" where
  "ex_locked = \<lparr>m_lock = \<lparr>mx_semaphore = \<lparr>i_permits = 0, i_waiters = [], i_head = None, i_tail = None\<rparr>,
       mx_borrow = - 1, mx_value = 5\<rparr>, m_futs = [3 \<mapsto> (Idle, 1)], m_guards = {#1#}\<rparr>"

lemma ex_locked_reach: "mutex_reach True (assoc_slab :: (nat waiter assoc_slab, nat waiter) slab_api) 5 ex_locked"
proof -
  let ?A = "assoc_slab :: (nat waiter assoc_slab, nat waiter) slab_api"
  let ?y0 = "mutex_sys_new ?A 5"
  let ?y1 = "?y0\<lparr>m_futs := [3 \<mapsto> (Idle, 1)]\<rparr>"
  have "mutex_reach True ?A 5 ?y0" by (rule mutex_reach.init)
  moreover have "mutex_step True ?A ?y0 [] ?y1"
    using mutex_step.lock_start [of ?y0 3 True ?A] by (simp add: mutex_sys_new_def)
  ultimately have "mutex_reach True ?A 5 ?y1" by (rule mutex_reach.step)
  moreover have "mutex_step True ?A ?y1 [] ex_locked"
    using mutex_step.try_lock [of ?A ?y1 "Some 1" "m_lock ex_locked" True]
    by (simp add: mutex_sys_new_def mutex_new_def mutex_try_lock_def semaphore_try_acquire_def
        sem_eval cell_borrow_mut_def ex_locked_def)
  ultimately show ?thesis by (rule mutex_reach.step)
qed

text \<open>A lock with \<open>n\<close> live readers.\<close>

definition ex_readers :: "nat \<Rightarrow> ((nat waiter) assoc_slab, int) rw_sys" where
  "ex_readers n = \<lparr>r_lock = \<lparr>rw_semaphore = \<lparr>i_permits = rw_permits - of_nat n, i_waiters = [],
         i_head = None, i_tail = None\<rparr>, rw_borrow = int n, rw_value = 5\<rparr>,
       r_futs = Map.empty, r_guards = replicate_mset n 1\<rparr>"

lemma rw_permits_left: "n < 2 ^ 63 \<Longrightarrow> 1 \<le> rw_permits - of_nat n"
proof -
  assume n: "n < 2 ^ 63"
  then have u: "unat (of_nat n :: usize) = n" by (simp add: unsigned_of_nat take_bit_nat_eq_self)
  have "of_nat n \<le> rw_permits" using n u by (simp add: word_le_nat_alt unat_rw_permits)
  then have "unat (rw_permits - of_nat n) = 2 ^ 64 - 1 - n"
    using u by (simp add: unat_usize_sub unat_rw_permits)
  then show ?thesis using n by (simp add: word_le_nat_alt)
qed

lemma ex_readers_reach:
  "n \<le> 2 ^ 63 - 1 \<Longrightarrow>
     rw_reach True (assoc_slab :: (nat waiter assoc_slab, nat waiter) slab_api) 5 (ex_readers n)"
proof (induction n)
  case 0
  have "ex_readers 0 = rw_sys_new (assoc_slab :: (nat waiter assoc_slab, nat waiter) slab_api) 5"
    by (simp add: ex_readers_def rw_sys_new_def rwlock_new_def semaphore_new_def)
  then show ?case using rw_reach.init by simp
next
  case (Suc n)
  let ?A = "assoc_slab :: (nat waiter assoc_slab, nat waiter) slab_api"
  have "rwlock_try_read ?A (r_lock (ex_readers n)) = Ret (Some 1, r_lock (ex_readers (Suc n)))"
    using Suc.prems rw_permits_left [of n]
    by (simp add: ex_readers_def rwlock_try_read_def semaphore_try_acquire_def inner_try_acquire_def
        cell_borrow_def isize_max_def diff_diff_eq add.commute)
  from rw_step.try_read [OF this, of True]
  have "rw_step True ?A (ex_readers n) [] (ex_readers (Suc n))"
    by (simp add: ex_readers_def)
  with Suc show ?case by (auto intro: rw_reach.step)
qed

section \<open>Properties of Mutex\<close>

text \<open>
  C20. Mutual exclusion: in every reachable state at most one \<open>MutexGuard\<close> is live, and the
  inner \<open>RefCell\<close> is mutably borrowed exactly while one is.
\<close>

theorem mutex_exclusion:
  assumes "waiter_slab A" and "mutex_reach oc A v y"
  shows "size (m_guards y) \<le> 1 \<and> mx_borrow (m_lock y) = (if m_guards y = {#} then 0 else - 1)"
  using mutex_reach_inv [OF assms] mutex_inv_guards [OF mutex_reach_inv [OF assms]]
  by (auto simp: mutex_inv_def)

theorem mutex_exclusion_witness: "size (m_guards ex_locked) = 1 \<and> mx_borrow (m_lock ex_locked) = - 1"
  using mutex_exclusion [OF assoc_waiter_slab ex_locked_reach] by (simp add: ex_locked_def)

text \<open>
  A mutex never panics: in every reachable state polling or cancelling a pending
  \<open>lock()\<close>, \<open>try_lock\<close>, and dropping a live guard all return; in particular
  \<open>self.value.borrow_mut()\<close> never finds the cell borrowed.
\<close>

theorem mutex_never_panics:
  assumes "waiter_slab A" and "mutex_reach oc A v y"
  shows "(\<forall>f st n cx. m_futs y f = Some (st, n) \<longrightarrow>
            returns (mutex_lock_poll A st cx (m_lock y)) \<and>
            returns (acquire_drop A st (mx_semaphore (m_lock y)))) \<and>
         returns (mutex_try_lock A (m_lock y)) \<and>
         (\<forall>p \<in># m_guards y. returns (mutex_guard_drop oc A p (m_lock y)))"
  using mutex_reach_inv [OF assms] mutex_lock_safe [OF assms(1)] mutex_cancel_safe [OF assms(1)]
    mutex_try_lock_safe [OF assms(1)] mutex_guard_drop_safe [OF assms(1)] by blast

theorem mutex_never_panics_witness:
  "returns (mutex_lock_poll assoc_slab Idle 9 (m_lock ex_locked)) \<and>
   returns (mutex_guard_drop True assoc_slab 1 (m_lock ex_locked))"
proof -
  note safe = mutex_never_panics [OF assoc_waiter_slab ex_locked_reach]
  have "m_futs ex_locked 3 = Some (Idle, 1)" "1 \<in># m_guards ex_locked" by (simp_all add: ex_locked_def)
  with safe show ?thesis by blast
qed

text \<open>
  Printing a mutex does not disturb it: \<open>Debug\<close> of a reachable mutex returns and leaves
  the mutex exactly as it was, calling no waker; it prints the value when the temporary guard
  could be taken and \<open><locked>\<close> otherwise.
\<close>

theorem mutex_debug_transparent:
  assumes "waiter_slab A" and "mutex_reach oc A v y"
  shows "\<exists>text. mutex_fmt oc A show_t (m_lock y) = Ret (text, m_lock y, []) \<and>
    (text = show_t (mutex_deref (m_lock y)) \<or> text = ''<locked>'')"
proof -
  note inv = mutex_reach_inv [OF assms]
  obtain g m1 where t: "mutex_try_lock A (m_lock y) = Ret (g, m1)"
    using mutex_try_lock_safe [OF assms(1) inv] by (auto simp: returns_conv)
  show ?thesis
  proof (cases g)
    case None
    have "m1 = m_lock y"
      using t None by (cases rule: mutex_try_lockE)
        (auto simp: semaphore_try_acquire_def inner_try_acquire_def split: if_splits)
    with t None show ?thesis by (simp add: mutex_fmt_def)
  next
    case (Some p)
    have "mutex_deref m1 = mutex_deref (m_lock y)"
      using t Some by (cases rule: mutex_try_lockE) (auto simp: mutex_deref_def)
    with mutex_free_round_trip [OF assms(1) inv, of p m1 oc] t Some show ?thesis
      by (simp add: mutex_fmt_def)
  qed
qed

theorem mutex_debug_transparent_witness:
  "\<exists>text. mutex_fmt True assoc_slab (\<lambda>_. ''5'') (m_lock ex_locked) = Ret (text, m_lock ex_locked, [])"
  using mutex_debug_transparent [OF assoc_waiter_slab ex_locked_reach] by blast

section \<open>Properties of RwLock\<close>

text \<open>
  C18. Readers and writers exclude each other: in every reachable state a live write guard is
  the only guard, every guard is a reader's or a writer's, and the inner \<open>RefCell\<close> counts
  exactly the live readers, or is mutably borrowed by the writer.
\<close>

theorem rwlock_exclusion:
  assumes "waiter_slab A" and "rw_reach oc A v y"
  shows "(rw_permits \<in># r_guards y \<longrightarrow> r_guards y = {#rw_permits#}) \<and>
    (\<forall>p \<in># r_guards y. p = 1 \<or> p = rw_permits) \<and>
    rw_borrow (r_lock y) = (if rw_permits \<in># r_guards y then - 1 else int (size (r_guards y)))"
  using rw_reach_inv [OF assms] writer_alone [of "r_guards y"] rw_covered [of A y]
  by (auto simp: rw_inv_def guards_flag_def)

theorem rwlock_exclusion_witness: "rw_borrow (r_lock (ex_readers 2)) = 2"
  using rwlock_exclusion [OF assoc_waiter_slab ex_readers_reach [of 2]]
  by (simp add: ex_readers_def)



text \<open>
  C29. The limit is real: with \<open>isize::MAX\<close> readers, a state the lock can reach, the
  semaphore still has permits, so \<open>try_read\<close> takes one and then panics in
  \<open>self.value.borrow()\<close>, although the lock was built for \<open>usize::MAX\<close> readers.
\<close>

theorem rwlock_reader_limit:
  "\<exists>y. rw_reach True (assoc_slab :: (nat waiter assoc_slab, nat waiter) slab_api) (5 :: int) y \<and>
       rw_permits \<notin># r_guards y \<and> 1 \<le> semaphore_permits (rw_semaphore (r_lock y)) \<and>
       rwlock_try_read (assoc_slab :: (nat waiter assoc_slab, nat waiter) slab_api) (r_lock y)
         = Panic AlreadyBorrowed"
proof -
  let ?y = "ex_readers (2 ^ 63 - 1)"
  have "rw_reach True (assoc_slab :: (nat waiter assoc_slab, nat waiter) slab_api) 5 ?y"
    by (rule ex_readers_reach) simp
  moreover have "1 \<le> rw_permits - of_nat (2 ^ 63 - 1)" by (rule rw_permits_left) simp
  ultimately show ?thesis
    by (intro exI [of _ ?y])
      (simp add: ex_readers_def rwlock_try_read_def semaphore_try_acquire_def inner_try_acquire_def
        semaphore_permits_def cell_borrow_def isize_max_def)
qed

text \<open>
  Waiting writers are not overtaken by readers: while any future waits for the lock,
  \<open>try_read\<close> fails and leaves the lock as it is, and the first poll of a new \<open>read()\<close> joins
  the queue.
\<close>

theorem rwlock_no_barging:
  assumes "waiter_slab A" and "rw_reach oc A v y" and "i_tail (rw_semaphore (r_lock y)) \<noteq> None"
  shows "rwlock_try_read A (r_lock y) = Ret (None, r_lock y) \<and>
    (\<exists>k l'. rwlock_read_poll A Idle cx (r_lock y) = Ret (Pending, Waiting k, l', []))"
proof -
  obtain a where rel: "sys_rel A (rw_sem y) a"
    using rw_reach_inv [OF assms(1,2)] by (auto simp: rw_inv_def sys_inv_def)
  then have abs: "sem_abs A (rw_semaphore (r_lock y)) a" by (simp add: sys_rel_def)
  then have "\<not> slab_is_empty A (i_waiters (rw_semaphore (r_lock y)))"
    using waiter_slab.sem_rel_empty [OF assms(1), of "rw_semaphore (r_lock y)" "a_queue a"] assms(3)
    by (auto simp: sem_abs_def sem_rel_def)
  then have t: "inner_try_acquire A 1 (rw_semaphore (r_lock y)) = (False, rw_semaphore (r_lock y))"
    by (simp add: inner_try_acquire_def)
  obtain s' where "inner_add A cx 1 (rw_semaphore (r_lock y)) =
      Ret (slab_vacant_key A (i_waiters (rw_semaphore (r_lock y))), s')"
    by (rule waiter_slab.add_refines [OF assms(1) abs])
  with t show ?thesis
    by (simp add: rwlock_try_read_def rwlock_read_poll_def acquire_poll_def semaphore_try_acquire_def)
qed

definition ex_writer_waits :: "((nat waiter) assoc_slab, int) rw_sys" where
  "ex_writer_waits = \<lparr>r_lock = \<lparr>rw_semaphore = \<lparr>i_permits = rw_permits - 1,
         i_waiters = [(0, \<lparr>w_waker = Some 7, w_next = None, w_prev = None, w_required = rw_permits, w_woke = False\<rparr>)],
         i_head = Some 0, i_tail = Some 0\<rparr>, rw_borrow = 1, rw_value = 5\<rparr>,
       r_futs = [4 \<mapsto> (Waiting 0, rw_permits)], r_guards = {#1#}\<rparr>"

lemma ex_writer_waits_reach:
  "rw_reach True (assoc_slab :: (nat waiter assoc_slab, nat waiter) slab_api) 5 ex_writer_waits"
proof -
  let ?A = "assoc_slab :: (nat waiter assoc_slab, nat waiter) slab_api"
  let ?y1 = "ex_readers 1" and ?y2 = "(ex_readers 1)\<lparr>r_futs := [4 \<mapsto> (Idle, rw_permits)]\<rparr>"
  have lt: "rw_permits - 1 < rw_permits" "\<not> rw_permits \<le> rw_permits - 1"
    using measure_unat [of rw_permits] by (simp_all add: word_less_nat_alt word_le_nat_alt)
  have "rw_reach True ?A 5 ?y1" by (rule ex_readers_reach) simp
  moreover have "rw_step True ?A ?y1 [] ?y2"
    using rw_step.rw_start [of ?y1 4 rw_permits True ?A] by (simp add: ex_readers_def)
  ultimately have "rw_reach True ?A 5 ?y2" by (rule rw_reach.step)
  moreover have "rw_step True ?A ?y2 [] ex_writer_waits"
    using rw_step.write_poll [of ?y2 4 Idle ?A 7 Pending "Waiting 0" "r_lock ex_writer_waits" "[]" True] lt
    by (simp add: ex_readers_def ex_writer_waits_def rwlock_write_poll_def sem_eval)
  ultimately show ?thesis by (rule rw_reach.step)
qed

theorem rwlock_no_barging_witness:
  "rwlock_try_read assoc_slab (r_lock ex_writer_waits) = Ret (None, r_lock ex_writer_waits)"
  using rwlock_no_barging [OF assoc_waiter_slab ex_writer_waits_reach] by (simp add: ex_writer_waits_def)

end
