(* ===== verification/Oneshot.thy ===== *)
theory Oneshot
  imports Prelude
begin

text \<open>
  \<open>src/sync/oneshot.rs\<close>: a channel for one message. The two halves share four cells; the
  halves themselves carry nothing else, so an operation is a function of the cells. An
  operation that wakes a waker returns it. The second part runs the two halves against each
  other, with the history of the channel beside its cells.
\<close>

section \<open>The code\<close>

record ('t, 'w) shared =
  s_complete :: bool
  s_message :: "'t option"
  s_sender :: "'w option"
  s_receiver :: "'w option"

datatype closed = Closed

fun closed_display :: "closed \<Rightarrow> string" where
  "closed_display Closed = ''oneshot channel closed''"

definition channel :: "('t, 'w) shared" where
  "channel = \<lparr>s_complete = False, s_message = None, s_sender = None, s_receiver = None\<rparr>"

definition sender_drop :: "('t, 'w) shared \<Rightarrow> ('t, 'w) shared \<times> 'w list" where
  "sender_drop s =
     (let s = s\<lparr>s_complete := True\<rparr>; w = s_receiver s; s = s\<lparr>s_receiver := None\<rparr>
      in (s\<lparr>s_sender := None\<rparr>, case w of Some w \<Rightarrow> [w] | None \<Rightarrow> []))"

text \<open>\<open>send\<close> consumes the sender, which is dropped when it returns.\<close>

definition sender_send :: "'t \<Rightarrow> ('t, 'w) shared \<Rightarrow> ('t + unit) \<times> ('t, 'w) shared \<times> 'w list" where
  "sender_send message s =
     (let (r, s) = (if s_complete s then (Inl message, s)
                    else (Inr (), s\<lparr>s_message := Some message\<rparr>))
      in (r, sender_drop s))"

definition sender_poll_closed :: "'w \<Rightarrow> ('t, 'w) shared \<Rightarrow> unit poll \<times> ('t, 'w) shared" where
  "sender_poll_closed cx s =
     (if s_complete s then (Ready (), s) else (Pending, s\<lparr>s_sender := Some cx\<rparr>))"

definition sender_is_closed :: "('t, 'w) shared \<Rightarrow> bool" where
  "sender_is_closed s = s_complete s"

definition receiver_close :: "('t, 'w) shared \<Rightarrow> ('t, 'w) shared \<times> 'w list" where
  "receiver_close s =
     (let s = s\<lparr>s_complete := True\<rparr>; w = s_sender s
      in (s\<lparr>s_sender := None\<rparr>, case w of Some w \<Rightarrow> [w] | None \<Rightarrow> []))"

definition receiver_try_recv :: "('t, 'w) shared \<Rightarrow> (closed + 't option) \<times> ('t, 'w) shared" where
  "receiver_try_recv s =
     (if s_complete s then
        (case s_message s of
           Some message \<Rightarrow> (Inr (Some message), s\<lparr>s_message := None\<rparr>)
         | None \<Rightarrow> (Inl Closed, s\<lparr>s_message := None\<rparr>))
      else (Inr None, s))"

definition receiver_poll :: "'w \<Rightarrow> ('t, 'w) shared \<Rightarrow> (closed + 't) poll \<times> ('t, 'w) shared" where
  "receiver_poll cx s =
     (if s_complete s then
        (case s_message s of
           Some message \<Rightarrow> (Ready (Inr message), s\<lparr>s_message := None\<rparr>)
         | None \<Rightarrow> (Ready (Inl Closed), s\<lparr>s_message := None\<rparr>))
      else (Pending, s\<lparr>s_receiver := Some cx\<rparr>))"

definition receiver_drop :: "('t, 'w) shared \<Rightarrow> ('t, 'w) shared \<times> 'w list" where
  "receiver_drop s =
     (let s = s\<lparr>s_complete := True\<rparr>; s = s\<lparr>s_receiver := None\<rparr>; w = s_sender s
      in (s\<lparr>s_sender := None\<rparr>, case w of Some w \<Rightarrow> [w] | None \<Rightarrow> []))"

lemmas oneshot_defs = channel_def sender_drop_def sender_send_def sender_poll_closed_def
  sender_is_closed_def receiver_close_def receiver_try_recv_def receiver_poll_def
  receiver_drop_def Let_def

section \<open>The two halves at work\<close>

text \<open>
  The cells with the history of the channel: which halves are alive, whether the receiver
  closed or dropped its half, the message that \<open>send\<close> accepted, what the receiver got, and
  the wakers of the last \<open>Pending\<close> poll of each half, until they are called.
\<close>

record ('t, 'w) channel_sys =
  c_shared :: "('t, 'w) shared"
  c_tx :: bool
  c_rx :: bool
  c_closed :: bool
  c_sent :: "'t option"
  c_got :: "'t list"
  c_tx_wait :: "'w option"
  c_rx_wait :: "'w option"

definition channel_sys_new :: "('t, 'w) channel_sys" where
  "channel_sys_new = \<lparr>c_shared = channel, c_tx = True, c_rx = True, c_closed = False, c_sent = None,
     c_got = [], c_tx_wait = None, c_rx_wait = None\<rparr>"

definition still_waiting :: "'w list \<Rightarrow> 'w option \<Rightarrow> 'w option" where
  "still_waiting out w = (case w of Some v \<Rightarrow> if v \<in> set out then None else Some v | None \<Rightarrow> None)"

inductive channel_step :: "('t, 'w) channel_sys \<Rightarrow> 'w list \<Rightarrow> ('t, 'w) channel_sys \<Rightarrow> bool" where
  tx_send: "c_tx y \<Longrightarrow> sender_send m (c_shared y) = (r, s, out) \<Longrightarrow>
     channel_step y out (y\<lparr>c_shared := s, c_tx := False,
       c_sent := (case r of Inr _ \<Rightarrow> Some m | Inl _ \<Rightarrow> c_sent y), c_tx_wait := None,
       c_rx_wait := still_waiting out (c_rx_wait y)\<rparr>)"
| tx_drop: "c_tx y \<Longrightarrow> sender_drop (c_shared y) = (s, out) \<Longrightarrow>
     channel_step y out (y\<lparr>c_shared := s, c_tx := False, c_tx_wait := None,
       c_rx_wait := still_waiting out (c_rx_wait y)\<rparr>)"
| tx_poll_closed: "c_tx y \<Longrightarrow> sender_poll_closed cx (c_shared y) = (r, s) \<Longrightarrow>
     channel_step y [] (y\<lparr>c_shared := s, c_tx_wait := (case r of Pending \<Rightarrow> Some cx | Ready _ \<Rightarrow> None)\<rparr>)"
| rx_close: "c_rx y \<Longrightarrow> receiver_close (c_shared y) = (s, out) \<Longrightarrow>
     channel_step y out (y\<lparr>c_shared := s, c_closed := True,
       c_tx_wait := still_waiting out (c_tx_wait y)\<rparr>)"
| rx_try_recv: "c_rx y \<Longrightarrow> receiver_try_recv (c_shared y) = (r, s) \<Longrightarrow>
     channel_step y [] (y\<lparr>c_shared := s, c_got := c_got y @ (case r of Inr (Some m) \<Rightarrow> [m] | _ \<Rightarrow> [])\<rparr>)"
| rx_poll: "c_rx y \<Longrightarrow> receiver_poll cx (c_shared y) = (r, s) \<Longrightarrow>
     channel_step y [] (y\<lparr>c_shared := s,
       c_got := c_got y @ (case r of Ready (Inr m) \<Rightarrow> [m] | _ \<Rightarrow> []),
       c_rx_wait := (case r of Pending \<Rightarrow> Some cx | Ready _ \<Rightarrow> None)\<rparr>)"
| rx_drop: "c_rx y \<Longrightarrow> receiver_drop (c_shared y) = (s, out) \<Longrightarrow>
     channel_step y out (y\<lparr>c_shared := s, c_rx := False, c_closed := True, c_rx_wait := None,
       c_tx_wait := still_waiting out (c_tx_wait y)\<rparr>)"

inductive channel_reach :: "('t, 'w) channel_sys \<Rightarrow> bool" where
  init: "channel_reach channel_sys_new"
| step: "channel_reach y \<Longrightarrow> channel_step y out y' \<Longrightarrow> channel_reach y'"

definition channel_inv :: "('t, 'w) channel_sys \<Rightarrow> bool" where
  "channel_inv y \<longleftrightarrow>
     (s_complete (c_shared y) \<longleftrightarrow> \<not> c_tx y \<or> c_closed y) \<and>
     s_message (c_shared y) = (if c_got y = [] then c_sent y else None) \<and>
     (c_got y = [] \<or> (\<exists>m. c_sent y = Some m \<and> c_got y = [m])) \<and>
     (c_tx y \<longrightarrow> c_sent y = None) \<and>
     (c_rx_wait y = None \<or> c_rx y \<and> (c_tx y \<or> c_closed y) \<and>
        (c_tx y \<longrightarrow> s_receiver (c_shared y) = c_rx_wait y)) \<and>
     (c_tx_wait y = None \<or> c_tx y \<and> \<not> c_closed y \<and> s_sender (c_shared y) = c_tx_wait y)"

lemma channel_inv_new: "channel_inv channel_sys_new"
  by (simp add: channel_inv_def channel_sys_new_def channel_def)

lemma channel_step_inv:
  assumes "channel_step y out y'" and "channel_inv y"
  shows "channel_inv y'"
  using assms(1)
proof (cases rule: channel_step.cases)
  case (tx_send m r s)
  then show ?thesis using assms(2)
    by (auto simp: channel_inv_def oneshot_defs still_waiting_def split: if_splits option.splits)
next
  case (tx_drop s)
  then show ?thesis using assms(2)
    by (auto simp: channel_inv_def oneshot_defs still_waiting_def split: if_splits option.splits)
next
  case (tx_poll_closed cx r s)
  then show ?thesis using assms(2)
    by (auto simp: channel_inv_def oneshot_defs split: if_splits)
next
  case (rx_close s)
  then show ?thesis using assms(2)
    by (auto simp: channel_inv_def oneshot_defs still_waiting_def split: if_splits option.splits)
next
  case (rx_try_recv r s)
  then show ?thesis using assms(2)
    by (auto simp: channel_inv_def oneshot_defs split: if_splits option.splits)
next
  case (rx_poll cx r s)
  then show ?thesis using assms(2)
    by (auto simp: channel_inv_def oneshot_defs split: if_splits option.splits)
next
  case (rx_drop s)
  then show ?thesis using assms(2)
    by (auto simp: channel_inv_def oneshot_defs still_waiting_def split: if_splits option.splits)
qed

lemma channel_reach_inv: "channel_reach y \<Longrightarrow> channel_inv y"
  by (induction rule: channel_reach.induct) (auto intro: channel_inv_new channel_step_inv)

section \<open>Properties\<close>

text \<open>A channel whose receiver waits under waker 7, and the same after a send of 5.\<close>

definition ex_waiting :: "(int, nat) channel_sys" where
  "ex_waiting = channel_sys_new\<lparr>c_shared := channel\<lparr>s_receiver := Some 7\<rparr>, c_rx_wait := Some 7\<rparr>"

definition ex_sent :: "(int, nat) channel_sys" where
  "ex_sent = channel_sys_new\<lparr>c_shared := channel\<lparr>s_complete := True, s_message := Some 5\<rparr>,
     c_tx := False, c_sent := Some 5\<rparr>"

definition ex_got :: "(int, nat) channel_sys" where
  "ex_got = ex_sent\<lparr>c_shared := channel\<lparr>s_complete := True\<rparr>, c_got := [5]\<rparr>"

lemma ex_reach: "channel_reach ex_waiting" "channel_reach ex_sent" "channel_reach ex_got"
proof -
  have "channel_step channel_sys_new [] ex_waiting"
    using channel_step.rx_poll [of "channel_sys_new :: (int, nat) channel_sys" 7 Pending]
    by (simp add: channel_sys_new_def ex_waiting_def oneshot_defs)
  then show "channel_reach ex_waiting" by (rule channel_reach.step [OF channel_reach.init])
  then have "channel_step ex_waiting [7] ex_sent"
    using channel_step.tx_send [of ex_waiting 5 "Inr ()" "c_shared ex_sent" "[7]"]
    by (simp add: channel_sys_new_def ex_waiting_def ex_sent_def oneshot_defs still_waiting_def)
  with \<open>channel_reach ex_waiting\<close> show s: "channel_reach ex_sent" by (rule channel_reach.step)
  have "channel_step ex_sent [] ex_got"
    using channel_step.rx_poll [of ex_sent 8 "Ready (Inr 5)" "c_shared ex_got"]
    by (simp add: channel_sys_new_def ex_sent_def ex_got_def oneshot_defs)
  with s show "channel_reach ex_got" by (rule channel_reach.step)
qed

text \<open>
  The message arrives at most once, and it is the one that \<open>send\<close> accepted: what the
  receiver got over the channel's life is nothing, or exactly that message.
\<close>

theorem oneshot_at_most_once:
  assumes "channel_reach y"
  shows "c_got y = [] \<or> (\<exists>m. c_sent y = Some m \<and> c_got y = [m])"
  using channel_reach_inv [OF assms] by (auto simp: channel_inv_def)

theorem oneshot_at_most_once_witness: "c_got ex_got = [5] \<and> c_sent ex_got = Some 5"
  using oneshot_at_most_once [OF ex_reach(3)] by (auto simp: ex_got_def ex_sent_def)

text \<open>
  The receiver's poll tells the history of the channel: it waits exactly while the sender
  is alive and the receiver has not closed; after that it delivers the accepted message if it
  was not delivered yet, and reports \<open>Closed\<close> otherwise. So an accepted message is not lost,
  also when the receiver closed its half after the send.
\<close>

theorem oneshot_receiver_poll:
  assumes "channel_reach y"
  shows "fst (receiver_poll cx (c_shared y)) =
    (if c_tx y \<and> \<not> c_closed y then Pending
     else case c_sent y of
         Some m \<Rightarrow> if c_got y = [] then Ready (Inr m) else Ready (Inl Closed)
       | None \<Rightarrow> Ready (Inl Closed))"
  using channel_reach_inv [OF assms]
  by (auto simp: channel_inv_def receiver_poll_def split: option.splits)

theorem oneshot_receiver_poll_witness:
  "fst (receiver_poll 8 (c_shared ex_sent)) = Ready (Inr 5) \<and>
   fst (receiver_poll 8 (c_shared ex_got)) = Ready (Inl Closed)"
  using oneshot_receiver_poll [OF ex_reach(2), of 8] oneshot_receiver_poll [OF ex_reach(3), of 8]
  by (simp add: ex_sent_def ex_got_def channel_sys_new_def)

text \<open>
  While the sender is alive, \<open>is_closed\<close>, \<open>poll_closed\<close> and \<open>send\<close> agree with the
  history: the channel is closed exactly when the receiver closed or dropped its half, and
  then, and only then, \<open>send\<close> hands the message back.
\<close>

theorem oneshot_sender_sees_close:
  assumes "channel_reach y" and "c_tx y"
  shows "sender_is_closed (c_shared y) = c_closed y \<and>
    fst (sender_poll_closed cx (c_shared y)) = (if c_closed y then Ready () else Pending) \<and>
    fst (sender_send m (c_shared y)) = (if c_closed y then Inl m else Inr ())"
  using channel_reach_inv [OF assms(1)] assms(2)
  by (auto simp: channel_inv_def sender_is_closed_def sender_poll_closed_def sender_send_def Let_def)

theorem oneshot_sender_sees_close_witness: "\<not> sender_is_closed (c_shared ex_waiting)"
  using oneshot_sender_sees_close [OF ex_reach(1), of 0 0] by (simp add: ex_waiting_def channel_sys_new_def)

text \<open>
  C25. No wakeup is lost. A receiver whose last poll was \<open>Pending\<close> and whose waker was not
  called since still has its waker in the channel while the sender lives, and the sender can
  only be gone if the receiver itself had closed the channel; sending or dropping the sender
  calls that waker. A sender whose \<open>poll_closed\<close> was \<open>Pending\<close> is woken by the receiver's
  close and by its drop.
\<close>

theorem oneshot_no_lost_wakeup:
  assumes "channel_reach y"
  shows "(c_rx_wait y = Some w \<longrightarrow> (c_tx y \<or> c_closed y) \<and>
      (c_tx y \<longrightarrow> w \<in> set (snd (sender_drop (c_shared y))) \<and>
         w \<in> set (snd (snd (sender_send m (c_shared y)))))) \<and>
    (c_tx_wait y = Some v \<longrightarrow> \<not> c_closed y \<and>
      v \<in> set (snd (receiver_close (c_shared y))) \<and> v \<in> set (snd (receiver_drop (c_shared y))))"
  using channel_reach_inv [OF assms]
  by (auto simp: channel_inv_def sender_send_def sender_drop_def receiver_close_def receiver_drop_def Let_def)

theorem oneshot_no_lost_wakeup_witness: "7 \<in> set (snd (snd (sender_send 5 (c_shared ex_waiting))))"
  using oneshot_no_lost_wakeup [OF ex_reach(1), of 7 5]
  by (simp add: ex_waiting_def channel_sys_new_def)

end
