(* ===== verification/Park.thy ===== *)
theory Park
  imports Prelude
begin

text \<open>
  \<open>src/runtime/park.rs\<close>: the trait \<open>Park\<close>. An implementation blocks the thread until
  something happened and appends the wakers to call to a vector that the caller owns. A parker
  is a value of a state type \<open>'p\<close>; its two operations are the fields of a record, the
  contract its callers rely on is the locale \<open>park_trait\<close>.
\<close>

text \<open>\<open>Instant\<close> and \<open>Duration\<close> count nanoseconds, an instant from the clock's origin.\<close>

type_synonym instant = nat
type_synonym duration = nat

definition from_millis :: "nat \<Rightarrow> duration" where
  "from_millis n = n * 1000000"

definition as_millis :: "duration \<Rightarrow> nat" where
  "as_millis d = d div 1000000"

text \<open>An operation gets the vector of wakers and returns its result, the vector and the parker.\<close>

record ('p, 'w) park_api =
  pk_park :: "'p \<Rightarrow> 'w list \<Rightarrow> unit io_result \<times> 'w list \<times> 'p"
  pk_park_timeout :: "'p \<Rightarrow> duration \<Rightarrow> 'w list \<Rightarrow> unit io_result \<times> 'w list \<times> 'p"

locale park_trait =
  fixes P :: "('p, 'w) park_api"
  assumes park_extends: "pk_park P p ws = (r, ws', p') \<Longrightarrow> \<exists>new. ws' = ws @ new"
    and park_timeout_extends: "pk_park_timeout P p d ws = (r, ws', p') \<Longrightarrow> \<exists>new. ws' = ws @ new"
begin

lemma park_keeps: "pk_park P p ws = (r, ws', p') \<Longrightarrow> w \<in> set ws \<Longrightarrow> w \<in> set ws'"
  using park_extends by fastforce

lemma park_timeout_keeps: "pk_park_timeout P p d ws = (r, ws', p') \<Longrightarrow> w \<in> set ws \<Longrightarrow> w \<in> set ws'"
  using park_timeout_extends by fastforce

end

text \<open>
  A recording parker, for concrete runs: it logs how long each call was allowed to block
  (\<open>None\<close> for ever) and appends the wakers it was given for that call.
\<close>

definition log_park :: "(duration option list, 'w) park_api" where
  "log_park = \<lparr>pk_park = (\<lambda>p ws. (Inr (), ws, p @ [None])),
     pk_park_timeout = (\<lambda>p d ws. (Inr (), ws, p @ [Some d]))\<rparr>"

lemma log_park_simps [simp]:
  "pk_park log_park p ws = (Inr (), ws, p @ [None])"
  "pk_park_timeout log_park p d ws = (Inr (), ws, p @ [Some d])"
  by (simp_all add: log_park_def)

interpretation logging: park_trait log_park
  by unfold_locales auto

end
