(* ===== verification/Ordered_Map.thy ===== *)
theory Ordered_Map
  imports Prelude "HOL-Library.Product_Lexorder"
begin

text \<open>
  \<open>std::collections::BTreeMap\<close>, as far as the crate uses it: a map kept as the list of its
  entries in ascending order of their keys. The locale \<open>ordered_map\<close> states what the users
  of the map rely on, the interpretation \<open>btree\<close> discharges it for the list.
\<close>

section \<open>Operations\<close>

type_synonym ('k, 'v) btree = "('k \<times> 'v) list"

definition bt_ok :: "('k::linorder, 'v) btree \<Rightarrow> bool" where
  "bt_ok m = sorted_wrt (<) (map fst m)"

fun bt_insert :: "'k::linorder \<Rightarrow> 'v \<Rightarrow> ('k, 'v) btree \<Rightarrow> ('k, 'v) btree" where
  "bt_insert k v [] = [(k, v)]"
| "bt_insert k v ((k', v') # m) =
     (if k < k' then (k, v) # (k', v') # m
      else if k = k' then (k, v) # m
      else (k', v') # bt_insert k v m)"

definition bt_get :: "('k, 'v) btree \<Rightarrow> 'k \<Rightarrow> 'v option" where
  "bt_get m k = map_of m k"

definition bt_remove :: "'k \<Rightarrow> ('k, 'v) btree \<Rightarrow> 'v option \<times> ('k, 'v) btree" where
  "bt_remove k m = (bt_get m k, filter (\<lambda>e. fst e \<noteq> k) m)"

text \<open>\<open>split_off\<close>: the entries below the key stay, those from the key on are returned.\<close>

definition bt_split_off :: "'k::linorder \<Rightarrow> ('k, 'v) btree \<Rightarrow> ('k, 'v) btree \<times> ('k, 'v) btree" where
  "bt_split_off k m = (filter (\<lambda>e. fst e < k) m, filter (\<lambda>e. k \<le> fst e) m)"

definition bt_first_key :: "('k, 'v) btree \<Rightarrow> 'k option" where
  "bt_first_key m = hd_opt (map fst m)"

definition bt_into_values :: "('k, 'v) btree \<Rightarrow> 'v list" where
  "bt_into_values m = map snd m"

section \<open>The contract\<close>

locale ordered_map =
  fixes ok :: "'m \<Rightarrow> bool"
    and get :: "'m \<Rightarrow> 'k::linorder \<Rightarrow> 'v option"
    and insert :: "'k \<Rightarrow> 'v \<Rightarrow> 'm \<Rightarrow> 'm"
    and remove :: "'k \<Rightarrow> 'm \<Rightarrow> 'v option \<times> 'm"
    and split_off :: "'k \<Rightarrow> 'm \<Rightarrow> 'm \<times> 'm"
  assumes ok_insert: "ok m \<Longrightarrow> ok (insert k v m)"
    and get_insert: "ok m \<Longrightarrow> get (insert k v m) = (get m)(k \<mapsto> v)"
    and ok_remove: "ok m \<Longrightarrow> ok (snd (remove k m))"
    and fst_remove: "ok m \<Longrightarrow> fst (remove k m) = get m k"
    and get_remove: "ok m \<Longrightarrow> get (snd (remove k m)) = (get m)(k := None)"
    and ok_split_off: "ok m \<Longrightarrow> ok (fst (split_off k m)) \<and> ok (snd (split_off k m))"
    and get_split_off: "ok m \<Longrightarrow>
          get (fst (split_off k m)) = (\<lambda>j. if j < k then get m j else None) \<and>
          get (snd (split_off k m)) = (\<lambda>j. if k \<le> j then get m j else None)"
begin

text \<open>Moving an entry to another key, the way a reset does it.\<close>

lemma get_move:
  assumes "ok m"
  shows "get (insert k v (snd (remove j m))) = ((get m)(j := None))(k \<mapsto> v)"
    and "ok (insert k v (snd (remove j m)))"
  using assms by (simp_all add: get_insert get_remove ok_remove ok_insert)

lemma dom_split_off:
  assumes "ok m"
  shows "dom (get (fst (split_off k m))) = {j \<in> dom (get m). j < k}"
    and "dom (get (snd (split_off k m))) = {j \<in> dom (get m). k \<le> j}"
  using get_split_off [OF assms, of k] by (auto simp: dom_def)

end

section \<open>The list fulfils the contract\<close>

lemma bt_ok_simps [simp]:
  "bt_ok []"
  "bt_ok ((k, v) # m) \<longleftrightarrow> (\<forall>e \<in> set m. k < fst e) \<and> bt_ok m"
  by (simp_all add: bt_ok_def)

lemma bt_get_simps [simp]:
  "bt_get [] k = None"
  "bt_get ((j, v) # m) k = (if j = k then Some v else bt_get m k)"
  by (simp_all add: bt_get_def)

lemma bt_insert_keys: "fst ` set (bt_insert k v m) = insert k (fst ` set m)"
  by (induction k v m rule: bt_insert.induct) auto

lemma bt_insert_above: "(\<forall>e \<in> set (bt_insert k v m). a < fst e) \<longleftrightarrow> a < k \<and> (\<forall>e \<in> set m. a < fst e)"
proof -
  have "(\<forall>e \<in> set (bt_insert k v m). a < fst e) \<longleftrightarrow> (\<forall>j \<in> fst ` set (bt_insert k v m). a < j)" by simp
  then show ?thesis unfolding bt_insert_keys by simp
qed

lemma bt_ok_insert: "bt_ok m \<Longrightarrow> bt_ok (bt_insert k v m)"
  by (induction k v m rule: bt_insert.induct) (auto simp: bt_insert_above)

lemma bt_get_insert: "bt_ok m \<Longrightarrow> bt_get (bt_insert k v m) = (bt_get m)(k \<mapsto> v)"
  by (induction k v m rule: bt_insert.induct) (auto simp: fun_eq_iff)

lemma bt_ok_filter: "bt_ok m \<Longrightarrow> bt_ok (filter P m)"
  by (induction m) auto

lemma bt_get_notin: "bt_get m k = None \<longleftrightarrow> (\<forall>e \<in> set m. fst e \<noteq> k)"
  unfolding bt_get_def map_of_eq_None_iff by auto

lemma bt_get_filter: "bt_get (filter (\<lambda>e. P (fst e)) m) k = (if P k then bt_get m k else None)"
  by (induction m) auto

lemma bt_ok_distinct: "bt_ok m \<Longrightarrow> distinct (map fst m)"
  by (simp add: bt_ok_def strict_sorted_iff)

lemma bt_get_mem: "bt_ok m \<Longrightarrow> (k, v) \<in> set m \<longleftrightarrow> bt_get m k = Some v"
  unfolding bt_get_def by (rule map_of_eq_Some_iff [OF bt_ok_distinct, symmetric])

interpretation btree: ordered_map bt_ok bt_get bt_insert bt_remove bt_split_off
proof
  show "bt_get (snd (bt_remove k m)) = (bt_get m)(k := None)" for k :: "'a::linorder" and m :: "('a, 'b) btree"
    using bt_get_filter [of "\<lambda>j. j \<noteq> k" m] by (auto simp: bt_remove_def)
  show "bt_get (fst (bt_split_off k m)) = (\<lambda>j. if j < k then bt_get m j else None) \<and>
      bt_get (snd (bt_split_off k m)) = (\<lambda>j. if k \<le> j then bt_get m j else None)"
    for k :: "'a::linorder" and m :: "('a, 'b) btree"
    using bt_get_filter [of "\<lambda>j. j < k" m] bt_get_filter [of "\<lambda>j. k \<le> j" m]
    by (auto simp: bt_split_off_def)
qed (auto simp: bt_ok_insert bt_get_insert bt_ok_filter bt_remove_def bt_split_off_def)

lemma bt_first_key_None [simp]: "bt_first_key m = None \<longleftrightarrow> m = []"
  by (simp add: bt_first_key_def)

text \<open>The first key is the least.\<close>

lemma bt_first_key_least:
  assumes "bt_ok m" and "bt_first_key m = Some k"
  shows "bt_get m k \<noteq> None" and "bt_get m j \<noteq> None \<Longrightarrow> k \<le> j"
  using assms by (cases m; auto simp: bt_first_key_def bt_get_notin less_imp_le)+

lemma bt_empty_conv: "m = [] \<longleftrightarrow> bt_get m = Map.empty"
  by (cases m) (auto simp: fun_eq_iff)

end
