(* ===== verification/Clock.thy ===== *)
theory Clock
  imports Park Ordered_Map
begin

text \<open>
  \<open>src/runtime/clock.rs\<close>: the timer heap. The clock keeps its alarms in a \<open>BTreeMap\<close>
  ordered by deadline, then by the identifier it gave the alarm, and wraps a parker: parking
  the clock first takes out the expired alarms, then parks for no longer than the next
  deadline. \<open>Instant::now()\<close> is the argument \<open>now\<close> of the operations that read it.
\<close>

section \<open>The code\<close>

type_synonym alarm_key = "instant \<times> usize"

record ('p, 'w) clock =
  ck_parker :: 'p
  ck_next_alarm :: usize
  ck_alarms :: "(alarm_key, 'w) btree"

definition clock_new :: "'p \<Rightarrow> ('p, 'w) clock" where
  "clock_new parker = \<lparr>ck_parker = parker, ck_next_alarm = 0, ck_alarms = []\<rparr>"

definition insert_alarm :: "bool \<Rightarrow> instant \<Rightarrow> 'w \<Rightarrow> ('p, 'w) clock \<Rightarrow> (usize \<times> ('p, 'w) clock) m" where
  "insert_alarm oc at waker c =
     (let aid = ck_next_alarm c; c = c\<lparr>ck_alarms := bt_insert (at, aid) waker (ck_alarms c)\<rparr> in
      bindM (usize_add oc (ck_next_alarm c) 1) (\<lambda>n. Ret (aid, c\<lparr>ck_next_alarm := n\<rparr>)))"

definition remove_alarm :: "usize \<Rightarrow> instant \<Rightarrow> ('p, 'w) clock \<Rightarrow> ('p, 'w) clock" where
  "remove_alarm aid at c = c\<lparr>ck_alarms := snd (bt_remove (at, aid) (ck_alarms c))\<rparr>"

definition reset_alarm :: "usize \<Rightarrow> instant \<Rightarrow> instant \<Rightarrow> ('p, 'w) clock \<Rightarrow> ('p, 'w) clock m" where
  "reset_alarm aid old_at new_at c =
     (let (w, alarms) = bt_remove (old_at, aid) (ck_alarms c) in
      bindM (expectM UnwrapNone w)
        (\<lambda>waker. Ret (c\<lparr>ck_alarms := bt_insert (new_at, aid) waker alarms\<rparr>)))"

definition replace_alarm_waker :: "usize \<Rightarrow> instant \<Rightarrow> 'w \<Rightarrow> ('p, 'w) clock \<Rightarrow> ('p, 'w) clock m" where
  "replace_alarm_waker aid deadline waker c =
     bindM (expectM UnwrapNone (bt_get (ck_alarms c) (deadline, aid)))
       (\<lambda>_. Ret (c\<lparr>ck_alarms := bt_insert (deadline, aid) waker (ck_alarms c)\<rparr>))"

text \<open>
  \<open>Shared::extend_with_expired\<close>: how long the parker may block, the wakers extended by
  those of the expired alarms, and the clock. \<open>as_millis() as u64\<close> keeps the low 64 bits.
\<close>

definition extend_with_expired ::
    "instant \<Rightarrow> 'w list \<Rightarrow> ('p, 'w) clock \<Rightarrow> duration option \<times> 'w list \<times> ('p, 'w) clock" where
  "extend_with_expired now wakers c =
     (let (ready, later) = bt_split_off (now + 1, 0) (ck_alarms c); c = c\<lparr>ck_alarms := later\<rparr> in
      if ready = [] then
        (map_option (\<lambda>(at, _). from_millis (as_millis (at - now) mod 2 ^ 64)) (bt_first_key (ck_alarms c)),
         wakers, c)
      else (Some 0, wakers @ bt_into_values ready, c))"

definition clock_park ::
    "('p, 'w) park_api \<Rightarrow> instant \<Rightarrow> ('p, 'w) clock \<Rightarrow> 'w list \<Rightarrow> unit io_result \<times> 'w list \<times> ('p, 'w) clock" where
  "clock_park P now c wakers =
     (let (next_at, wakers, c) = extend_with_expired now wakers c;
          (r, wakers, p) = (case next_at of
             Some d \<Rightarrow> pk_park_timeout P (ck_parker c) d wakers
           | None \<Rightarrow> pk_park P (ck_parker c) wakers)
      in (r, wakers, c\<lparr>ck_parker := p\<rparr>))"

definition clock_park_timeout ::
    "('p, 'w) park_api \<Rightarrow> instant \<Rightarrow> ('p, 'w) clock \<Rightarrow> duration \<Rightarrow> 'w list \<Rightarrow>
     unit io_result \<times> 'w list \<times> ('p, 'w) clock" where
  "clock_park_timeout P now c duration wakers =
     (let (next_at, wakers, c) = extend_with_expired now wakers c;
          duration = (case next_at of Some d \<Rightarrow> min duration d | None \<Rightarrow> duration);
          (r, wakers, p) = pk_park_timeout P (ck_parker c) duration wakers
      in (r, wakers, c\<lparr>ck_parker := p\<rparr>))"

text \<open>\<open>impl Park for Clock<P>\<close>.\<close>

definition clock_as_park :: "('p, 'w) park_api \<Rightarrow> instant \<Rightarrow> (('p, 'w) clock, 'w) park_api" where
  "clock_as_park P now = \<lparr>pk_park = clock_park P now, pk_park_timeout = clock_park_timeout P now\<rparr>"

lemma clock_as_park_simps [simp]:
  "pk_park (clock_as_park P now) = clock_park P now"
  "pk_park_timeout (clock_as_park P now) = clock_park_timeout P now"
  by (simp_all add: clock_as_park_def)

section \<open>The alarms of a clock\<close>

definition alarms :: "('p, 'w) clock \<Rightarrow> alarm_key \<Rightarrow> 'w option" where
  "alarms c = bt_get (ck_alarms c)"

definition clock_ok :: "('p, 'w) clock \<Rightarrow> bool" where
  "clock_ok c = bt_ok (ck_alarms c)"

lemma clock_new_simps [simp]:
  "alarms (clock_new p) = Map.empty" "clock_ok (clock_new p)" "ck_next_alarm (clock_new p) = 0"
  by (simp_all add: alarms_def clock_ok_def clock_new_def fun_eq_iff)

lemma clock_parker_update [simp]:
  "alarms (c\<lparr>ck_parker := p\<rparr>) = alarms c" "clock_ok (c\<lparr>ck_parker := p\<rparr>) = clock_ok c"
  by (simp_all add: alarms_def clock_ok_def)

lemma insert_alarm_Ret:
  assumes "clock_ok c" and "insert_alarm oc at w c = Ret (i, c')"
  shows "i = ck_next_alarm c" and "alarms c' = (alarms c)((at, i) \<mapsto> w)" and "clock_ok c'"
    and "ck_next_alarm c' = ck_next_alarm c + 1" and "ck_parker c' = ck_parker c"
  using assms by (auto simp: insert_alarm_def alarms_def clock_ok_def Let_def bindM_Ret_conv
      usize_add_def btree.get_insert btree.ok_insert split: if_splits)

lemma insert_alarm_returns:
  "unat (ck_next_alarm c) + 1 < 2 ^ 64 \<Longrightarrow> returns (insert_alarm oc at w c)"
  by (simp add: insert_alarm_def usize_add_def Let_def)

lemma remove_alarm_simps:
  assumes "clock_ok c"
  shows "alarms (remove_alarm i at c) = (alarms c)((at, i) := None)" and "clock_ok (remove_alarm i at c)"
    and "ck_next_alarm (remove_alarm i at c) = ck_next_alarm c"
    and "ck_parker (remove_alarm i at c) = ck_parker c"
  using assms by (simp_all add: remove_alarm_def alarms_def clock_ok_def btree.get_remove btree.ok_remove)

lemma reset_alarm_None: "clock_ok c \<Longrightarrow> alarms c (old_at, i) = None \<Longrightarrow> reset_alarm i old_at new_at c = Panic UnwrapNone"
  by (simp add: reset_alarm_def bt_remove_def alarms_def)

lemma reset_alarm_Some:
  assumes "clock_ok c" and "alarms c (old_at, i) = Some w"
  obtains c' where "reset_alarm i old_at new_at c = Ret c'"
    and "alarms c' = ((alarms c)((old_at, i) := None))((new_at, i) \<mapsto> w)" and "clock_ok c'"
    and "ck_next_alarm c' = ck_next_alarm c" and "ck_parker c' = ck_parker c"
proof -
  let ?c = "c\<lparr>ck_alarms := bt_insert (new_at, i) w (snd (bt_remove (old_at, i) (ck_alarms c)))\<rparr>"
  have "reset_alarm i old_at new_at c = Ret ?c"
    using assms by (simp add: reset_alarm_def bt_remove_def alarms_def)
  moreover have "alarms ?c = ((alarms c)((old_at, i) := None))((new_at, i) \<mapsto> w)" "clock_ok ?c"
    using assms(1) btree.get_move [of "ck_alarms c" "(new_at, i)" w "(old_at, i)"]
    by (simp_all add: alarms_def clock_ok_def)
  ultimately show ?thesis using that by simp
qed

lemma replace_alarm_waker_Ret:
  assumes "clock_ok c" and "replace_alarm_waker i at w c = Ret c'"
  shows "alarms c' = (alarms c)((at, i) \<mapsto> w)" and "clock_ok c'"
    and "ck_next_alarm c' = ck_next_alarm c" and "ck_parker c' = ck_parker c"
  using assms by (auto simp: replace_alarm_waker_def alarms_def clock_ok_def bindM_Ret_conv
      btree.get_insert btree.ok_insert)

lemma replace_alarm_waker_returns:
  "returns (replace_alarm_waker i at w c) \<longleftrightarrow> alarms c (at, i) \<noteq> None"
  by (auto simp: replace_alarm_waker_def alarms_def returns_conv bindM_Ret_conv)

section \<open>Expiry\<close>

lemma expired_key: "(k :: alarm_key) < (Suc now, 0) \<longleftrightarrow> fst k \<le> now"
  by (cases k) (auto simp: less_prod_def)

lemma pending_key: "(Suc now, 0) \<le> (k :: alarm_key) \<longleftrightarrow> now < fst k"
  using expired_key [of k now] by (auto simp: not_less [symmetric])

lemma extend_with_expired_spec:
  assumes "clock_ok c" and e: "extend_with_expired now ws c = (t, ws', c')"
  shows "ws' = ws @ map snd (filter (\<lambda>e. fst (fst e) \<le> now) (ck_alarms c))"
    and "alarms c' = (\<lambda>k. if now < fst k then alarms c k else None)"
    and "clock_ok c'" and "ck_next_alarm c' = ck_next_alarm c" and "ck_parker c' = ck_parker c"
  using assms btree.get_split_off [of "ck_alarms c" "(Suc now, 0)"] btree.ok_split_off [of "ck_alarms c" "(Suc now, 0)"]
  by (auto simp: extend_with_expired_def Let_def bt_split_off_def expired_key pending_key
      alarms_def clock_ok_def bt_into_values_def split: if_splits)

lemma expired_wakers:
  "clock_ok c \<Longrightarrow> set (map snd (filter (\<lambda>e. fst (fst e) \<le> now) (ck_alarms c))) =
     {w. \<exists>at i. at \<le> now \<and> alarms c (at, i) = Some w}"
  by (force simp: alarms_def clock_ok_def simp flip: bt_get_mem)

lemma extend_timeout:
  assumes "clock_ok c" and e: "extend_with_expired now ws c = (t, ws', c')"
  shows "t = None \<longleftrightarrow> alarms c = Map.empty"
    and "t = Some d \<Longrightarrow> alarms c (at, i) = Some w \<Longrightarrow> d \<le> at - now"
proof -
  let ?ready = "fst (bt_split_off (Suc now, 0) (ck_alarms c))"
  let ?later = "snd (bt_split_off (Suc now, 0) (ck_alarms c))"
  have get: "bt_get ?ready = (\<lambda>k. if fst k \<le> now then alarms c k else None)"
    "bt_get ?later = (\<lambda>k. if now < fst k then alarms c k else None)" and ok: "bt_ok ?later"
    using assms(1) btree.get_split_off [of "ck_alarms c" "(Suc now, 0)"]
      btree.ok_split_off [of "ck_alarms c" "(Suc now, 0)"]
    by (simp_all add: clock_ok_def alarms_def expired_key pending_key cong: if_cong)
  show "t = None \<longleftrightarrow> alarms c = Map.empty"
  proof -
    have "?ready = [] \<and> ?later = [] \<longleftrightarrow> ck_alarms c = []"
      by (cases "ck_alarms c") (auto simp: bt_split_off_def split: if_splits)
    moreover have "ck_alarms c = [] \<longleftrightarrow> alarms c = Map.empty" by (simp add: alarms_def bt_empty_conv)
    ultimately show ?thesis
      using e by (auto simp: extend_with_expired_def Let_def case_prod_unfold split: if_splits)
  qed
  assume t: "t = Some d" and w: "alarms c (at, i) = Some w"
  show "d \<le> at - now"
  proof (cases "?ready = []")
    case False
    then show ?thesis using e t by (auto simp: extend_with_expired_def Let_def case_prod_unfold)
  next
    case True
    then obtain a j where f: "bt_first_key ?later = Some (a, j)"
      and d: "d = from_millis (as_millis (a - now) mod 2 ^ 64)"
      using e t by (auto simp: extend_with_expired_def Let_def case_prod_unfold)
    have "now < at" using True w fun_cong [OF get(1), of "(at, i)"] by (auto split: if_splits)
    then have "bt_get ?later (at, i) \<noteq> None" using w get by simp
    then have "(a, j) \<le> (at, i)" using bt_first_key_least [OF ok f] by blast
    then have "a - now \<le> at - now" by (auto simp: less_eq_prod_def)
    moreover have "as_millis (a - now) mod 2 ^ 64 \<le> (a - now) div 1000000"
      unfolding as_millis_def by (rule mod_less_eq_dividend)
    ultimately show ?thesis unfolding d from_millis_def
      by (meson div_times_less_eq_dividend le_trans mult_le_mono1)
  qed
qed

section \<open>The clock is a parker\<close>

lemma clock_park_result:
  "clock_park P now c ws = (r, ws', c') \<Longrightarrow>
     \<exists>t ws1 c1 p. extend_with_expired now ws c = (t, ws1, c1) \<and> c' = c1\<lparr>ck_parker := p\<rparr> \<and>
       (case t of Some d \<Rightarrow> pk_park_timeout P (ck_parker c1) d ws1 | None \<Rightarrow> pk_park P (ck_parker c1) ws1) = (r, ws', p)"
  "clock_park_timeout P now c d ws = (r, ws', c') \<Longrightarrow>
     \<exists>t ws1 c1 p. extend_with_expired now ws c = (t, ws1, c1) \<and> c' = c1\<lparr>ck_parker := p\<rparr> \<and>
       pk_park_timeout P (ck_parker c1) (case t of Some e \<Rightarrow> min d e | None \<Rightarrow> d) ws1 = (r, ws', p)"
  by (auto simp: clock_park_def clock_park_timeout_def Let_def split: prod.splits)

lemma extend_with_expired_extends:
  "extend_with_expired now ws c = (t, ws', c') \<Longrightarrow> \<exists>new. ws' = ws @ new"
  by (auto simp: extend_with_expired_def Let_def case_prod_unfold split: if_splits)

context park_trait
begin

lemma clock_park_trait: "park_trait (clock_as_park P now)"
proof
  fix c ws r ws' c'
  assume "pk_park (clock_as_park P now) c ws = (r, ws', c')"
  then show "\<exists>new. ws' = ws @ new"
    using clock_park_result(1) [of P now c ws r ws' c']
    by (fastforce dest!: extend_with_expired_extends park_extends park_timeout_extends split: option.splits)
next
  fix c d ws r ws' c'
  assume "pk_park_timeout (clock_as_park P now) c d ws = (r, ws', c')"
  then show "\<exists>new. ws' = ws @ new"
    using clock_park_result(2) [of P now c d ws r ws' c']
    by (fastforce dest!: extend_with_expired_extends park_timeout_extends)
qed

text \<open>What one call of \<open>park\<close> does to the alarms, and whom it wakes.\<close>

lemma clock_park_spec:
  assumes "clock_ok c" and "clock_park P now c ws = (r, ws', c') \<or> clock_park_timeout P now c d ws = (r, ws', c')"
  shows "alarms c' = (\<lambda>k. if now < fst k then alarms c k else None)" and "clock_ok c'"
    and "ck_next_alarm c' = ck_next_alarm c"
    and "at \<le> now \<Longrightarrow> alarms c (at, i) = Some w \<Longrightarrow> w \<in> set ws'"
proof -
  obtain t ws1 c1 p where e: "extend_with_expired now ws c = (t, ws1, c1)" and c': "c' = c1\<lparr>ck_parker := p\<rparr>"
    and park: "\<exists>new. ws' = ws1 @ new"
    using assms(2) clock_park_result(1) [of P now c ws r ws' c'] clock_park_result(2) [of P now c d ws r ws' c']
    by (fastforce dest!: park_extends park_timeout_extends split: option.splits)
  from extend_with_expired_spec [OF assms(1) e] c'
  show "alarms c' = (\<lambda>k. if now < fst k then alarms c k else None)" and "clock_ok c'"
    and "ck_next_alarm c' = ck_next_alarm c" by simp_all
  assume "at \<le> now" and "alarms c (at, i) = Some w"
  then have "w \<in> set ws1"
    using extend_with_expired_spec(1) [OF assms(1) e] expired_wakers [OF assms(1), of now] by auto
  with park show "w \<in> set ws'" by auto
qed

end

interpretation logged_clock: park_trait "clock_as_park log_park now" for now
  by (rule logging.clock_park_trait)

end
