(* ===== verification/Util.thy ===== *)
theory Util
  imports Prelude
begin

text \<open>
  \<open>src/util.rs\<close>: the future \<open>poll_fn\<close> made of a closure. (The macro \<open>syscall!\<close> is in \<open>Sys\<close>, the
  function \<open>wake\<close> in \<open>Executor\<close>.)
\<close>

text \<open>
  An \<open>async fn\<close> that awaits its only future: each poll calls the closure, with the closure's own
  state \<open>'g\<close> and the state \<open>'x\<close> it works on. The compiler makes it panic when it is polled
  again after it completed.
\<close>

datatype 'g poll_fn = PollFn 'g | PollFnDone

fun poll_fn_poll ::
    "('g \<Rightarrow> 'w \<Rightarrow> 'x \<Rightarrow> ('a poll \<times> 'g \<times> 'x) m) \<Rightarrow> 'g poll_fn \<Rightarrow> 'w \<Rightarrow> 'x \<Rightarrow> ('a poll \<times> 'g poll_fn \<times> 'x) m" where
  "poll_fn_poll f (PollFn g) cx x =
     bindM (f g cx x) (\<lambda>(r, g, x). Ret (r, case r of Pending \<Rightarrow> PollFn g | Ready _ \<Rightarrow> PollFnDone, x))"
| "poll_fn_poll f PollFnDone cx x = Panic PolledAfterCompletion"

text \<open>The future is pending as long as its closure is, and then done.\<close>

lemma poll_fn_poll_Ret:
  assumes "poll_fn_poll f st cx x = Ret (r, st', x')"
  obtains g g' where "st = PollFn g" and "f g cx x = Ret (r, g', x')"
    and "st' = (case r of Pending \<Rightarrow> PollFn g' | Ready _ \<Rightarrow> PollFnDone)"
  using assms by (cases st) (auto simp: bindM_Ret_conv)

end
