(* ===== verification/Timer.thy ===== *)
theory Timer
  imports Clock Util
begin

text \<open>
  \<open>src/time.rs\<close>: the futures \<open>Sleep\<close>, \<open>Interval\<close> and \<open>Timeout\<close> on the clock of
  \<open>Clock\<close>. The runtime handle a \<open>Sleep\<close> carries is used for its clock only, which the
  operations take and return. The second part runs any number of sleeps on one clock while
  time passes and the runtime parks.
\<close>

section \<open>The code\<close>

record 'w sleep =
  sl_deadline :: instant
  sl_alarm :: "(usize \<times> 'w) option"

text \<open>\<open>sleep_until\<close> needs the runtime of the thread, here whether there is one.\<close>

definition sleep_until :: "bool \<Rightarrow> instant \<Rightarrow> 'w sleep m" where
  "sleep_until entered deadline =
     (if entered then Ret \<lparr>sl_deadline = deadline, sl_alarm = None\<rparr> else Panic NoRuntime)"

definition sleep_for :: "bool \<Rightarrow> instant \<Rightarrow> duration \<Rightarrow> 'w sleep m" where
  "sleep_for entered now d = sleep_until entered (now + d)"

definition sleep_reset :: "instant \<Rightarrow> 'w sleep \<Rightarrow> ('p, 'w) clock \<Rightarrow> ('w sleep \<times> ('p, 'w) clock) m" where
  "sleep_reset deadline sl c =
     bindM (case sl_alarm sl of
              Some (i, _) \<Rightarrow> reset_alarm i (sl_deadline sl) deadline c
            | None \<Rightarrow> Ret c)
       (\<lambda>c. Ret (sl\<lparr>sl_deadline := deadline\<rparr>, c))"

definition sleep_poll ::
    "bool \<Rightarrow> instant \<Rightarrow> 'w \<Rightarrow> 'w sleep \<Rightarrow> ('p, 'w) clock \<Rightarrow> (instant poll \<times> 'w sleep \<times> ('p, 'w) clock) m" where
  "sleep_poll oc now cx sl c =
     (if now \<ge> sl_deadline sl then Ret (Ready (sl_deadline sl), sl, c)
      else case sl_alarm sl of
          Some (i, waker) \<Rightarrow>
            if waker \<noteq> cx then
              bindM (replace_alarm_waker i (sl_deadline sl) cx c)
                (\<lambda>c. Ret (Pending, sl\<lparr>sl_alarm := Some (i, cx)\<rparr>, c))
            else Ret (Pending, sl, c)
        | None \<Rightarrow>
            bindM (insert_alarm oc (sl_deadline sl) cx c)
              (\<lambda>(i, c). Ret (Pending, sl\<lparr>sl_alarm := Some (i, cx)\<rparr>, c)))"

definition sleep_drop :: "'w sleep \<Rightarrow> ('p, 'w) clock \<Rightarrow> ('p, 'w) clock" where
  "sleep_drop sl c =
     (case sl_alarm sl of Some (i, _) \<Rightarrow> remove_alarm i (sl_deadline sl) c | None \<Rightarrow> c)"

record 'w interval =
  iv_sleep :: "'w sleep"
  iv_interval :: duration

definition interval_at :: "bool \<Rightarrow> instant \<Rightarrow> duration \<Rightarrow> 'w interval m" where
  "interval_at entered start d =
     bindM (sleep_until entered start) (\<lambda>sl. Ret \<lparr>iv_sleep = sl, iv_interval = d\<rparr>)"

definition interval_new :: "bool \<Rightarrow> instant \<Rightarrow> duration \<Rightarrow> 'w interval m" where
  "interval_new entered now d = interval_at entered now d"

text \<open>One poll of \<open>tick()\<close>, which reads the clock twice.\<close>

definition interval_tick_poll ::
    "bool \<Rightarrow> instant \<Rightarrow> instant \<Rightarrow> 'w \<Rightarrow> 'w interval \<Rightarrow> ('p, 'w) clock \<Rightarrow>
     (instant option poll \<times> 'w interval \<times> ('p, 'w) clock) m" where
  "interval_tick_poll oc now now2 cx iv c =
     bindM (sleep_poll oc now cx (iv_sleep iv) c) (\<lambda>(r, sl, c).
       case r of
         Pending \<Rightarrow> Ret (Pending, iv\<lparr>iv_sleep := sl\<rparr>, c)
       | Ready _ \<Rightarrow>
           bindM (sleep_reset (now2 + iv_interval iv) sl c)
             (\<lambda>(sl, c). Ret (Ready (Some (sl_deadline sl)), iv\<lparr>iv_sleep := sl\<rparr>, c)))"

text \<open>The future that \<open>tick\<close> returns awaits a \<open>poll_fn\<close> that borrows the interval.\<close>

definition interval_tick ::
    "bool \<Rightarrow> instant \<Rightarrow> instant \<Rightarrow> unit poll_fn \<Rightarrow> 'w \<Rightarrow> 'w interval \<times> ('p, 'w) clock \<Rightarrow>
     (instant option poll \<times> unit poll_fn \<times> 'w interval \<times> ('p, 'w) clock) m" where
  "interval_tick oc now now2 = poll_fn_poll (\<lambda>_ cx (iv, c).
     bindM (interval_tick_poll oc now now2 cx iv c) (\<lambda>(r, iv, c). Ret (r, (), iv, c)))"

text \<open>
  \<open>Timeout\<close>: the inner future is a parameter, a state with its poll function, which may
  use the clock as well.
\<close>

record ('f, 'w) timeout =
  to_future :: 'f
  to_sleep :: "'w sleep"

datatype timed_out = TimedOut

fun timed_out_debug :: "timed_out \<Rightarrow> string" where
  "timed_out_debug TimedOut = ''TimedOut''"

fun timed_out_display :: "timed_out \<Rightarrow> string" where
  "timed_out_display TimedOut = ''future timed out''"

definition timeout_at :: "bool \<Rightarrow> instant \<Rightarrow> 'f \<Rightarrow> ('f, 'w) timeout m" where
  "timeout_at entered deadline future =
     bindM (sleep_until entered deadline) (\<lambda>sl. Ret \<lparr>to_future = future, to_sleep = sl\<rparr>)"

definition timeout_for :: "bool \<Rightarrow> instant \<Rightarrow> duration \<Rightarrow> 'f \<Rightarrow> ('f, 'w) timeout m" where
  "timeout_for entered now d future = timeout_at entered (now + d) future"

definition timeout_poll ::
    "bool \<Rightarrow> ('w \<Rightarrow> 'f \<Rightarrow> ('p, 'w) clock \<Rightarrow> ('a poll \<times> 'f \<times> ('p, 'w) clock) m) \<Rightarrow> instant \<Rightarrow> 'w \<Rightarrow>
     ('f, 'w) timeout \<Rightarrow> ('p, 'w) clock \<Rightarrow> ((timed_out + 'a) poll \<times> ('f, 'w) timeout \<times> ('p, 'w) clock) m" where
  "timeout_poll oc fut_poll now cx t c =
     bindM (fut_poll cx (to_future t) c) (\<lambda>(r, f, c).
       case r of
         Ready v \<Rightarrow> Ret (Ready (Inr v), t\<lparr>to_future := f\<rparr>, c)
       | Pending \<Rightarrow>
           bindM (sleep_poll oc now cx (to_sleep t) c) (\<lambda>(r, sl, c).
             Ret (case r of Ready _ \<Rightarrow> Ready (Inl TimedOut) | Pending \<Rightarrow> Pending,
                  t\<lparr>to_future := f, to_sleep := sl\<rparr>, c)))"

section \<open>Sleeps on one clock\<close>

text \<open>
  The live sleeps by name, the present instant, and for each sleep the waker of its last
  \<open>Pending\<close> poll until that waker is called. Time never goes back. An alarm is set only
  while the clock has an identifier left, that is for the first \<open>2 ^ 64 - 1\<close> alarms.
\<close>

record ('p, 'w) timer_sys =
  t_clock :: "('p, 'w) clock"
  t_sleeps :: "nat \<Rightarrow> 'w sleep option"
  t_now :: instant
  t_wait :: "nat \<Rightarrow> 'w option"

definition timer_sys_new :: "'p \<Rightarrow> instant \<Rightarrow> ('p, 'w) timer_sys" where
  "timer_sys_new p now = \<lparr>t_clock = clock_new p, t_sleeps = Map.empty, t_now = now, t_wait = Map.empty\<rparr>"

definition after_calls :: "'w list \<Rightarrow> (nat \<Rightarrow> 'w option) \<Rightarrow> nat \<Rightarrow> 'w option" where
  "after_calls out wait f = (case wait f of Some w \<Rightarrow> if w \<in> set out then None else Some w | None \<Rightarrow> None)"

inductive timer_step :: "bool \<Rightarrow> ('p, 'w) park_api \<Rightarrow>
    ('p, 'w) timer_sys \<Rightarrow> 'w list \<Rightarrow> ('p, 'w) timer_sys \<Rightarrow> bool" for oc P where
  time: "t_now y \<le> now \<Longrightarrow> timer_step oc P y [] (y\<lparr>t_now := now\<rparr>)"
| create: "t_sleeps y f = None \<Longrightarrow> sleep_until True deadline = Ret sl \<Longrightarrow>
     timer_step oc P y [] (y\<lparr>t_sleeps := (t_sleeps y)(f \<mapsto> sl), t_wait := (t_wait y)(f := None)\<rparr>)"
| poll: "t_sleeps y f = Some sl \<Longrightarrow> ck_next_alarm (t_clock y) \<noteq> - 1 \<Longrightarrow>
     sleep_poll oc (t_now y) cx sl (t_clock y) = Ret (r, sl', c) \<Longrightarrow>
     timer_step oc P y [] (y\<lparr>t_clock := c, t_sleeps := (t_sleeps y)(f \<mapsto> sl'),
       t_wait := (t_wait y)(f := (case r of Pending \<Rightarrow> Some cx | Ready _ \<Rightarrow> None))\<rparr>)"
| reset: "t_sleeps y f = Some sl \<Longrightarrow> sleep_reset deadline sl (t_clock y) = Ret (sl', c) \<Longrightarrow>
     timer_step oc P y [] (y\<lparr>t_clock := c, t_sleeps := (t_sleeps y)(f \<mapsto> sl')\<rparr>)"
| drop_sleep: "t_sleeps y f = Some sl \<Longrightarrow>
     timer_step oc P y [] (y\<lparr>t_clock := sleep_drop sl (t_clock y),
       t_sleeps := (t_sleeps y)(f := None), t_wait := (t_wait y)(f := None)\<rparr>)"
| park: "clock_park P (t_now y) (t_clock y) [] = (r, out, c) \<Longrightarrow>
     timer_step oc P y out (y\<lparr>t_clock := c, t_wait := after_calls out (t_wait y)\<rparr>)"
| park_timeout: "clock_park_timeout P (t_now y) (t_clock y) d [] = (r, out, c) \<Longrightarrow>
     timer_step oc P y out (y\<lparr>t_clock := c, t_wait := after_calls out (t_wait y)\<rparr>)"

inductive timer_reach :: "bool \<Rightarrow> ('p, 'w) park_api \<Rightarrow> ('p, 'w) timer_sys \<Rightarrow> bool" for oc P where
  init: "timer_reach oc P (timer_sys_new p now)"
| step: "timer_reach oc P y \<Longrightarrow> timer_step oc P y out y' \<Longrightarrow> timer_reach oc P y'"

text \<open>
  The invariant: the alarm of a live sleep is registered with the sleep's waker, or it was
  delivered, which only happens after the deadline; identifiers are not shared; a registered
  alarm belongs to a live sleep; a sleep that waits is registered.
\<close>

definition delivered :: "('p, 'w) clock \<Rightarrow> 'w sleep \<Rightarrow> bool" where
  "delivered c sl = (\<exists>i w. sl_alarm sl = Some (i, w) \<and> alarms c (sl_deadline sl, i) = None)"

definition sleep_inv :: "('p, 'w) clock \<Rightarrow> instant \<Rightarrow> 'w sleep \<Rightarrow> bool" where
  "sleep_inv c now sl = (\<forall>i w. sl_alarm sl = Some (i, w) \<longrightarrow> i < ck_next_alarm c \<and>
      (alarms c (sl_deadline sl, i) = Some w \<or>
       alarms c (sl_deadline sl, i) = None \<and> sl_deadline sl \<le> now))"

definition timer_inv :: "('p, 'w) timer_sys \<Rightarrow> bool" where
  "timer_inv y \<longleftrightarrow>
     clock_ok (t_clock y) \<and>
     (\<forall>f sl. t_sleeps y f = Some sl \<longrightarrow> sleep_inv (t_clock y) (t_now y) sl) \<and>
     (\<forall>f g sl sl' i w w'. t_sleeps y f = Some sl \<longrightarrow> t_sleeps y g = Some sl' \<longrightarrow>
        sl_alarm sl = Some (i, w) \<longrightarrow> sl_alarm sl' = Some (i, w') \<longrightarrow> f = g) \<and>
     (\<forall>at i w. alarms (t_clock y) (at, i) = Some w \<longrightarrow>
        (\<exists>f sl. t_sleeps y f = Some sl \<and> sl_deadline sl = at \<and> sl_alarm sl = Some (i, w))) \<and>
     (\<forall>f w. t_wait y f = Some w \<longrightarrow>
        (\<exists>sl i. t_sleeps y f = Some sl \<and> sl_alarm sl = Some (i, w) \<and>
           alarms (t_clock y) (sl_deadline sl, i) = Some w))"

lemma sleep_inv_mono: "sleep_inv c now sl \<Longrightarrow> now \<le> now2 \<Longrightarrow> sleep_inv c now2 sl"
  unfolding sleep_inv_def by (meson le_trans)

lemma timer_inv_new: "timer_inv (timer_sys_new p now)"
  by (simp add: timer_inv_def timer_sys_new_def)

lemma timer_invD:
  assumes "timer_inv y"
  shows "clock_ok (t_clock y)"
    and "t_sleeps y f = Some sl \<Longrightarrow> sl_alarm sl = Some (i, w) \<Longrightarrow> i < ck_next_alarm (t_clock y)"
    and "t_sleeps y f = Some sl \<Longrightarrow> sl_alarm sl = Some (i, w) \<Longrightarrow>
          alarms (t_clock y) (sl_deadline sl, i) = Some w \<or>
          alarms (t_clock y) (sl_deadline sl, i) = None \<and> sl_deadline sl \<le> t_now y"
    and "t_sleeps y f = Some sl \<Longrightarrow> t_sleeps y g = Some sl' \<Longrightarrow>
          sl_alarm sl = Some (i, w) \<Longrightarrow> sl_alarm sl' = Some (i, w') \<Longrightarrow> f = g"
    and "alarms (t_clock y) (at, i) = Some w \<Longrightarrow>
          \<exists>f sl. t_sleeps y f = Some sl \<and> sl_deadline sl = at \<and> sl_alarm sl = Some (i, w)"
    and "t_wait y f = Some w \<Longrightarrow>
          \<exists>sl i. t_sleeps y f = Some sl \<and> sl_alarm sl = Some (i, w) \<and>
            alarms (t_clock y) (sl_deadline sl, i) = Some w"
  using assms unfolding timer_inv_def sleep_inv_def by blast+

text \<open>
  One sleep changes, with its own alarm only: \<open>so\<close> is what becomes of sleep \<open>f\<close> (\<open>None\<close>
  when it is dropped), \<open>wt\<close> the waker it waits under.
\<close>

definition ids :: "'w sleep \<Rightarrow> usize set" where
  "ids sl = {i. \<exists>w. sl_alarm sl = Some (i, w)}"

lemma timer_inv_update:
  assumes inv: "timer_inv y" and f: "t_sleeps y f = Some sl"
    and ok: "clock_ok c'" and nxt: "ck_next_alarm (t_clock y) \<le> ck_next_alarm c'"
    and others: "\<And>at j. j \<notin> ids sl \<Longrightarrow> (\<forall>sl'. so = Some sl' \<longrightarrow> j \<notin> ids sl') \<Longrightarrow>
        alarms c' (at, j) = alarms (t_clock y) (at, j)"
    and own: "\<And>at j w. j \<in> ids sl \<or> (\<exists>sl'. so = Some sl' \<and> j \<in> ids sl') \<Longrightarrow> alarms c' (at, j) = Some w \<Longrightarrow>
        (\<exists>sl'. so = Some sl' \<and> sl_deadline sl' = at \<and> sl_alarm sl' = Some (j, w))"
    and new: "\<And>sl'. so = Some sl' \<Longrightarrow> sleep_inv c' (t_now y) sl' \<and>
        (\<forall>j \<in> ids sl'. j \<in> ids sl \<or> ck_next_alarm (t_clock y) \<le> j)"
    and wait: "\<And>w. wt = Some w \<Longrightarrow> \<exists>sl' i. so = Some sl' \<and> sl_alarm sl' = Some (i, w) \<and>
        alarms c' (sl_deadline sl', i) = Some w"
  shows "timer_inv (y\<lparr>t_clock := c', t_sleeps := (t_sleeps y)(f := so), t_wait := (t_wait y)(f := wt)\<rparr>)"
proof -
  note I = timer_invD [OF inv]
  have fresh: "j \<notin> ids sl" "\<forall>sl'. so = Some sl' \<longrightarrow> j \<notin> ids sl'" "j < ck_next_alarm (t_clock y)"
    if "t_sleeps y g = Some sg" "g \<noteq> f" "sl_alarm sg = Some (j, w)" for g sg j w
  proof -
    show n: "j < ck_next_alarm (t_clock y)" using that I(2) by blast
    show j: "j \<notin> ids sl" using that f I(4) by (auto simp: ids_def)
    show "\<forall>sl'. so = Some sl' \<longrightarrow> j \<notin> ids sl'" using n j new by force
  qed
  have keep: "alarms c' (at, j) = alarms (t_clock y) (at, j)"
    if "t_sleeps y g = Some sg" "g \<noteq> f" "sl_alarm sg = Some (j, w)" for g sg j w at
    using others fresh [OF that] by blast
  have a: "sleep_inv c' (t_now y) sg" if g: "((t_sleeps y)(f := so)) g = Some sg" for g sg
  proof (cases "g = f")
    case True
    then show ?thesis using g new by simp
  next
    case False
    then have g': "t_sleeps y g = Some sg" using g by simp
    show ?thesis
      unfolding sleep_inv_def
    proof (intro allI impI)
      fix i w
      assume i: "sl_alarm sg = Some (i, w)"
      show "i < ck_next_alarm c' \<and> (alarms c' (sl_deadline sg, i) = Some w \<or>
          alarms c' (sl_deadline sg, i) = None \<and> sl_deadline sg \<le> t_now y)"
        using keep [OF g' False i, of "sl_deadline sg"] I(2,3) [OF g' i] nxt by auto
    qed
  qed
  have b: "g = h" if g: "((t_sleeps y)(f := so)) g = Some sg" "sl_alarm sg = Some (i, w)"
    and h: "((t_sleeps y)(f := so)) h = Some sh" "sl_alarm sh = Some (i, w')" for g h sg sh i w w'
  proof (cases "g = f \<or> h = f")
    case True
    then show ?thesis using g h fresh(2) [of g sg i w] fresh(2) [of h sh i w']
      by (auto simp: ids_def split: if_splits)
  next
    case False
    then show ?thesis using g h I(4) by simp
  qed
  have c: "\<exists>g sg. ((t_sleeps y)(f := so)) g = Some sg \<and> sl_deadline sg = at \<and> sl_alarm sg = Some (i, w)"
    if a: "alarms c' (at, i) = Some w" for at i w
  proof (cases "i \<in> ids sl \<or> (\<exists>sl'. so = Some sl' \<and> i \<in> ids sl')")
    case True
    then show ?thesis using own [OF _ a] by auto
  next
    case False
    then have "alarms (t_clock y) (at, i) = Some w" using others [of i at] a by auto
    then obtain g sg where g: "t_sleeps y g = Some sg" "sl_deadline sg = at" "sl_alarm sg = Some (i, w)"
      using I(5) by blast
    with False f have "g \<noteq> f" by (auto simp: ids_def)
    with g show ?thesis by (intro exI [of _ g]) simp
  qed
  have d: "\<exists>sg i. ((t_sleeps y)(f := so)) g = Some sg \<and> sl_alarm sg = Some (i, w) \<and>
      alarms c' (sl_deadline sg, i) = Some w"
    if w: "((t_wait y)(f := wt)) g = Some w" for g w
  proof (cases "g = f")
    case True
    then show ?thesis using w wait by simp
  next
    case False
    then obtain sg i where "t_sleeps y g = Some sg" "sl_alarm sg = Some (i, w)"
      "alarms (t_clock y) (sl_deadline sg, i) = Some w" using w I(6) [of g w] by auto
    with False keep show ?thesis by auto
  qed
  let ?y = "y\<lparr>t_clock := c', t_sleeps := (t_sleeps y)(f := so), t_wait := (t_wait y)(f := wt)\<rparr>"
  have y: "t_clock ?y = c'" "t_sleeps ?y = (t_sleeps y)(f := so)" "t_now ?y = t_now y"
    "t_wait ?y = (t_wait y)(f := wt)" by simp_all
  show ?thesis unfolding timer_inv_def y
    by (intro conjI allI impI) (rule ok, erule a, erule (3) b, erule c, erule d)
qed

text \<open>An alarm under the identifier of a live sleep is that sleep's; identifiers ahead are free.\<close>

lemma timer_owner:
  assumes inv: "timer_inv y" and f: "t_sleeps y f = Some sl" "sl_alarm sl = Some (i, v)"
    and a: "alarms (t_clock y) (at, i) = Some w"
  shows "at = sl_deadline sl \<and> w = v"
proof -
  obtain g sg where g: "t_sleeps y g = Some sg" "sl_deadline sg = at" "sl_alarm sg = Some (i, w)"
    using timer_invD(5) [OF inv a] by blast
  then have "g = f" using timer_invD(4) [OF inv _ f(1) _ f(2)] by blast
  with f g show ?thesis by simp
qed

lemma alarm_id_used:
  assumes inv: "timer_inv y" and a: "alarms (t_clock y) (at, i) = Some w"
  shows "i < ck_next_alarm (t_clock y)"
  using timer_invD(5) [OF inv a] timer_invD(2) [OF inv] by blast

lemma sleep_poll_Ready:
  "sleep_poll oc now cx sl c = Ret (Ready d, sl', c') \<longleftrightarrow>
     sl_deadline sl \<le> now \<and> d = sl_deadline sl \<and> sl' = sl \<and> c' = c"
  by (auto simp: sleep_poll_def bindM_Ret_conv split: option.splits if_splits)

text \<open>What a \<open>Pending\<close> poll did: the alarm is there, under the poll's waker.\<close>

lemma sleep_poll_PendingE:
  assumes p: "sleep_poll oc now cx sl c = Ret (Pending, sl', c')" and ok: "clock_ok c"
    and inv: "sleep_inv c now sl" and room: "ck_next_alarm c \<noteq> - 1"
  obtains i where "sl' = sl\<lparr>sl_alarm := Some (i, cx)\<rparr>" and "now < sl_deadline sl"
    and "alarms c' = (alarms c)((sl_deadline sl, i) \<mapsto> cx)" and "clock_ok c'"
    and "ids sl = {i} \<or> i = ck_next_alarm c \<and> ids sl = {}"
    and "i < ck_next_alarm c'" and "ck_next_alarm c \<le> ck_next_alarm c'"
proof (cases "sl_alarm sl")
  case None
  have n: "ck_next_alarm c < ck_next_alarm c + 1"
    using word_room(2) [OF room] .
  obtain i where i: "insert_alarm oc (sl_deadline sl) cx c = Ret (i, c')"
    and "sl' = sl\<lparr>sl_alarm := Some (i, cx)\<rparr>" "now < sl_deadline sl"
    using p None by (auto simp: sleep_poll_def bindM_Ret_conv split: if_splits)
  with insert_alarm_Ret [OF ok i] None n show ?thesis by (intro that [of i]) (auto simp: ids_def)
next
  case (Some a)
  obtain i w where a: "sl_alarm sl = Some (i, w)" using Some by (cases a) simp
  have now: "now < sl_deadline sl" using p by (auto simp: sleep_poll_def split: if_splits)
  have reg: "alarms c (sl_deadline sl, i) = Some w" "i < ck_next_alarm c"
    using inv a now by (auto simp: sleep_inv_def)
  show ?thesis
  proof (cases "w = cx")
    case True
    then have "sl' = sl" "c' = c" using p a now by (simp_all add: sleep_poll_def)
    with a True now reg ok show ?thesis by (intro that [of i]) (auto simp: ids_def)
  next
    case False
    then have r: "replace_alarm_waker i (sl_deadline sl) cx c = Ret c'" and "sl' = sl\<lparr>sl_alarm := Some (i, cx)\<rparr>"
      using p a now by (auto simp: sleep_poll_def bindM_Ret_conv)
    with replace_alarm_waker_Ret [OF ok r] a now reg show ?thesis
      by (intro that [of i]) (auto simp: ids_def)
  qed
qed

lemma sleep_poll_returns:
  assumes inv: "sleep_inv c now sl" and room: "ck_next_alarm c \<noteq> - 1"
  shows "returns (sleep_poll oc now cx sl c)"
proof (cases "sl_alarm sl")
  case None
  then show ?thesis using insert_alarm_returns [OF word_room(1) [OF room], of oc "sl_deadline sl" cx]
    by (auto simp: sleep_poll_def returns_conv)
next
  case (Some a)
  obtain i w where a: "sl_alarm sl = Some (i, w)" using Some by (cases a) simp
  then show ?thesis
    using inv replace_alarm_waker_returns [of i "sl_deadline sl" cx c]
    by (cases "replace_alarm_waker i (sl_deadline sl) cx c")
      (auto simp: sleep_poll_def sleep_inv_def returns_conv)
qed

lemma timer_step_poll:
  assumes inv: "timer_inv y" and f: "t_sleeps y f = Some sl" and room: "ck_next_alarm (t_clock y) \<noteq> - 1"
    and p: "sleep_poll oc (t_now y) cx sl (t_clock y) = Ret (r, sl', c)"
  shows "timer_inv (y\<lparr>t_clock := c, t_sleeps := (t_sleeps y)(f \<mapsto> sl'),
       t_wait := (t_wait y)(f := (case r of Pending \<Rightarrow> Some cx | Ready _ \<Rightarrow> None))\<rparr>)"
proof -
  have ok: "clock_ok (t_clock y)" and s: "sleep_inv (t_clock y) (t_now y) sl"
    using inv f by (auto simp: timer_inv_def)
  show ?thesis
  proof (cases r)
    case (Ready d)
    with p have "sl' = sl" "c = t_clock y" by (simp_all add: sleep_poll_Ready)
    with Ready ok s show ?thesis
      by (intro timer_inv_update [OF inv f]) (auto simp: ids_def dest: timer_owner [OF inv f])
  next
    case Pending
    obtain i where sl': "sl' = sl\<lparr>sl_alarm := Some (i, cx)\<rparr>"
      and al: "alarms c = (alarms (t_clock y))((sl_deadline sl, i) \<mapsto> cx)" and "clock_ok c"
      and i: "ids sl = {i} \<or> i = ck_next_alarm (t_clock y) \<and> ids sl = {}"
      and n: "i < ck_next_alarm c" "ck_next_alarm (t_clock y) \<le> ck_next_alarm c"
      using p [unfolded Pending] ok s room by (rule sleep_poll_PendingE)
    have own: "at = sl_deadline sl" if "alarms (t_clock y) (at, i) = Some w" for at w
      using i that timer_owner [OF inv f _ that] alarm_id_used [OF inv that] by (auto simp: ids_def)
    show ?thesis unfolding Pending poll.case
    proof (rule timer_inv_update [OF inv f \<open>clock_ok c\<close> n(2)])
      show "sleep_inv c (t_now y) sl'' \<and> (\<forall>j \<in> ids sl''. j \<in> ids sl \<or> ck_next_alarm (t_clock y) \<le> j)"
        if "Some sl' = Some sl''" for sl''
        using that sl' al n i by (auto simp: ids_def sleep_inv_def)
    qed (use sl' al i own in \<open>auto simp: ids_def split: if_splits\<close>)
  qed
qed

lemma sleep_reset_cases:
  assumes ok: "clock_ok c"
  shows "delivered c sl \<Longrightarrow> sleep_reset d sl c = Panic UnwrapNone"
    and "\<not> delivered c sl \<Longrightarrow> \<exists>c'. sleep_reset d sl c = Ret (sl\<lparr>sl_deadline := d\<rparr>, c')"
proof -
  assume "delivered c sl"
  then show "sleep_reset d sl c = Panic UnwrapNone"
    using reset_alarm_None [OF ok] by (auto simp: delivered_def sleep_reset_def)
next
  assume n: "\<not> delivered c sl"
  show "\<exists>c'. sleep_reset d sl c = Ret (sl\<lparr>sl_deadline := d\<rparr>, c')"
  proof (cases "sl_alarm sl")
    case None
    then show ?thesis by (simp add: sleep_reset_def)
  next
    case (Some a)
    with n obtain i w where a: "a = (i, w)" and "alarms c (sl_deadline sl, i) \<noteq> None"
      by (cases a) (auto simp: delivered_def)
    then obtain v where v: "alarms c (sl_deadline sl, i) = Some v" by auto
    obtain c' where "reset_alarm i (sl_deadline sl) d c = Ret c'" by (rule reset_alarm_Some [OF ok v])
    with Some a show ?thesis by (simp add: sleep_reset_def)
  qed
qed

lemma timer_step_reset:
  assumes inv: "timer_inv y" and f: "t_sleeps y f = Some sl"
    and p: "sleep_reset d sl (t_clock y) = Ret (sl', c)"
  shows "timer_inv (y\<lparr>t_clock := c, t_sleeps := (t_sleeps y)(f \<mapsto> sl'), t_wait := (t_wait y)(f := t_wait y f)\<rparr>)"
proof -
  have ok: "clock_ok (t_clock y)" and s: "sleep_inv (t_clock y) (t_now y) sl"
    using inv f by (auto simp: timer_inv_def)
  show ?thesis
  proof (cases "sl_alarm sl")
    case None
    then have "t_wait y f = None" using timer_invD(6) [OF inv, of f] f by (cases "t_wait y f") auto
    moreover have "sl' = sl\<lparr>sl_deadline := d\<rparr>" "c = t_clock y" using p None by (simp_all add: sleep_reset_def)
    ultimately show ?thesis using None ok
      by (intro timer_inv_update [OF inv f]) (auto simp: ids_def sleep_inv_def)
  next
    case (Some a)
    obtain i w where a: "sl_alarm sl = Some (i, w)" using Some by (cases a) simp
    have reg: "alarms (t_clock y) (sl_deadline sl, i) = Some w"
      using sleep_reset_cases(1) [OF ok, of sl d] p s a by (auto simp: delivered_def sleep_inv_def)
    obtain c0 where c0: "reset_alarm i (sl_deadline sl) d (t_clock y) = Ret c0" "clock_ok c0"
      and al: "alarms c0 = ((alarms (t_clock y))((sl_deadline sl, i) := None))((d, i) \<mapsto> w)"
      and n: "ck_next_alarm c0 = ck_next_alarm (t_clock y)"
      by (rule reset_alarm_Some [OF ok reg])
    from p a c0 have c: "c = c0" "sl' = sl\<lparr>sl_deadline := d\<rparr>" by (simp_all add: sleep_reset_def)
    have i: "i < ck_next_alarm (t_clock y)" using s a by (simp add: sleep_inv_def)
    have own: "at = sl_deadline sl" if "alarms (t_clock y) (at, i) = Some v" for at v
      using timer_owner [OF inv f a that] by simp
    have w: "v = w" if "t_wait y f = Some v" for v using timer_invD(6) [OF inv that] f a by auto
    show ?thesis
    proof (rule timer_inv_update [OF inv f])
      show "sleep_inv c (t_now y) sl'' \<and> (\<forall>j \<in> ids sl''. j \<in> ids sl \<or> ck_next_alarm (t_clock y) \<le> j)"
        if "Some sl' = Some sl''" for sl''
        using that c al n i a by (auto simp: ids_def sleep_inv_def)
    qed (use c c0 al n a own w in \<open>auto simp: ids_def split: if_splits\<close>)
  qed
qed

lemma timer_step_drop:
  assumes inv: "timer_inv y" and f: "t_sleeps y f = Some sl"
  shows "timer_inv (y\<lparr>t_clock := sleep_drop sl (t_clock y),
       t_sleeps := (t_sleeps y)(f := None), t_wait := (t_wait y)(f := None)\<rparr>)"
proof -
  have ok: "clock_ok (t_clock y)" by (rule timer_invD(1) [OF inv])
  show ?thesis
  proof (cases "sl_alarm sl")
    case None
    then show ?thesis using ok
      by (intro timer_inv_update [OF inv f]) (auto simp: ids_def sleep_drop_def)
  next
    case (Some a)
    obtain i w where a: "sl_alarm sl = Some (i, w)" using Some by (cases a) simp
    have own: "at = sl_deadline sl" if "alarms (t_clock y) (at, i) = Some v" for at v
      using timer_owner [OF inv f a that] by simp
    show ?thesis
      by (rule timer_inv_update [OF inv f])
        (use a own in \<open>auto simp: ids_def sleep_drop_def remove_alarm_simps [OF ok] split: if_splits\<close>)
  qed
qed

context park_trait
begin

lemma timer_step_park:
  assumes inv: "timer_inv y"
    and p: "clock_park P (t_now y) (t_clock y) [] = (r, out, c) \<or> clock_park_timeout P (t_now y) (t_clock y) d [] = (r, out, c)"
  shows "timer_inv (y\<lparr>t_clock := c, t_wait := after_calls out (t_wait y)\<rparr>)"
proof -
  note I = timer_invD [OF inv]
  note S = clock_park_spec [OF I(1) p]
  let ?y = "y\<lparr>t_clock := c, t_wait := after_calls out (t_wait y)\<rparr>"
  have y: "t_clock ?y = c" "t_sleeps ?y = t_sleeps y" "t_now ?y = t_now y"
    "t_wait ?y = after_calls out (t_wait y)" by simp_all
  have a: "sleep_inv c (t_now y) sl" if f: "t_sleeps y f = Some sl" for f sl
    unfolding sleep_inv_def
  proof (intro allI impI)
    fix i w
    assume i: "sl_alarm sl = Some (i, w)"
    show "i < ck_next_alarm c \<and> (alarms c (sl_deadline sl, i) = Some w \<or>
        alarms c (sl_deadline sl, i) = None \<and> sl_deadline sl \<le> t_now y)"
      using I(2,3) [OF f i] S(1,3) by auto
  qed
  have d: "\<exists>sl i. t_sleeps y f = Some sl \<and> sl_alarm sl = Some (i, w) \<and> alarms c (sl_deadline sl, i) = Some w"
    if w: "after_calls out (t_wait y) f = Some w" for f w
  proof -
    have wy: "t_wait y f = Some w" and no: "w \<notin> set out"
      using w by (auto simp: after_calls_def split: option.splits if_splits)
    obtain sl i where sl: "t_sleeps y f = Some sl" "sl_alarm sl = Some (i, w)"
      "alarms (t_clock y) (sl_deadline sl, i) = Some w" using I(6) [OF wy] by blast
    with no S(4) [of "sl_deadline sl" i w] have "\<not> sl_deadline sl \<le> t_now y" by blast
    with sl S(1) show ?thesis by auto
  qed
  have c: "\<exists>f sl. t_sleeps y f = Some sl \<and> sl_deadline sl = at \<and> sl_alarm sl = Some (i, w)"
    if "alarms c (at, i) = Some w" for at i w
    using that S(1) I(5) [of at i w] by (simp split: if_splits)
  show ?thesis unfolding timer_inv_def y
    by (intro conjI allI impI) (rule S(2), erule a, erule (3) I(4), erule c, erule d)
qed

lemma timer_step_inv:
  assumes "timer_step oc P y out y'" and inv: "timer_inv y"
  shows "timer_inv y'"
  using assms(1)
proof (cases rule: timer_step.cases)
  case (time now)
  then show ?thesis using inv sleep_inv_mono [OF _ time(3)] unfolding timer_inv_def by simp blast
next
  case (create f deadline sl)
  then have sl: "sl_alarm sl = None" by (auto simp: sleep_until_def)
  show ?thesis unfolding create(2) using create(3) sl inv
    by (auto simp: timer_inv_def sleep_inv_def) (metis option.distinct(1))+
next
  case (poll f sl cx r sl' c)
  then show ?thesis using timer_step_poll [OF inv] by simp
next
  case (reset f sl deadline sl' c)
  then show ?thesis using timer_step_reset [OF inv, of f sl deadline sl' c] by simp
next
  case (drop_sleep f sl)
  then show ?thesis using timer_step_drop [OF inv] by simp
next
  case (park r c)
  then show ?thesis using timer_step_park [OF inv, of r out c] by simp
next
  case (park_timeout d r c)
  then show ?thesis using timer_step_park [OF inv, of r out c d] by simp
qed

lemma timer_reach_inv: "timer_reach oc P y \<Longrightarrow> timer_inv y"
  by (induction rule: timer_reach.induct) (auto intro: timer_inv_new timer_step_inv)

end

end
