(* ===== verification/Timer_Properties.thy ===== *)
theory Timer_Properties
  imports Timer
begin

text \<open>
  What the clock and the timer futures guarantee, in every state that sleeps on one clock can
  reach, whatever the inner parker does within the contract of \<open>Park\<close>.
\<close>

section \<open>A concrete run\<close>

text \<open>
  One sleep of 1.5 ms, polled at once by waker 7; then time passes, to 0.6 ms or beyond the
  deadline, and in the last state the runtime has parked once after the deadline.
\<close>

definition ex_asleep :: "instant \<Rightarrow> (duration option list, nat) timer_sys" where
  "ex_asleep now = \<lparr>t_clock = \<lparr>ck_parker = [], ck_next_alarm = 1, ck_alarms = [((1500000, 0), 7)]\<rparr>,
     t_sleeps = [1 \<mapsto> \<lparr>sl_deadline = 1500000, sl_alarm = Some (0, 7)\<rparr>], t_now = now, t_wait = [1 \<mapsto> 7]\<rparr>"

definition ex_delivered :: "(duration option list, nat) timer_sys" where
  "ex_delivered = \<lparr>t_clock = \<lparr>ck_parker = [Some 0], ck_next_alarm = 1, ck_alarms = []\<rparr>,
     t_sleeps = [1 \<mapsto> \<lparr>sl_deadline = 1500000, sl_alarm = Some (0, 7)\<rparr>], t_now = 2000000, t_wait = Map.empty\<rparr>"

lemmas timer_eval = timer_sys_new_def clock_new_def sleep_until_def sleep_poll_def insert_alarm_def
  usize_add_def sleep_reset_def reset_alarm_def bt_remove_def extend_with_expired_def bt_split_off_def
  bt_first_key_def bt_into_values_def clock_park_def Let_def

lemma ex_asleep_reach: "timer_reach oc log_park (ex_asleep now)"
proof -
  let ?y0 = "timer_sys_new [] 0 :: (duration option list, nat) timer_sys"
  let ?y1 = "?y0\<lparr>t_sleeps := [1 \<mapsto> \<lparr>sl_deadline = 1500000, sl_alarm = None\<rparr>]\<rparr>"
  have "timer_step oc log_park ?y0 [] ?y1"
    using timer_step.create [of ?y0 1 1500000 "\<lparr>sl_deadline = 1500000, sl_alarm = None\<rparr>" oc log_park]
    by (simp add: timer_eval)
  with timer_reach.init have "timer_reach oc log_park ?y1" by (rule timer_reach.step)
  moreover have "timer_step oc log_park ?y1 [] (ex_asleep 0)"
    using timer_step.poll [of ?y1 1 "\<lparr>sl_deadline = 1500000, sl_alarm = None\<rparr>" oc 7 Pending _ _ log_park]
    by (simp add: timer_eval ex_asleep_def)
  ultimately have "timer_reach oc log_park (ex_asleep 0)" by (rule timer_reach.step)
  moreover have "timer_step oc log_park (ex_asleep 0) [] (ex_asleep now)"
    using timer_step.time [of "ex_asleep 0" now oc log_park] by (simp add: ex_asleep_def)
  ultimately show ?thesis by (rule timer_reach.step)
qed

lemma ex_delivered_reach: "timer_reach oc log_park ex_delivered"
proof -
  have "after_calls [7] [1 \<mapsto> 7] = (\<lambda>_. None :: nat option)" by (simp add: after_calls_def fun_eq_iff)
  then have "timer_step oc log_park (ex_asleep 2000000) [7] ex_delivered"
    using timer_step.park [of log_park "ex_asleep 2000000" "Inr ()" "[7]" "t_clock ex_delivered" oc]
    by (simp add: timer_eval ex_asleep_def ex_delivered_def less_prod_def)
  with ex_asleep_reach show ?thesis by (rule timer_reach.step)
qed

section \<open>Sleeping\<close>

text \<open>
  Polling a live sleep never panics. It is ready from the deadline on, never earlier, with
  the deadline as its value; before, it is pending and leaves an alarm for the deadline in the
  clock, under the waker of this very poll.
\<close>

theorem sleep_poll_result:
  assumes "park_trait P" and "timer_reach oc P y" and "t_sleeps y f = Some sl"
    and "ck_next_alarm (t_clock y) \<noteq> - 1"
  shows "if sl_deadline sl \<le> t_now y
    then sleep_poll oc (t_now y) cx sl (t_clock y) = Ret (Ready (sl_deadline sl), sl, t_clock y)
    else \<exists>i c. sleep_poll oc (t_now y) cx sl (t_clock y) = Ret (Pending, sl\<lparr>sl_alarm := Some (i, cx)\<rparr>, c) \<and>
           alarms c (sl_deadline sl, i) = Some cx"
proof (cases "sl_deadline sl \<le> t_now y")
  case False
  have inv: "timer_inv y" by (rule park_trait.timer_reach_inv [OF assms(1,2)])
  then have s: "clock_ok (t_clock y)" "sleep_inv (t_clock y) (t_now y) sl"
    using assms(3) by (auto simp: timer_inv_def)
  have "returns (sleep_poll oc (t_now y) cx sl (t_clock y))"
    using sleep_poll_returns [OF s(2) assms(4)] .
  with False obtain sl' c where p: "sleep_poll oc (t_now y) cx sl (t_clock y) = Ret (Pending, sl', c)"
    unfolding returns_conv by (metis poll.exhaust prod_cases3 sleep_poll_Ready)
  from p s assms(4) show ?thesis
    by (rule sleep_poll_PendingE) (use False p in auto)
qed (simp add: sleep_poll_def)

theorem sleep_poll_result_witness:
  "sleep_poll True 2000000 8 \<lparr>sl_deadline = 1500000, sl_alarm = Some (0, 7)\<rparr> (t_clock ex_delivered) =
     Ret (Ready 1500000, \<lparr>sl_deadline = 1500000, sl_alarm = Some (0, 7 :: nat)\<rparr>, t_clock ex_delivered)"
  using sleep_poll_result [OF logging.park_trait_axioms ex_delivered_reach, of 1 _ True 8]
  by (simp add: ex_delivered_def)



text \<open>
  Parking delivers exactly the expired alarms: the wakers it adds are those of the alarms
  whose deadline has passed, in the order of their deadlines, and exactly these alarms leave
  the clock.
\<close>

theorem clock_expires_exactly:
  assumes "park_trait P" and "timer_reach oc P y"
    and "extend_with_expired (t_now y) ws (t_clock y) = (t, ws', c)"
  shows "(\<exists>es. ws' = ws @ map snd es \<and> sorted_wrt (<) (map fst es) \<and>
      set es = {(k, w). alarms (t_clock y) k = Some w \<and> fst k \<le> t_now y}) \<and>
    alarms c = (\<lambda>k. if t_now y < fst k then alarms (t_clock y) k else None)"
proof -
  have ok: "clock_ok (t_clock y)" by (rule timer_invD(1) [OF park_trait.timer_reach_inv [OF assms(1,2)]])
  let ?es = "filter (\<lambda>e. fst (fst e) \<le> t_now y) (ck_alarms (t_clock y))"
  have "bt_ok ?es" using ok by (simp add: clock_ok_def bt_ok_filter)
  moreover have "set ?es = {(k, w). alarms (t_clock y) k = Some w \<and> fst k \<le> t_now y}"
    using ok by (auto simp: clock_ok_def alarms_def simp flip: bt_get_mem)
  ultimately show ?thesis using extend_with_expired_spec(1,2) [OF ok assms(3)]
    by (intro conjI exI [of _ ?es]) (simp_all add: bt_ok_def)
qed

theorem clock_expires_exactly_witness:
  "alarms ((t_clock ex_delivered)\<lparr>ck_parker := []\<rparr>) (1500000, 0) = None"
proof -
  have "extend_with_expired 2000000 [] (t_clock (ex_asleep 2000000)) =
      (Some 0, [7], (t_clock ex_delivered)\<lparr>ck_parker := []\<rparr>)"
    by (simp add: timer_eval ex_asleep_def ex_delivered_def less_prod_def)
  then show ?thesis
    using clock_expires_exactly [OF logging.park_trait_axioms ex_asleep_reach,
        of 2000000 "[]" "Some 0" "[7]" "(t_clock ex_delivered)\<lparr>ck_parker := []\<rparr>"]
    by (simp add: ex_asleep_def)
qed

text \<open>
  The clock rounds the time to the next alarm down to whole milliseconds: when the earliest
  alarm is less than a millisecond away, parking the clock does not block at all (the parker
  gets a timeout of zero), wakes nothing and leaves the alarm where it is. The caller parks
  again at once, until the deadline has passed.
\<close>

theorem clock_park_spins:
  assumes "park_trait P" and "timer_reach oc P y"
    and "alarms (t_clock y) (at, i) \<noteq> None"
    and "\<forall>k. alarms (t_clock y) k \<noteq> None \<longrightarrow> at \<le> fst k"
    and "t_now y < at" and "at < t_now y + 1000000"
  shows "clock_park P (t_now y) (t_clock y) ws =
    (let (r, ws', p) = pk_park_timeout P (ck_parker (t_clock y)) 0 ws
     in (r, ws', (t_clock y)\<lparr>ck_parker := p\<rparr>))"
proof -
  let ?al = "ck_alarms (t_clock y)"
  have ok: "bt_ok ?al"
    using timer_invD(1) [OF park_trait.timer_reach_inv [OF assms(1,2)]] by (simp add: clock_ok_def)
  have later: "at \<le> fst k" if "(k, w) \<in> set ?al" for k w
    using assms(4) [rule_format, of k] that bt_get_mem [OF ok, of k w] by (simp add: alarms_def)
  then have split: "bt_split_off (Suc (t_now y), 0) ?al = ([], ?al)"
    using assms(5) by (force simp: bt_split_off_def filter_empty_conv filter_id_conv expired_key pending_key)
  obtain a j where f: "bt_first_key ?al = Some (a, j)"
    using assms(3) by (cases ?al) (auto simp: alarms_def bt_first_key_def)
  then have "a \<le> at" using bt_first_key_least(2) [OF ok f, of "(at, i)"] assms(3)
    by (auto simp: alarms_def less_eq_prod_def)
  with assms(6) have "as_millis (a - t_now y) = 0" by (simp add: as_millis_def)
  then have "extend_with_expired (t_now y) ws (t_clock y) = (Some 0, ws, t_clock y)"
    using split f by (simp add: extend_with_expired_def from_millis_def)
  then show ?thesis by (simp add: clock_park_def)
qed

theorem clock_park_spins_witness:
  "clock_park log_park 600000 (t_clock (ex_asleep 600000)) [] =
     (Inr (), [], (t_clock (ex_asleep 600000))\<lparr>ck_parker := [Some 0]\<rparr>)"
  using clock_park_spins [OF logging.park_trait_axioms ex_asleep_reach, of 600000 1500000 0 "[]"]
  by (simp add: ex_asleep_def alarms_def)

text \<open>
  No alarm outlives its timer: every alarm in the clock belongs to exactly one live sleep,
  which knows it by the same deadline, identifier and waker. So when all sleeps are dropped the
  clock is empty.
\<close>

theorem alarms_have_owners:
  assumes "park_trait P" and "timer_reach oc P y" and "alarms (t_clock y) (at, i) = Some w"
  shows "\<exists>!f. \<exists>sl. t_sleeps y f = Some sl \<and> sl_deadline sl = at \<and> sl_alarm sl = Some (i, w)"
proof -
  have inv: "timer_inv y" by (rule park_trait.timer_reach_inv [OF assms(1,2)])
  obtain f sl where f: "t_sleeps y f = Some sl" "sl_deadline sl = at" "sl_alarm sl = Some (i, w)"
    using timer_invD(5) [OF inv assms(3)] by blast
  show ?thesis
    by (rule ex1I [of _ f]) (use f timer_invD(4) [OF inv] in blast)+
qed

theorem alarms_have_owners_witness:
  "\<exists>!f. \<exists>sl. t_sleeps (ex_asleep 0) f = Some sl \<and> sl_deadline sl = 1500000 \<and> sl_alarm sl = Some (0, 7)"
  by (rule alarms_have_owners [OF logging.park_trait_axioms ex_asleep_reach, of 0])
    (simp add: ex_asleep_def alarms_def)

text \<open>
  \<open>Sleep::reset\<close> panics exactly when the alarm of the sleep was already delivered, because
  the clock unwraps the alarm it has removed. Otherwise it returns, with the new deadline and
  the alarm, if there is one, moved to it.
\<close>

theorem sleep_reset_result:
  assumes "park_trait P" and "timer_reach oc P y" and "t_sleeps y f = Some sl"
  shows "if delivered (t_clock y) sl then sleep_reset d sl (t_clock y) = Panic UnwrapNone
    else \<exists>c. sleep_reset d sl (t_clock y) = Ret (sl\<lparr>sl_deadline := d\<rparr>, c) \<and>
      (\<forall>i w. sl_alarm sl = Some (i, w) \<longrightarrow>
        alarms c = (alarms (t_clock y))((sl_deadline sl, i) := None, (d, i) \<mapsto> w))"
proof -
  have inv: "timer_inv y" by (rule park_trait.timer_reach_inv [OF assms(1,2)])
  note ok = timer_invD(1) [OF inv]
  show ?thesis
  proof (cases "delivered (t_clock y) sl")
    case False
    then obtain c where c: "sleep_reset d sl (t_clock y) = Ret (sl\<lparr>sl_deadline := d\<rparr>, c)"
      using sleep_reset_cases(2) [OF ok] by blast
    have "alarms c = (alarms (t_clock y))((sl_deadline sl, i) := None, (d, i) \<mapsto> w)"
      if a: "sl_alarm sl = Some (i, w)" for i w
    proof -
      have "alarms (t_clock y) (sl_deadline sl, i) = Some w"
        using timer_invD(3) [OF inv assms(3) a] False a by (auto simp: delivered_def)
      then show ?thesis by (rule reset_alarm_Some [OF ok, of _ _ _ d]) (use c a in \<open>simp add: sleep_reset_def\<close>)
    qed
    with c False show ?thesis by simp
  qed (simp add: sleep_reset_cases(1) [OF ok])
qed

theorem sleep_reset_result_witness:
  "sleep_reset 9000000 \<lparr>sl_deadline = 1500000, sl_alarm = Some (0, 7)\<rparr> (t_clock ex_delivered) = Panic UnwrapNone"
  using sleep_reset_result [OF logging.park_trait_axioms ex_delivered_reach, of 1 _ 9000000]
  by (simp add: ex_delivered_def delivered_def alarms_def)

section \<open>Interval and Timeout\<close>

text \<open>
  C30. An interval whose tick had to wait never ticks: if a poll of \<open>tick()\<close> before the
  deadline is pending and the runtime then parks at or after the deadline (the park that wakes
  the task), the next poll of \<open>tick()\<close> panics, since the reset of the sleep unwraps the alarm
  that the park has removed.
\<close>

theorem interval_tick_panics:
  assumes "park_trait P" and "clock_ok c" and "sl_alarm (iv_sleep iv) = None"
    and "interval_tick_poll oc t0 t0' cx iv c = Ret (Pending, iv1, c1)"
    and "clock_park P t1 c1 ws = (r, ws', c2)" and "sl_deadline (iv_sleep iv) \<le> t1" and "t1 \<le> t2"
  shows "cx \<in> set ws' \<and> interval_tick_poll oc t2 t2' cx' iv1 c2 = Panic UnwrapNone"
proof -
  let ?sl = "iv_sleep iv"
  obtain i where i: "insert_alarm oc (sl_deadline ?sl) cx c = Ret (i, c1)"
    and iv1: "iv_sleep iv1 = ?sl\<lparr>sl_alarm := Some (i, cx)\<rparr>"
    using assms(3,4) by (auto simp: interval_tick_poll_def sleep_poll_def bindM_Ret_conv split: if_splits)
  note I = insert_alarm_Ret [OF assms(2) i]
  note S = park_trait.clock_park_spec [OF assms(1) I(3), OF disjI1, OF assms(5)]
  have "cx \<in> set ws'" by (rule S(4) [OF assms(6), of i]) (simp add: I)
  moreover have "sleep_reset d (iv_sleep iv1) c2 = Panic UnwrapNone" for d
    using assms(6) by (intro sleep_reset_cases(1) [OF S(2)]) (simp add: delivered_def iv1 S(1))
  moreover have "sleep_poll oc t2 cx' (iv_sleep iv1) c2 = Ret (Ready (sl_deadline ?sl), iv_sleep iv1, c2)"
    using assms(6,7) iv1 by (simp add: sleep_poll_def)
  ultimately show ?thesis by (simp add: interval_tick_poll_def)
qed

theorem interval_tick_panics_witness:
  "\<exists>iv c1 iv1 ws c2.
     interval_at True 1000 500 = (Ret iv :: nat interval m) \<and>
     interval_tick_poll True 0 0 7 iv (clock_new []) = Ret (Pending, iv1, c1) \<and>
     clock_park log_park 1200 c1 [] = (Inr (), ws, c2) \<and> 7 \<in> set ws \<and>
     interval_tick_poll True 1200 1200 7 iv1 c2 = Panic UnwrapNone"
proof -
  let ?iv = "\<lparr>iv_sleep = \<lparr>sl_deadline = 1000, sl_alarm = None\<rparr>, iv_interval = 500\<rparr> :: nat interval"
  let ?iv1 = "\<lparr>iv_sleep = \<lparr>sl_deadline = 1000, sl_alarm = Some (0, 7)\<rparr>, iv_interval = 500\<rparr> :: nat interval"
  let ?c1 = "\<lparr>ck_parker = [], ck_next_alarm = 1, ck_alarms = [((1000, 0), 7)]\<rparr> :: (duration option list, nat) clock"
  let ?c2 = "\<lparr>ck_parker = [Some 0], ck_next_alarm = 1, ck_alarms = []\<rparr> :: (duration option list, nat) clock"
  have 0: "interval_at True 1000 500 = Ret ?iv" by (simp add: interval_at_def sleep_until_def)
  have 1: "interval_tick_poll True 0 0 7 ?iv (clock_new []) = Ret (Pending, ?iv1, ?c1)"
    by (simp add: interval_tick_poll_def timer_eval)
  have 2: "clock_park log_park 1200 ?c1 [] = (Inr (), [7], ?c2)"
    by (simp add: timer_eval less_prod_def)
  have "7 \<in> set [7 :: nat] \<and> interval_tick_poll True 1200 1200 7 ?iv1 ?c2 = Panic UnwrapNone"
    by (rule interval_tick_panics [OF logging.park_trait_axioms _ _ 1 2]) simp_all
  with 0 1 2 show ?thesis by blast
qed

text \<open>
  \<open>Timeout\<close> polls its future first: if it is ready its value is the result, also when the
  deadline has passed. Otherwise the timeout fails from the deadline on, and before it the poll
  is pending with an alarm for the deadline under the waker of this poll. It never panics by
  itself. (The future may itself have used the clock, which must be left such that the alarm of
  this timeout, if any, is still registered or expired.)
\<close>

theorem timeout_poll_result:
  assumes "fut_poll cx (to_future t) c = Ret (r, f, c1)" and "clock_ok c1"
    and "sleep_inv c1 now (to_sleep t)" and "ck_next_alarm c1 \<noteq> - 1"
  shows "case r of
      Ready v \<Rightarrow> timeout_poll oc fut_poll now cx t c = Ret (Ready (Inr v), t\<lparr>to_future := f\<rparr>, c1)
    | Pending \<Rightarrow>
        if sl_deadline (to_sleep t) \<le> now
        then timeout_poll oc fut_poll now cx t c = Ret (Ready (Inl TimedOut), t\<lparr>to_future := f\<rparr>, c1)
        else \<exists>i c2. alarms c2 (sl_deadline (to_sleep t), i) = Some cx \<and>
          timeout_poll oc fut_poll now cx t c =
            Ret (Pending, t\<lparr>to_future := f, to_sleep := (to_sleep t)\<lparr>sl_alarm := Some (i, cx)\<rparr>\<rparr>, c2)"
proof (cases r)
  case (Ready v)
  then show ?thesis using assms(1) by (simp add: timeout_poll_def)
next
  case Pending
  show ?thesis
  proof (cases "sl_deadline (to_sleep t) \<le> now")
    case True
    then show ?thesis using assms(1) Pending by (simp add: timeout_poll_def sleep_poll_def)
  next
    case False
    from sleep_poll_returns [OF assms(3,4), of oc cx] False
    obtain sl' c2 where p: "sleep_poll oc now cx (to_sleep t) c1 = Ret (Pending, sl', c2)"
      unfolding returns_conv by (metis poll.exhaust prod_cases3 sleep_poll_Ready)
    from p assms(2,3,4) show ?thesis
      by (rule sleep_poll_PendingE) (use False p Pending assms(1) in \<open>auto simp: timeout_poll_def\<close>)
  qed
qed

theorem timeout_poll_result_witness:
  "timeout_poll True (\<lambda>cx f c. Ret (Pending :: int poll, f, c)) 1200 7
     \<lparr>to_future = (), to_sleep = \<lparr>sl_deadline = 1000, sl_alarm = None\<rparr>\<rparr> (clock_new [] :: (duration option list, nat) clock) =
   Ret (Ready (Inl TimedOut), \<lparr>to_future = (), to_sleep = \<lparr>sl_deadline = 1000, sl_alarm = None\<rparr>\<rparr>, clock_new [])"
  using timeout_poll_result [of "\<lambda>cx f c. Ret (Pending :: int poll, f, c)" 7
      "\<lparr>to_future = (), to_sleep = \<lparr>sl_deadline = 1000, sl_alarm = None\<rparr>\<rparr>" "clock_new []" Pending "()" "clock_new []" 1200 True]
  by (simp add: sleep_inv_def)

end
