(* ===== verification/Executor.thy ===== *)
theory Executor
  imports Park
begin

text \<open>
  \<open>src/runtime/executor.rs\<close> and the futures of \<open>src/task.rs\<close>: the task queue, the tasks
  and their wakers, and the loop of \<open>block_on\<close>. Reference-counted tasks live in a heap that
  is part of the executor; a waker names the main future or a task. The futures that users
  spawn are a parameter: how a future is polled and dropped, as functions on the executor.
\<close>

section \<open>Tasks and wakers\<close>

datatype waker = MainWaker | TaskWaker nat

datatype state = Scheduled | Idle | Done

datatype ('f, 'o) payload = Future 'f | Output 'o | Taken

record ('f, 'o) task_repr =
  tk_awaiter :: "waker option"
  tk_state :: state
  tk_payload :: "('f, 'o) payload"
  tk_borrowed :: bool

text \<open>
  The shared part of the executor with the heap of its tasks: those allocated have a number
  below \<open>ex_next\<close>.
\<close>

record ('f, 'o, 'p) executor =
  ex_queue :: "nat list"
  ex_woke :: bool
  ex_created_on :: nat
  ex_parker :: 'p
  ex_tasks :: "nat \<Rightarrow> ('f, 'o) task_repr"
  ex_next :: nat

record ('f, 'o, 'p) future_api =
  f_poll :: "'f \<Rightarrow> waker \<Rightarrow> ('f, 'o, 'p) executor \<Rightarrow> ('o poll \<times> 'f \<times> ('f, 'o, 'p) executor) m"
  f_drop :: "'f \<Rightarrow> ('f, 'o, 'p) executor \<Rightarrow> ('f, 'o, 'p) executor m"

definition polls_per_tick :: nat where
  "polls_per_tick = 61"

definition executor_new :: "nat \<Rightarrow> 'p \<Rightarrow> ('f, 'o, 'p) executor" where
  "executor_new th park = \<lparr>ex_queue = [], ex_woke = False, ex_created_on = th, ex_parker = park,
     ex_tasks = (\<lambda>_. \<lparr>tk_awaiter = None, tk_state = Done, tk_payload = Taken, tk_borrowed = False\<rparr>),
     ex_next = 0\<rparr>"

definition update_task ::
    "nat \<Rightarrow> (('f, 'o) task_repr \<Rightarrow> ('f, 'o) task_repr) \<Rightarrow> ('f, 'o, 'p) executor \<Rightarrow> ('f, 'o, 'p) executor" where
  "update_task t g e = e\<lparr>ex_tasks := (ex_tasks e)(t := g (ex_tasks e t))\<rparr>"

text \<open>\<open>RcWake::wake\<close> of the main future and of a task.\<close>

fun rc_wake :: "waker \<Rightarrow> ('f, 'o, 'p) executor \<Rightarrow> ('f, 'o, 'p) executor" where
  "rc_wake MainWaker e = e\<lparr>ex_woke := True\<rparr>"
| "rc_wake (TaskWaker t) e =
     (case tk_state (ex_tasks e t) of
        Idle \<Rightarrow> (let e = update_task t (\<lambda>k. k\<lparr>tk_state := Scheduled\<rparr>) e
                 in e\<lparr>ex_queue := ex_queue e @ [t]\<rparr>)
      | Scheduled \<Rightarrow> e
      | Done \<Rightarrow> e)"

text \<open>
  The entries of the waker's virtual table: each checks first that the current thread \<open>th\<close>
  is the one the executor was created on. Clones are equal to their original.
\<close>

definition assert_not_sent :: "nat \<Rightarrow> ('f, 'o, 'p) executor \<Rightarrow> unit m" where
  "assert_not_sent th e = (if th \<noteq> ex_created_on e then Panic WrongThread else Ret ())"

definition waker_clone :: "nat \<Rightarrow> waker \<Rightarrow> ('f, 'o, 'p) executor \<Rightarrow> waker m" where
  "waker_clone th w e = bindM (assert_not_sent th e) (\<lambda>_. Ret w)"

definition waker_wake :: "nat \<Rightarrow> waker \<Rightarrow> ('f, 'o, 'p) executor \<Rightarrow> ('f, 'o, 'p) executor m" where
  "waker_wake th w e = bindM (assert_not_sent th e) (\<lambda>_. Ret (rc_wake w e))"

text \<open>\<open>util::wake\<close>: a release build catches a panic of the waker.\<close>

definition util_wake :: "bool \<Rightarrow> nat \<Rightarrow> waker \<Rightarrow> ('f, 'o, 'p) executor \<Rightarrow> ('f, 'o, 'p) executor m" where
  "util_wake debug th w e =
     (case waker_wake th w e of
        None \<Rightarrow> None
      | Some r \<Rightarrow> (case r of Inl p \<Rightarrow> if debug then Panic p else Ret e | Inr e' \<Rightarrow> Ret e'))"

fun wake_all :: "bool \<Rightarrow> nat \<Rightarrow> waker list \<Rightarrow> ('f, 'o, 'p) executor \<Rightarrow> ('f, 'o, 'p) executor m" where
  "wake_all debug th [] e = Ret e"
| "wake_all debug th (w # ws) e = bindM (util_wake debug th w e) (wake_all debug th ws)"

section \<open>Operations on tasks\<close>

definition spawn :: "'f \<Rightarrow> ('f, 'o, 'p) executor \<Rightarrow> nat \<times> ('f, 'o, 'p) executor" where
  "spawn future e =
     (let t = ex_next e;
          e = e\<lparr>ex_next := t + 1, ex_tasks := (ex_tasks e)(t :=
                 \<lparr>tk_awaiter = None, tk_state = Scheduled, tk_payload = Future future, tk_borrowed = False\<rparr>)\<rparr>
      in (t, e\<lparr>ex_queue := ex_queue e @ [t]\<rparr>))"

text \<open>\<open>self.payload.borrow_mut()\<close> and the end of that borrow.\<close>

definition borrow_payload :: "nat \<Rightarrow> ('f, 'o, 'p) executor \<Rightarrow> ('f, 'o, 'p) executor m" where
  "borrow_payload t e =
     (if tk_borrowed (ex_tasks e t) then Panic AlreadyBorrowed
      else Ret (update_task t (\<lambda>k. k\<lparr>tk_borrowed := True\<rparr>) e))"

definition release_payload :: "nat \<Rightarrow> ('f, 'o, 'p) executor \<Rightarrow> ('f, 'o, 'p) executor" where
  "release_payload t e = update_task t (\<lambda>k. k\<lparr>tk_borrowed := False\<rparr>) e"

definition poll_output ::
    "nat \<Rightarrow> nat \<Rightarrow> waker \<Rightarrow> ('f, 'o, 'p) executor \<Rightarrow> ('o poll \<times> ('f, 'o, 'p) executor) m" where
  "poll_output th t cx e =
     bindM (borrow_payload t e) (\<lambda>e.
       case tk_payload (ex_tasks e t) of
         Output val \<Rightarrow>
           Ret (Ready val, release_payload t (update_task t (\<lambda>k. k\<lparr>tk_payload := Taken\<rparr>) e))
       | Taken \<Rightarrow> Panic PolledAfterCompletion
       | Future _ \<Rightarrow>
           bindM (waker_clone th cx e) (\<lambda>w.
             Ret (Pending, release_payload t (update_task t (\<lambda>k. k\<lparr>tk_awaiter := Some w\<rparr>) e))))"

definition run ::
    "bool \<Rightarrow> nat \<Rightarrow> ('f, 'o, 'p) future_api \<Rightarrow> nat \<Rightarrow> ('f, 'o, 'p) executor \<Rightarrow> ('f, 'o, 'p) executor m" where
  "run debug th X t e =
     bindM (borrow_payload t (update_task t (\<lambda>k. k\<lparr>tk_state := Idle\<rparr>) e)) (\<lambda>e.
     bindM (case tk_payload (ex_tasks e t) of
              Future future \<Rightarrow>
                bindM (f_poll X future (TaskWaker t) e) (\<lambda>(r, future, e).
                  case r of
                    Ready val \<Rightarrow>
                      bindM (f_drop X future e)
                        (\<lambda>e. Ret (True, update_task t (\<lambda>k. k\<lparr>tk_payload := Output val\<rparr>) e))
                  | Pending \<Rightarrow> Ret (False, update_task t (\<lambda>k. k\<lparr>tk_payload := Future future\<rparr>) e))
            | _ \<Rightarrow> Ret (False, e)) (\<lambda>(done, e).
     let e = release_payload t e in
     if done then
       (let e = update_task t (\<lambda>k. k\<lparr>tk_state := Done\<rparr>) e;
            w = tk_awaiter (ex_tasks e t);
            e = update_task t (\<lambda>k. k\<lparr>tk_awaiter := None\<rparr>) e
        in case w of Some waker \<Rightarrow> util_wake debug th waker e | None \<Rightarrow> Ret e)
     else Ret e))"

text \<open>
  \<open>cancel\<close> takes the payload out; a future that was not finished is dropped while the payload
  is still borrowed.
\<close>

definition cancel ::
    "('f, 'o, 'p) future_api \<Rightarrow> nat \<Rightarrow> ('f, 'o, 'p) executor \<Rightarrow> ('o option \<times> ('f, 'o, 'p) executor) m" where
  "cancel X t e =
     bindM (borrow_payload t e) (\<lambda>e.
       let payload = tk_payload (ex_tasks e t);
           e = update_task t (\<lambda>k. k\<lparr>tk_payload := Taken\<rparr>) e
       in bindM (case payload of Future f \<Rightarrow> f_drop X f e | _ \<Rightarrow> Ret e)
            (\<lambda>e. Ret (case payload of Output val \<Rightarrow> Some val | _ \<Rightarrow> None, release_payload t e)))"

text \<open>
  \<open>Task\<close> and \<open>JoinHandle\<close> hide the type of the task: the output is written through a reference to
  a \<open>Poll\<close> or an \<open>Option\<close>, whose initial value stands when nothing was written.
\<close>

datatype task = Task nat

fun task_poll :: "nat \<Rightarrow> task \<Rightarrow> waker \<Rightarrow> ('f, 'o, 'p) executor \<Rightarrow> ('o poll \<times> ('f, 'o, 'p) executor) m" where
  "task_poll th (Task t) cx e = poll_output th t cx e"

fun task_cancel :: "('f, 'o, 'p) future_api \<Rightarrow> task \<Rightarrow> ('f, 'o, 'p) executor \<Rightarrow> ('o option \<times> ('f, 'o, 'p) executor) m" where
  "task_cancel X (Task t) e = cancel X t e"

record join_handle =
  jh_task :: task

definition join_handle_new :: "task \<Rightarrow> join_handle" where
  "join_handle_new t = \<lparr>jh_task = t\<rparr>"

definition join_handle_poll ::
    "nat \<Rightarrow> join_handle \<Rightarrow> waker \<Rightarrow> ('f, 'o, 'p) executor \<Rightarrow> ('o poll \<times> ('f, 'o, 'p) executor) m" where
  "join_handle_poll th h cx e = task_poll th (jh_task h) cx e"

definition join_handle_cancel ::
    "('f, 'o, 'p) future_api \<Rightarrow> join_handle \<Rightarrow> ('f, 'o, 'p) executor \<Rightarrow> ('o option \<times> ('f, 'o, 'p) executor) m" where
  "join_handle_cancel X h e = task_cancel X (jh_task h) e"

lemma join_handle_simps [simp]:
  "join_handle_poll th (join_handle_new (Task t)) cx e = poll_output th t cx e"
  "join_handle_cancel X (join_handle_new (Task t)) e = cancel X t e"
  by (simp_all add: join_handle_poll_def join_handle_cancel_def join_handle_new_def)

section \<open>The loop of block_on\<close>

text \<open>
  The parker is used through the executor: \<open>with_parker\<close> runs one of its operations on a fresh
  vector of wakers, and then calls the wakers it collected.
\<close>

definition park_and_wake ::
    "bool \<Rightarrow> nat \<Rightarrow> ('p \<Rightarrow> waker list \<Rightarrow> unit io_result \<times> waker list \<times> 'p) \<Rightarrow>
     ('f, 'o, 'p) executor \<Rightarrow> ('f, 'o, 'p) executor m" where
  "park_and_wake debug th park e =
     (let (r, wakers, p) = park (ex_parker e) []; e = e\<lparr>ex_parker := p\<rparr> in
      case r of Inl _ \<Rightarrow> Panic ParkFailed | Inr _ \<Rightarrow> wake_all debug th wakers e)"

text \<open>
  The inner loop, with \<open>n\<close> polls left, returns the tasks it ran, in order. When the queue is
  empty it parks; when the main future was woken it stops; after the last poll it parks with
  a timeout of zero.
\<close>

fun tick ::
    "bool \<Rightarrow> nat \<Rightarrow> ('f, 'o, 'p) future_api \<Rightarrow> ('p, waker) park_api \<Rightarrow> nat \<Rightarrow>
     ('f, 'o, 'p) executor \<Rightarrow> (nat list \<times> ('f, 'o, 'p) executor) m" where
  "tick debug th X P 0 e =
     bindM (park_and_wake debug th (\<lambda>p. pk_park_timeout P p 0) e) (\<lambda>e. Ret ([], e))"
| "tick debug th X P (Suc n) e =
     (case ex_queue e of
        [] \<Rightarrow> bindM (park_and_wake debug th (pk_park P) e) (\<lambda>e. Ret ([], e))
      | t # queue \<Rightarrow>
          bindM (run debug th X t (e\<lparr>ex_queue := queue\<rparr>)) (\<lambda>e.
            if ex_woke e then Ret ([t], e)
            else bindM (tick debug th X P n e) (\<lambda>(ran, e). Ret (t # ran, e))))"

text \<open>The main future is a state \<open>'g\<close> with its own poll function.\<close>

partial_function (option) block_on_loop ::
    "bool \<Rightarrow> nat \<Rightarrow> ('f, 'o, 'p) future_api \<Rightarrow> ('p, waker) park_api \<Rightarrow>
     ('g \<Rightarrow> waker \<Rightarrow> ('f, 'o, 'p) executor \<Rightarrow> ('r poll \<times> 'g \<times> ('f, 'o, 'p) executor) m) \<Rightarrow>
     'g \<Rightarrow> ('f, 'o, 'p) executor \<Rightarrow> ('r \<times> ('f, 'o, 'p) executor) m" where
  "block_on_loop debug th X P main_poll g e =
     (if ex_woke e then
        (case main_poll g MainWaker (e\<lparr>ex_woke := False\<rparr>) of
           None \<Rightarrow> None
         | Some (Inl p) \<Rightarrow> Panic p
         | Some (Inr (Ready val, g, e)) \<Rightarrow> Ret (val, e)
         | Some (Inr (Pending, g, e)) \<Rightarrow>
             (case tick debug th X P polls_per_tick e of
                None \<Rightarrow> None
              | Some (Inl p) \<Rightarrow> Panic p
              | Some (Inr (_, e)) \<Rightarrow> block_on_loop debug th X P main_poll g e))
      else
        (case tick debug th X P polls_per_tick e of
           None \<Rightarrow> None
         | Some (Inl p) \<Rightarrow> Panic p
         | Some (Inr (_, e)) \<Rightarrow> block_on_loop debug th X P main_poll g e))"

definition block_on ::
    "bool \<Rightarrow> nat \<Rightarrow> ('f, 'o, 'p) future_api \<Rightarrow> ('p, waker) park_api \<Rightarrow>
     ('g \<Rightarrow> waker \<Rightarrow> ('f, 'o, 'p) executor \<Rightarrow> ('r poll \<times> 'g \<times> ('f, 'o, 'p) executor) m) \<Rightarrow>
     'g \<Rightarrow> ('f, 'o, 'p) executor \<Rightarrow> ('r \<times> ('f, 'o, 'p) executor) m" where
  "block_on debug th X P main_poll g e =
     block_on_loop debug th X P main_poll g (e\<lparr>ex_woke := True\<rparr>)"

section \<open>The futures of the task module\<close>

datatype task_future = YieldNow bool | JoinHandle nat

definition yield_now :: task_future where
  "yield_now = YieldNow False"

text \<open>\<open>YieldNow::poll\<close> calls its own waker by reference once.\<close>

fun yield_poll :: "nat \<Rightarrow> bool \<Rightarrow> waker \<Rightarrow> ('f, 'o, 'p) executor \<Rightarrow> (unit poll \<times> bool \<times> ('f, 'o, 'p) executor) m" where
  "yield_poll th True cx e = Ret (Ready (), True, e)"
| "yield_poll th False cx e = bindM (waker_wake th cx e) (\<lambda>e. Ret (Pending, True, e))"

fun task_future_poll ::
    "nat \<Rightarrow> task_future \<Rightarrow> waker \<Rightarrow> (task_future, unit, 'p) executor \<Rightarrow>
     (unit poll \<times> task_future \<times> (task_future, unit, 'p) executor) m" where
  "task_future_poll th (YieldNow b) cx e =
     bindM (yield_poll th b cx e) (\<lambda>(r, b, e). Ret (r, YieldNow b, e))"
| "task_future_poll th (JoinHandle t) cx e =
     bindM (poll_output th t cx e) (\<lambda>(r, e). Ret (r, JoinHandle t, e))"

definition task_futures :: "nat \<Rightarrow> (task_future, unit, 'p) future_api" where
  "task_futures th = \<lparr>f_poll = task_future_poll th, f_drop = (\<lambda>_ e. Ret e)\<rparr>"

end
