(* ===== verification/Executor_Invariant.thy ===== *)
theory Executor_Invariant
  imports Executor
begin

text \<open>
  What a future may do to the executor while it is polled or dropped (\<open>acts\<close>), the contract
  of futures as the locale \<open>futures\<close>, and the invariant of the task queue: no operation of a
  future and no run of a task breaks it.
\<close>

section \<open>What futures do\<close>

text \<open>
  A future has the executor's public operations only: it wakes a waker, spawns a task, polls
  or cancels a task whose handle it has, and uses timers and I/O, which changes the parker.
  A cancelled future is dropped, and its drop acts in turn, while its payload is borrowed.
\<close>

inductive acts :: "('f, 'o, 'p) executor \<Rightarrow> ('f, 'o, 'p) executor \<Rightarrow> bool" where
  act_none: "acts e e"
| act_wake: "acts e e1 \<Longrightarrow> acts e (rc_wake w e1)"
| act_spawn: "acts e e1 \<Longrightarrow> spawn f e1 = (t, e2) \<Longrightarrow> acts e e2"
| act_join: "acts e e1 \<Longrightarrow> poll_output th t cx e1 = Ret (r, e2) \<Longrightarrow> acts e e2"
| act_cancel: "acts e e1 \<Longrightarrow> t < ex_next e1 \<Longrightarrow> borrow_payload t e1 = Ret e2 \<Longrightarrow>
     acts (update_task t (\<lambda>k. k\<lparr>tk_payload := Taken\<rparr>) e2) e3 \<Longrightarrow> acts e (release_payload t e3)"
| act_io: "acts e e1 \<Longrightarrow> acts e (e1\<lparr>ex_parker := p\<rparr>)"

locale futures =
  fixes X :: "('f, 'o, 'p) future_api"
  assumes poll_acts: "f_poll X f w e = Ret (r, f', e') \<Longrightarrow> acts e e'"
    and drop_acts: "f_drop X f e = Ret e' \<Longrightarrow> acts e e'"

text \<open>The futures of the task module keep this contract.\<close>

lemma waker_wake_Ret: "waker_wake th w e = Ret e' \<longleftrightarrow> th = ex_created_on e \<and> e' = rc_wake w e"
  by (auto simp: waker_wake_def assert_not_sent_def)

interpretation task_module: futures "task_futures th" for th
proof
  fix w :: waker and e e' :: "(task_future, unit, 'a) executor" and f f' r
  assume p: "f_poll (task_futures th) f w e = Ret (r, f', e')"
  show "acts e e'"
  proof (cases f)
    case (YieldNow b)
    with p show ?thesis
      by (cases b) (auto simp: task_futures_def bindM_Ret_conv waker_wake_Ret
          intro: acts.act_none acts.act_wake [OF acts.act_none])
  next
    case (JoinHandle t)
    with p show ?thesis
      by (auto simp: task_futures_def bindM_Ret_conv intro: acts.act_join [OF acts.act_none])
  qed
qed (auto simp: task_futures_def intro: acts.act_none)

section \<open>The invariant\<close>

lemma update_task_simps [simp]:
  "ex_queue (update_task t g e) = ex_queue e"
  "ex_woke (update_task t g e) = ex_woke e"
  "ex_created_on (update_task t g e) = ex_created_on e"
  "ex_parker (update_task t g e) = ex_parker e"
  "ex_next (update_task t g e) = ex_next e"
  "ex_tasks (update_task t g e) = (ex_tasks e)(t := g (ex_tasks e t))"
  by (simp_all add: update_task_def)

text \<open>
  A task is in the queue at most once, and if it is scheduled, then it is there. The queue also
  may hold tasks that completed after waking themselves. A live future belongs to a task that
  is not done, and the waker of a joining task is gone once the output is there. Beyond
  \<open>ex_next\<close> nothing is allocated.
\<close>

definition executor_inv :: "('f, 'o, 'p) executor \<Rightarrow> bool" where
  "executor_inv e \<longleftrightarrow>
     distinct (ex_queue e) \<and>
     (\<forall>t \<in> set (ex_queue e). t < ex_next e \<and> tk_state (ex_tasks e t) \<noteq> Idle) \<and>
     (\<forall>t. tk_state (ex_tasks e t) = Scheduled \<longrightarrow> t \<in> set (ex_queue e)) \<and>
     (\<forall>t f. tk_payload (ex_tasks e t) = Future f \<longrightarrow> tk_state (ex_tasks e t) \<noteq> Done) \<and>
     (\<forall>t v. tk_payload (ex_tasks e t) = Output v \<longrightarrow> tk_awaiter (ex_tasks e t) = None) \<and>
     (\<forall>t \<ge> ex_next e. tk_state (ex_tasks e t) = Done \<and> tk_payload (ex_tasks e t) = Taken \<and>
        \<not> tk_borrowed (ex_tasks e t))"

text \<open>
  What operations preserve: no task is forgotten, the queue only grows at its back, a wakeup
  is not taken back, borrows are as before, and a borrowed payload is left alone.
\<close>

definition keeps :: "('f, 'o, 'p) executor \<Rightarrow> ('f, 'o, 'p) executor \<Rightarrow> bool" where
  "keeps e e' \<longleftrightarrow>
     ex_next e \<le> ex_next e' \<and> ex_created_on e' = ex_created_on e \<and>
     (\<exists>new. ex_queue e' = ex_queue e @ new) \<and> (ex_woke e \<longrightarrow> ex_woke e') \<and>
     (\<forall>t. tk_borrowed (ex_tasks e' t) = tk_borrowed (ex_tasks e t)) \<and>
     (\<forall>t. tk_borrowed (ex_tasks e t) \<longrightarrow> tk_payload (ex_tasks e' t) = tk_payload (ex_tasks e t) \<and>
        tk_awaiter (ex_tasks e' t) = tk_awaiter (ex_tasks e t)) \<and>
     (\<forall>t. tk_state (ex_tasks e t) = Scheduled \<longrightarrow> tk_state (ex_tasks e' t) = Scheduled)"

lemma keeps_refl: "keeps e e"
  by (simp add: keeps_def)

lemma keeps_trans: "keeps e e1 \<Longrightarrow> keeps e1 e2 \<Longrightarrow> keeps e e2"
  unfolding keeps_def by (elim conjE exE) (simp add: order.trans)

lemma executor_inv_new: "executor_inv (executor_new th p)"
  by (simp add: executor_inv_def executor_new_def)

lemma rc_wake_keeps:
  assumes "executor_inv e"
  shows "executor_inv (rc_wake w e)" and "keeps e (rc_wake w e)"
proof -
  have "executor_inv (rc_wake w e) \<and> keeps e (rc_wake w e)"
  proof (cases w)
    case MainWaker
    then show ?thesis using assms by (simp add: executor_inv_def keeps_def)
  next
    case (TaskWaker t)
    show ?thesis
    proof (cases "tk_state (ex_tasks e t)")
      case Idle
      with assms have "t < ex_next e" "t \<notin> set (ex_queue e)"
        by (auto simp: executor_inv_def not_le [symmetric])
      with Idle TaskWaker assms show ?thesis
        by (auto simp: executor_inv_def keeps_def Let_def)
    qed (use TaskWaker assms in \<open>simp_all add: keeps_refl\<close>)
  qed
  then show "executor_inv (rc_wake w e)" "keeps e (rc_wake w e)" by simp_all
qed

lemma spawn_keeps:
  assumes "executor_inv e" and "spawn f e = (t, e')"
  shows "executor_inv e'" and "keeps e e'"
proof -
  have "ex_next e \<notin> set (ex_queue e)" using assms(1) by (auto simp: executor_inv_def)
  then show "executor_inv e'" "keeps e e'"
    using assms by (auto simp: executor_inv_def keeps_def spawn_def Let_def less_Suc_eq split: if_splits)
qed

lemma poll_output_keeps:
  assumes "executor_inv e" and "poll_output th t cx e = Ret (r, e')"
  shows "executor_inv e'" and "keeps e e'"
  using assms
  by (auto simp: executor_inv_def keeps_def poll_output_def borrow_payload_def release_payload_def
      waker_clone_def bindM_Ret_conv split: if_splits payload.splits)

lemma borrow_take_inv:
  assumes "executor_inv e" and "t < ex_next e" and "borrow_payload t e = Ret e1"
  shows "executor_inv (update_task t (\<lambda>k. k\<lparr>tk_payload := Taken\<rparr>) e1)"
  using assms by (auto simp: executor_inv_def borrow_payload_def split: if_splits)

lemma release_inv: "executor_inv e \<Longrightarrow> executor_inv (release_payload t e)"
  by (auto simp: executor_inv_def release_payload_def)

lemma acts_keep: "acts e e' \<Longrightarrow> executor_inv e \<Longrightarrow> executor_inv e' \<and> keeps e e'"
proof (induction rule: acts.induct)
  case (act_none e)
  then show ?case by (simp add: keeps_refl)
next
  case (act_wake e e1 w)
  then show ?case using rc_wake_keeps [of e1 w] keeps_trans by blast
next
  case (act_spawn e e1 f t e2)
  then show ?case using spawn_keeps [of e1 f t e2] keeps_trans by blast
next
  case (act_join e e1 th t cx r e2)
  then show ?case using poll_output_keeps [of e1 th t cx r e2] keeps_trans by blast
next
  case (act_cancel e e1 t e2 e3)
  let ?e2 = "update_task t (\<lambda>k. k\<lparr>tk_payload := Taken\<rparr>) e2"
  have e1: "executor_inv e1" "keeps e e1" using act_cancel by simp_all
  have e3: "executor_inv e3" "keeps ?e2 e3"
    using act_cancel.IH(2) borrow_take_inv [OF e1(1) act_cancel.hyps(2,3)] by simp_all
  have "keeps e1 (release_payload t e3)"
    using e3(2) act_cancel.hyps(3)
    by (auto simp: keeps_def borrow_payload_def release_payload_def split: if_splits)
  with e1 e3 show ?case using keeps_trans release_inv by blast
next
  case (act_io e e1 p)
  moreover have "executor_inv (e1\<lparr>ex_parker := p\<rparr>) = executor_inv e1" "keeps e1 (e1\<lparr>ex_parker := p\<rparr>)"
    by (simp_all add: executor_inv_def keeps_def)
  ultimately show ?case using keeps_trans by blast
qed

section \<open>One run of a task\<close>

definition run_started :: "nat \<Rightarrow> ('f, 'o, 'p) executor \<Rightarrow> ('f, 'o, 'p) executor" where
  "run_started t e = update_task t (\<lambda>k. k\<lparr>tk_state := Idle, tk_borrowed := True\<rparr>) e"

definition run_pending :: "nat \<Rightarrow> 'f \<Rightarrow> ('f, 'o, 'p) executor \<Rightarrow> ('f, 'o, 'p) executor" where
  "run_pending t f e = update_task t (\<lambda>k. k\<lparr>tk_payload := Future f, tk_borrowed := False\<rparr>) e"

definition run_done :: "nat \<Rightarrow> 'o \<Rightarrow> ('f, 'o, 'p) executor \<Rightarrow> ('f, 'o, 'p) executor" where
  "run_done t v e = update_task t
     (\<lambda>k. k\<lparr>tk_payload := Output v, tk_borrowed := False, tk_state := Done, tk_awaiter := None\<rparr>) e"

lemma update_task_twice: "update_task t g (update_task t h e) = update_task t (\<lambda>k. g (h k)) e"
  by (simp add: update_task_def)

lemma run_unfold:
  "run debug th X t e =
     (if tk_borrowed (ex_tasks e t) then Panic AlreadyBorrowed
      else case tk_payload (ex_tasks e t) of
          Future f \<Rightarrow>
            bindM (f_poll X f (TaskWaker t) (run_started t e)) (\<lambda>(r, f, e1).
              case r of
                Pending \<Rightarrow> Ret (run_pending t f e1)
              | Ready v \<Rightarrow> bindM (f_drop X f e1) (\<lambda>e2.
                  case tk_awaiter (ex_tasks e2 t) of
                    None \<Rightarrow> Ret (run_done t v e2)
                  | Some w \<Rightarrow> util_wake debug th w (run_done t v e2)))
        | _ \<Rightarrow> Ret (update_task t (\<lambda>k. k\<lparr>tk_state := Idle, tk_borrowed := False\<rparr>) e))"
  by (auto simp: run_def borrow_payload_def update_task_twice run_started_def run_pending_def
      run_done_def release_payload_def bindM_def Let_def update_task_def
      split: payload.splits poll.splits option.splits sum.splits)

lemma util_wake_same_thread:
  "th = ex_created_on e \<Longrightarrow> util_wake debug th w e = Ret (rc_wake w e)"
  by (simp add: util_wake_def waker_wake_def assert_not_sent_def)

text \<open>The task at the front of the queue is taken out; it then has to become idle.\<close>

definition popped :: "('f, 'o, 'p) executor \<Rightarrow> ('f, 'o, 'p) executor" where
  "popped e = e\<lparr>ex_queue := tl (ex_queue e)\<rparr>"

lemma popped_idle_inv:
  assumes "executor_inv e" and "ex_queue e = t # q"
  shows "executor_inv (update_task t (\<lambda>k. k\<lparr>tk_state := Idle, tk_borrowed := b\<rparr>) (popped e))"
  using assms by (auto simp: executor_inv_def popped_def)

definition none_borrowed :: "('f, 'o, 'p) executor \<Rightarrow> bool" where
  "none_borrowed e \<longleftrightarrow> (\<forall>t. \<not> tk_borrowed (ex_tasks e t))"

lemma acts_none_borrowed: "acts e e' \<Longrightarrow> executor_inv e \<Longrightarrow> none_borrowed e \<Longrightarrow> none_borrowed e'"
  using acts_keep [of e e'] by (simp add: keeps_def none_borrowed_def)

lemma rc_wake_scheduled: "tk_state (ex_tasks e t) = Idle \<Longrightarrow> tk_state (ex_tasks (rc_wake (TaskWaker t) e) t) = Scheduled"
  by (simp add: Let_def)

lemma rc_wake_fields [simp]:
  "tk_payload (ex_tasks (rc_wake w e) t) = tk_payload (ex_tasks e t)"
  "tk_awaiter (ex_tasks (rc_wake w e) t) = tk_awaiter (ex_tasks e t)"
  "tk_borrowed (ex_tasks (rc_wake w e) t) = tk_borrowed (ex_tasks e t)"
  "ex_created_on (rc_wake w e) = ex_created_on e"
  "ex_next (rc_wake w e) = ex_next e"
  "ex_parker (rc_wake w e) = ex_parker e"
  by (cases w; simp add: Let_def split: state.splits)+

text \<open>The state in which a future is polled, and what it left behind.\<close>

lemma run_started_inv:
  assumes "executor_inv e" and "ex_queue e = t # q" and "none_borrowed e"
    and f: "tk_payload (ex_tasks e t) = Future f" and a: "acts (run_started t (popped e)) e1"
  shows "executor_inv e1" and "tk_payload (ex_tasks e1 t) = Future f" and "t < ex_next e1"
    and "tk_awaiter (ex_tasks e1 t) = tk_awaiter (ex_tasks e t)"
    and "\<exists>new. ex_queue e1 = q @ new" and "ex_created_on e1 = ex_created_on e"
    and "\<forall>u. tk_borrowed (ex_tasks e1 u) = (u = t)"
proof -
  have i: "executor_inv (run_started t (popped e))"
    unfolding run_started_def by (rule popped_idle_inv [OF assms(1,2)])
  note k = acts_keep [OF a i]
  show "executor_inv e1" using k by simp
  show "tk_payload (ex_tasks e1 t) = Future f" "\<exists>new. ex_queue e1 = q @ new"
    "tk_awaiter (ex_tasks e1 t) = tk_awaiter (ex_tasks e t)" "ex_created_on e1 = ex_created_on e"
    "\<forall>u. tk_borrowed (ex_tasks e1 u) = (u = t)"
    using k assms by (auto simp: keeps_def run_started_def popped_def none_borrowed_def)
  have "t < ex_next e" using assms(1,2) by (auto simp: executor_inv_def)
  then show "t < ex_next e1" using k by (auto simp: keeps_def run_started_def popped_def)
qed

lemma run_pending_inv:
  assumes "executor_inv e" and "tk_payload (ex_tasks e t) = Future f" and "t < ex_next e"
  shows "executor_inv (run_pending t g e)"
  using assms by (auto simp: executor_inv_def run_pending_def)

lemma run_done_inv: "executor_inv e \<Longrightarrow> t < ex_next e \<Longrightarrow> executor_inv (run_done t v e)"
  by (auto simp: executor_inv_def run_done_def)

context futures
begin

lemma run_frontE:
  assumes r: "run debug (ex_created_on e) X t (popped e) = Ret e'"
    and inv: "executor_inv e" "none_borrowed e" and q: "ex_queue e = t # q"
  obtains "\<forall>f. tk_payload (ex_tasks e t) \<noteq> Future f"
      and "e' = update_task t (\<lambda>k. k\<lparr>tk_state := Idle, tk_borrowed := False\<rparr>) (popped e)"
  | f f' e1 where "tk_payload (ex_tasks e t) = Future f"
      and "f_poll X f (TaskWaker t) (run_started t (popped e)) = Ret (Pending, f', e1)"
      and "acts (run_started t (popped e)) e1" and "e' = run_pending t f' e1"
  | f f' e1 v e2 where "tk_payload (ex_tasks e t) = Future f"
      and "f_poll X f (TaskWaker t) (run_started t (popped e)) = Ret (Ready v, f', e1)"
      and "acts (run_started t (popped e)) e1" and "f_drop X f' e1 = Ret e2" and "acts e1 e2"
      and "e' = (case tk_awaiter (ex_tasks e t) of None \<Rightarrow> run_done t v e2 | Some w \<Rightarrow> rc_wake w (run_done t v e2))"
proof (cases "tk_payload (ex_tasks e t)")
  case (Future f)
  have f: "tk_payload (ex_tasks (popped e) t) = Future f" "\<not> tk_borrowed (ex_tasks (popped e) t)"
    using Future inv by (simp_all add: popped_def none_borrowed_def)
  from r f obtain x f' e1 where p: "f_poll X f (TaskWaker t) (run_started t (popped e)) = Ret (x, f', e1)"
    by (auto simp: run_unfold bindM_Ret_conv)
  note a = poll_acts [OF p]
  show ?thesis
  proof (cases x)
    case Pending
    with r f p have "e' = run_pending t f' e1" by (simp add: run_unfold)
    with that(2) Future p Pending a show ?thesis by blast
  next
    case (Ready v)
    with r f p obtain e2 where d: "f_drop X f' e1 = Ret e2"
      and e': "(case tk_awaiter (ex_tasks e2 t) of None \<Rightarrow> Ret (run_done t v e2)
        | Some w \<Rightarrow> util_wake debug (ex_created_on e) w (run_done t v e2)) = Ret e'"
      by (auto simp: run_unfold bindM_Ret_conv)
    note a2 = drop_acts [OF d]
    note i1 = run_started_inv [OF inv(1) q inv(2) Future a]
    have k: "keeps e1 e2" using acts_keep [OF a2 i1(1)] by simp
    then have "tk_awaiter (ex_tasks e2 t) = tk_awaiter (ex_tasks e t)" "ex_created_on e2 = ex_created_on e"
      using i1 by (auto simp: keeps_def)
    with e' have "e' = (case tk_awaiter (ex_tasks e t) of None \<Rightarrow> run_done t v e2
        | Some w \<Rightarrow> rc_wake w (run_done t v e2))"
      by (auto simp: util_wake_same_thread run_done_def split: option.splits)
    with that(3) Future p Ready a d a2 show ?thesis by blast
  qed
qed (use r inv that(1) in \<open>auto simp: run_unfold popped_def none_borrowed_def\<close>)

lemma run_front:
  assumes r: "run debug (ex_created_on e) X t (popped e) = Ret e'"
    and inv: "executor_inv e" "none_borrowed e" and q: "ex_queue e = t # q"
  shows "executor_inv e'" and "none_borrowed e'" and "\<exists>new. ex_queue e' = q @ new"
    and "ex_created_on e' = ex_created_on e"
proof -
  have "executor_inv e' \<and> none_borrowed e' \<and> (\<exists>new. ex_queue e' = q @ new) \<and> ex_created_on e' = ex_created_on e"
  proof (rule run_frontE [OF r inv q])
    assume "e' = update_task t (\<lambda>k. k\<lparr>tk_state := Idle, tk_borrowed := False\<rparr>) (popped e)"
    then show ?thesis using popped_idle_inv [OF inv(1) q] inv(2) q
      by (auto simp: none_borrowed_def popped_def)
  next
    fix f f' e1
    assume f: "tk_payload (ex_tasks e t) = Future f" and a: "acts (run_started t (popped e)) e1"
      and e': "e' = run_pending t f' e1"
    note i = run_started_inv [OF inv(1) q inv(2) f a]
    have "executor_inv e'" unfolding e' by (rule run_pending_inv [OF i(1-3)])
    then show ?thesis using e' i(5-7) by (auto simp: run_pending_def none_borrowed_def)
  next
    fix f f' e1 v e2
    assume f: "tk_payload (ex_tasks e t) = Future f" and a: "acts (run_started t (popped e)) e1" "acts e1 e2"
      and e': "e' = (case tk_awaiter (ex_tasks e t) of None \<Rightarrow> run_done t v e2 | Some w \<Rightarrow> rc_wake w (run_done t v e2))"
    note i = run_started_inv [OF inv(1) q inv(2) f a(1)]
    have k: "executor_inv e2" "keeps e1 e2" using acts_keep [OF a(2) i(1)] by simp_all
    let ?d = "run_done t v e2"
    have d: "executor_inv ?d" using k i(3) by (intro run_done_inv) (auto simp: keeps_def)
    have "none_borrowed ?d \<and> (\<exists>new. ex_queue ?d = q @ new) \<and> ex_created_on ?d = ex_created_on e"
      using k(2) i(5-7) by (auto simp: keeps_def none_borrowed_def run_done_def)
    moreover have "executor_inv (rc_wake w ?d)" "\<exists>new. ex_queue (rc_wake w ?d) = ex_queue ?d @ new" for w
      using rc_wake_keeps [OF d, of w] by (simp_all add: keeps_def)
    ultimately show ?thesis using d
      by (cases "tk_awaiter (ex_tasks e t)") (auto simp: e' none_borrowed_def, metis append.assoc)
  qed
  then show "executor_inv e'" and "none_borrowed e'" and "\<exists>new. ex_queue e' = q @ new"
    and "ex_created_on e' = ex_created_on e" by blast+
qed

end

section \<open>Ticks\<close>

lemma wake_all_keeps:
  "wake_all debug (ex_created_on e) ws e = Ret e' \<Longrightarrow> executor_inv e \<Longrightarrow> executor_inv e' \<and> keeps e e'"
proof (induction ws arbitrary: e)
  case (Cons w ws)
  then have "wake_all debug (ex_created_on (rc_wake w e)) ws (rc_wake w e) = Ret e'"
    by (simp add: util_wake_same_thread)
  from Cons.IH [OF this] rc_wake_keeps [OF Cons.prems(2), of w] show ?case using keeps_trans by blast
qed (simp add: keeps_refl)

lemma wake_all_returns: "returns (wake_all debug (ex_created_on e) ws e)"
proof (induction ws arbitrary: e)
  case (Cons w ws)
  from Cons.IH [of "rc_wake w e"] show ?case by (simp add: util_wake_same_thread)
qed simp

lemma park_and_wake_keeps:
  assumes "park_and_wake debug (ex_created_on e) park e = Ret e'" and "executor_inv e"
  shows "executor_inv e'" and "keeps e e'"
proof -
  obtain r ws p where "park (ex_parker e) [] = (r, ws, p)" by (metis prod_cases3)
  with assms have w: "wake_all debug (ex_created_on (e\<lparr>ex_parker := p\<rparr>)) ws (e\<lparr>ex_parker := p\<rparr>) = Ret e'"
    by (auto simp: park_and_wake_def split: sum.splits)
  have "executor_inv (e\<lparr>ex_parker := p\<rparr>)" "keeps e (e\<lparr>ex_parker := p\<rparr>)"
    using assms(2) by (simp_all add: executor_inv_def keeps_def)
  with wake_all_keeps [OF w] show "executor_inv e'" "keeps e e'" using keeps_trans by blast+
qed

lemma keeps_facts:
  assumes "keeps e e'"
  shows "\<exists>new. ex_queue e' = ex_queue e @ new" and "ex_created_on e' = ex_created_on e"
    and "none_borrowed e \<Longrightarrow> none_borrowed e'"
  using assms by (auto simp: keeps_def none_borrowed_def)

context futures
begin

lemma tick_spec:
  "tick debug th X P n e = Ret (rs, e') \<Longrightarrow> th = ex_created_on e \<Longrightarrow> executor_inv e \<Longrightarrow> none_borrowed e \<Longrightarrow>
     length rs \<le> n \<and> (\<exists>new. ex_queue e @ new = rs @ ex_queue e') \<and>
     executor_inv e' \<and> none_borrowed e' \<and> ex_created_on e' = ex_created_on e"
proof (induction n arbitrary: e rs)
  case 0
  then have p: "park_and_wake debug (ex_created_on e) (\<lambda>p. pk_park_timeout P p 0) e = Ret e'" and r: "rs = []"
    by (auto simp: bindM_Ret_conv)
  note k = park_and_wake_keeps [OF p 0(3)]
  from r k(1) keeps_facts [OF k(2)] 0 show ?case by auto
next
  case (Suc n)
  show ?case
  proof (cases "ex_queue e")
    case Nil
    with Suc have p: "park_and_wake debug (ex_created_on e) (pk_park P) e = Ret e'" and r: "rs = []"
      by (auto simp: bindM_Ret_conv)
    note k = park_and_wake_keeps [OF p Suc.prems(3)]
    from r k(1) keeps_facts [OF k(2)] Suc.prems show ?thesis by auto
  next
    case (Cons t q)
    from Suc.prems(1,2) Cons obtain e1 where r: "run debug (ex_created_on e) X t (popped e) = Ret e1"
      and rest: "(if ex_woke e1 then Ret ([t], e1)
        else bindM (tick debug th X P n e1) (\<lambda>(rs, e). Ret (t # rs, e))) = Ret (rs, e')"
      by (auto simp: popped_def bindM_Ret_conv)
    note f = run_front [OF r Suc.prems(3,4) Cons]
    obtain new where new: "ex_queue e1 = q @ new" using f(3) by blast
    show ?thesis
    proof (cases "ex_woke e1")
      case True
      with rest f new Cons show ?thesis by auto
    next
      case False
      with rest obtain ran1 where t: "tick debug th X P n e1 = Ret (ran1, e')" and rs: "rs = t # ran1"
        by (auto simp: bindM_Ret_conv)
      from Suc.IH [OF t] Suc.prems(2) f obtain new1 where "ex_queue e1 @ new1 = ran1 @ ex_queue e'"
        and "length ran1 \<le> n \<and> executor_inv e' \<and> none_borrowed e' \<and> ex_created_on e' = ex_created_on e1"
        by auto
      with rs new Cons f(4) show ?thesis by (auto intro!: exI [of _ "new @ new1"])
    qed
  qed
qed

end

section \<open>Reachable executors\<close>

text \<open>
  From a new executor: the main future and code outside the runtime act, tasks at the front of
  the queue run, the parker changes and its wakers are called (which \<open>acts\<close> covers), and the
  flag of the main future is set and cleared.
\<close>

inductive executor_reach ::
    "bool \<Rightarrow> nat \<Rightarrow> ('f, 'o, 'p) future_api \<Rightarrow> ('f, 'o, 'p) executor \<Rightarrow> bool" for debug th X where
  start: "executor_reach debug th X (executor_new th p)"
| acted: "executor_reach debug th X e \<Longrightarrow> acts e e' \<Longrightarrow> executor_reach debug th X e'"
| ran: "executor_reach debug th X e \<Longrightarrow> ex_queue e = t # q \<Longrightarrow>
     run debug th X t (e\<lparr>ex_queue := q\<rparr>) = Ret e' \<Longrightarrow> executor_reach debug th X e'"
| flag: "executor_reach debug th X e \<Longrightarrow> executor_reach debug th X (e\<lparr>ex_woke := b\<rparr>)"

context futures
begin

lemma executor_reach_inv:
  "executor_reach debug th X e \<Longrightarrow> executor_inv e \<and> none_borrowed e \<and> ex_created_on e = th"
proof (induction rule: executor_reach.induct)
  case (start p)
  then show ?case using executor_inv_new by (simp add: none_borrowed_def executor_new_def)
next
  case (acted e e')
  then show ?case using acts_keep [of e e'] keeps_facts [of e e'] by auto
next
  case (ran e t q e')
  then have "run debug (ex_created_on e) X t (popped e) = Ret e'" by (simp add: popped_def)
  from run_front [OF this] ran show ?case by auto
next
  case (flag e b)
  then show ?case by (simp add: executor_inv_def none_borrowed_def)
qed

end

end
