(* ===== verification/Executor_Properties.thy ===== *)
theory Executor_Properties
  imports Executor_Invariant
begin

text \<open>
  What the executor guarantees for futures that keep the contract \<open>futures\<close>: wakeups are not
  lost and not doubled, tasks run in the order they were scheduled, outputs are joined once,
  and the ways a run can fail are those of the futures.
\<close>

section \<open>Concrete executors\<close>

text \<open>
  The executor with one task that has to yield once, and after its first run, in which it woke
  itself; and the same with the main future waiting to join that task.
\<close>

definition ex_spawned :: "(task_future, unit, duration option list) executor" where
  "ex_spawned = snd (spawn yield_now (executor_new 0 []))"

definition ex_yielded :: "(task_future, unit, duration option list) executor" where
  "ex_yielded = run_pending 0 (YieldNow True) (rc_wake (TaskWaker 0) (run_started 0 (popped ex_spawned)))"

definition ex_joining :: "(task_future, unit, duration option list) executor" where
  "ex_joining = update_task 0 (\<lambda>k. k\<lparr>tk_awaiter := Some MainWaker, tk_borrowed := False\<rparr>) ex_yielded"

lemmas executor_eval = spawn_def executor_new_def run_started_def run_pending_def run_done_def popped_def
  update_task_def Let_def yield_now_def

lemma ex_spawned_reach: "executor_reach debug 0 (task_futures 0) ex_spawned"
proof -
  have "acts (executor_new 0 []) ex_spawned"
    unfolding ex_spawned_def by (rule acts.act_spawn [OF acts.act_none]) (simp add: prod_eq_iff)
  with executor_reach.start show ?thesis by (rule executor_reach.acted)
qed

lemma ex_spawned_queue: "ex_queue ex_spawned = [0]" "tk_payload (ex_tasks ex_spawned 0) = Future (YieldNow False)"
  "tk_awaiter (ex_tasks ex_spawned 0) = None" "ex_created_on ex_spawned = 0"
  "tk_borrowed (ex_tasks ex_spawned 0) = False"
  by (simp_all add: ex_spawned_def executor_eval)

lemma ex_yielded_run: "run debug 0 (task_futures 0) 0 (popped ex_spawned) = Ret ex_yielded"
  by (simp add: run_unfold ex_spawned_queue ex_yielded_def popped_def task_futures_def waker_wake_def
      assert_not_sent_def run_started_def)

lemma ex_yielded_reach: "executor_reach debug 0 (task_futures 0) ex_yielded"
  by (rule executor_reach.ran [OF ex_spawned_reach ex_spawned_queue(1)])
    (use ex_yielded_run in \<open>simp add: popped_def ex_spawned_queue\<close>)

lemma ex_yielded_facts: "ex_queue ex_yielded = [0]" "tk_payload (ex_tasks ex_yielded 0) = Future (YieldNow True)"
  "tk_awaiter (ex_tasks ex_yielded 0) = None" "ex_created_on ex_yielded = 0"
  "tk_borrowed (ex_tasks ex_yielded 0) = False" "tk_state (ex_tasks ex_yielded 0) = Scheduled"
  by (simp_all add: ex_yielded_def ex_spawned_def executor_eval)

lemma ex_joining_reach: "executor_reach debug 0 (task_futures 0) ex_joining"
proof -
  have "poll_output 0 0 MainWaker ex_yielded = Ret (Pending, ex_joining)"
    by (simp add: poll_output_def borrow_payload_def release_payload_def waker_clone_def assert_not_sent_def
        ex_joining_def ex_yielded_facts update_task_twice)
  with ex_yielded_reach show ?thesis
    by (metis executor_reach.acted acts.act_join acts.act_none)
qed

section \<open>Scheduling\<close>

text \<open>
  C12. The queue holds every task at most once, and a live task is in the queue exactly when it
  is scheduled. Waking it puts it into the queue, wherever it was before: no wakeup is lost
  and none is doubled.
\<close>

theorem wakeups_exact:
  assumes "futures X" and "executor_reach debug th X e" and "tk_payload (ex_tasks e t) = Future f"
  shows "distinct (ex_queue e) \<and>
    (t \<in> set (ex_queue e) \<longleftrightarrow> tk_state (ex_tasks e t) = Scheduled) \<and>
    t \<in> set (ex_queue (rc_wake (TaskWaker t) e)) \<and> distinct (ex_queue (rc_wake (TaskWaker t) e))"
proof -
  have inv: "executor_inv e" using futures.executor_reach_inv [OF assms(1,2)] by simp
  have w: "executor_inv (rc_wake (TaskWaker t) e)" by (rule rc_wake_keeps [OF inv])
  have "tk_state (ex_tasks e t) \<noteq> Done" using inv assms(3) by (auto simp: executor_inv_def)
  then have "tk_state (ex_tasks (rc_wake (TaskWaker t) e) t) = Scheduled"
    by (cases "tk_state (ex_tasks e t)") (simp_all add: Let_def)
  with w have "t \<in> set (ex_queue (rc_wake (TaskWaker t) e))" "distinct (ex_queue (rc_wake (TaskWaker t) e))"
    unfolding executor_inv_def by blast+
  moreover have "t \<in> set (ex_queue e) \<longleftrightarrow> tk_state (ex_tasks e t) = Scheduled"
    using inv \<open>tk_state (ex_tasks e t) \<noteq> Done\<close> unfolding executor_inv_def by (metis state.exhaust)
  ultimately show ?thesis using inv by (simp add: executor_inv_def)
qed

theorem wakeups_exact_witness: "distinct (ex_queue (rc_wake (TaskWaker 0) ex_yielded))"
  using wakeups_exact [OF task_module.futures_axioms ex_yielded_reach ex_yielded_facts(2)] by blast

text \<open>
  A task that is woken while it is being polled is not forgotten: if the poll is pending
  and the task was scheduled meanwhile, then the run returns with the task in the queue, its
  future kept, to be polled again.
\<close>

theorem wake_while_polled:
  assumes "futures X" and "executor_reach debug th X e" and q: "ex_queue e = t # q"
    and f: "tk_payload (ex_tasks e t) = Future f"
    and p: "f_poll X f (TaskWaker t) (run_started t (popped e)) = Ret (Pending, f', e1)"
    and s: "tk_state (ex_tasks e1 t) = Scheduled"
  shows "\<exists>e'. run debug th X t (popped e) = Ret e' \<and> t \<in> set (ex_queue e') \<and>
    tk_payload (ex_tasks e' t) = Future f'"
proof -
  have inv: "executor_inv e" "none_borrowed e" using futures.executor_reach_inv [OF assms(1,2)] by simp_all
  note i = run_started_inv [OF inv(1) q inv(2) f futures.poll_acts [OF assms(1) p]]
  have "t \<in> set (ex_queue e1)" using i(1) s by (auto simp: executor_inv_def)
  moreover have "run debug th X t (popped e) = Ret (run_pending t f' e1)"
    using f p inv by (simp add: run_unfold none_borrowed_def popped_def)
  ultimately show ?thesis by (simp add: run_pending_def)
qed

theorem wake_while_polled_witness:
  "\<exists>e'. run True 0 (task_futures 0) 0 (popped ex_spawned) = Ret e' \<and> 0 \<in> set (ex_queue e') \<and>
    tk_payload (ex_tasks e' 0) = Future (YieldNow True)"
  by (rule wake_while_polled [OF task_module.futures_axioms ex_spawned_reach ex_spawned_queue(1,2),
        of _ "rc_wake (TaskWaker 0) (run_started 0 (popped ex_spawned))"])
    (simp_all add: task_futures_def waker_wake_def assert_not_sent_def run_started_def popped_def
      ex_spawned_queue Let_def)

text \<open>
  A tick is fair: it runs at most as many tasks as it was given polls (61 between two
  parks), in the order in which they were scheduled. The tasks that ran and then those left are
  exactly the queue at the start with what was scheduled during the tick behind it.
\<close>

theorem tick_fair:
  assumes "futures X" and "executor_reach debug th X e"
    and "tick debug th X P polls_per_tick e = Ret (ts, e')"
  shows "length ts \<le> 61 \<and> (\<exists>new. ex_queue e @ new = ts @ ex_queue e')"
  using futures.tick_spec [OF assms(1,3)] futures.executor_reach_inv [OF assms(1,2)]
  by (simp add: polls_per_tick_def)

lemma tick_pos:
  "0 < n \<Longrightarrow> tick debug th X P n e =
     (case ex_queue e of
        [] \<Rightarrow> bindM (park_and_wake debug th (pk_park P) e) (\<lambda>e. Ret ([], e))
      | t # queue \<Rightarrow>
          bindM (run debug th X t (popped e)) (\<lambda>e.
            if ex_woke e then Ret ([t], e)
            else bindM (tick debug th X P (n - 1) e) (\<lambda>(ts, e). Ret (t # ts, e))))"
  by (cases n) (simp_all add: popped_def split: list.split cong: if_cong)

text \<open>The task of \<open>ex_yielded\<close> completes when it runs again, and then the executor parks.\<close>

definition ex_completed :: "(task_future, unit, duration option list) executor" where
  "ex_completed = run_done 0 () (run_started 0 (popped ex_yielded))"

lemma ex_completed_run: "run debug 0 (task_futures 0) 0 (popped ex_yielded) = Ret ex_completed"
  by (simp add: run_unfold ex_yielded_facts ex_completed_def popped_def task_futures_def run_started_def)

lemma ex_completed_facts: "ex_queue ex_completed = []" "\<not> ex_woke ex_completed" "ex_parker ex_completed = []"
  "tk_payload (ex_tasks ex_completed 0) = Output ()"
  by (simp_all add: ex_completed_def ex_yielded_def ex_spawned_def executor_eval)

lemma ex_spawned_tick:
  "2 < n \<Longrightarrow> tick debug 0 (task_futures 0) log_park n ex_spawned = Ret ([0, 0], ex_completed\<lparr>ex_parker := [None]\<rparr>)"
  by (simp add: tick_pos ex_spawned_queue ex_yielded_run ex_yielded_facts ex_completed_run
      ex_completed_facts park_and_wake_def)
    (simp add: ex_yielded_def ex_spawned_def executor_eval)

theorem tick_fair_witness: "\<exists>new. ex_queue ex_spawned @ new = [0, 0] @ ex_queue ex_completed"
proof -
  have "tick True 0 (task_futures 0) log_park polls_per_tick ex_spawned =
      Ret ([0, 0], ex_completed\<lparr>ex_parker := [None]\<rparr>)"
    by (rule ex_spawned_tick) (simp add: polls_per_tick_def)
  from tick_fair [OF task_module.futures_axioms ex_spawned_reach this] show ?thesis by simp
qed

lemma park_and_wake_returns:
  assumes "fst (park (ex_parker e) []) = Inr ()" and "th = ex_created_on e"
  shows "returns (park_and_wake debug th park e)"
proof -
  obtain ws p where "park (ex_parker e) [] = (Inr (), ws, p)" using assms(1) by (metis prod.collapse)
  with wake_all_returns [of debug "e\<lparr>ex_parker := p\<rparr>" ws] assms(2) show ?thesis
    by (simp add: park_and_wake_def)
qed

lemma run_front_returns:
  assumes X: "futures X" and inv: "executor_inv e" "none_borrowed e" and q: "ex_queue e = t # q"
    and total: "\<forall>f w e1. ex_created_on e1 = ex_created_on e \<longrightarrow> returns (f_poll X f w e1) \<and> returns (f_drop X f e1)"
  shows "returns (run debug (ex_created_on e) X t (popped e))"
proof (cases "tk_payload (ex_tasks e t)")
  case (Future f)
  have f: "tk_payload (ex_tasks (popped e) t) = Future f" "\<not> tk_borrowed (ex_tasks (popped e) t)"
    using Future inv by (simp_all add: popped_def none_borrowed_def)
  have "ex_created_on (run_started t (popped e)) = ex_created_on e" by (simp add: run_started_def popped_def)
  with total have "returns (f_poll X f (TaskWaker t) (run_started t (popped e)))" by blast
  then obtain r f' e1 where p: "f_poll X f (TaskWaker t) (run_started t (popped e)) = Ret (r, f', e1)"
    by (auto simp: returns_conv)
  note i = run_started_inv [OF inv(1) q inv(2) Future futures.poll_acts [OF X p]]
  show ?thesis
  proof (cases r)
    case Pending
    with f p show ?thesis by (simp add: run_unfold)
  next
    case (Ready v)
    from total i(6) have "returns (f_drop X f' e1)" by blast
    then obtain e2 where d: "f_drop X f' e1 = Ret e2" by (auto simp: returns_conv)
    have "ex_created_on e2 = ex_created_on e"
      using acts_keep [OF futures.drop_acts [OF X d] i(1)] i(6) by (simp add: keeps_def)
    with f p Ready d show ?thesis
      by (auto simp: run_unfold util_wake_same_thread run_done_def split: option.splits)
  qed
qed (use inv in \<open>auto simp: run_unfold popped_def none_borrowed_def\<close>)

text \<open>
  C24. The executor does not fail by itself: when polling and dropping a future always returns,
  and the parker reports no error, then a tick returns; in particular no payload is borrowed
  twice and every waker that is called belongs to the thread.
\<close>

theorem tick_returns:
  assumes "futures X" and "executor_reach debug th X e"
    and "\<forall>f w e. ex_created_on e = th \<longrightarrow> returns (f_poll X f w e) \<and> returns (f_drop X f e)"
    and "\<forall>p d ws. fst (pk_park P p ws) = Inr () \<and> fst (pk_park_timeout P p d ws) = Inr ()"
  shows "returns (tick debug th X P n e)"
  using assms(2)
proof (induction n arbitrary: e)
  case 0
  have "ex_created_on e = th" using futures.executor_reach_inv [OF assms(1) 0] by simp
  then have "returns (park_and_wake debug th (\<lambda>p. pk_park_timeout P p 0) e)"
    using assms(4) by (intro park_and_wake_returns) auto
  then show ?case by (auto simp: returns_conv)
next
  case (Suc n)
  have inv: "executor_inv e" "none_borrowed e" "ex_created_on e = th"
    using futures.executor_reach_inv [OF assms(1) Suc.prems] by simp_all
  show ?case
  proof (cases "ex_queue e")
    case Nil
    have "returns (park_and_wake debug th (pk_park P) e)"
      using inv(3) assms(4) by (intro park_and_wake_returns) auto
    with Nil show ?thesis by (auto simp: returns_conv)
  next
    case (Cons t q)
    obtain e1 where r: "run debug th X t (popped e) = Ret e1"
      using run_front_returns [OF assms(1) inv(1,2) Cons, of debug] assms(3) inv(3) by (auto simp: returns_conv)
    have "executor_reach debug th X e1"
      by (rule executor_reach.ran [OF Suc.prems Cons]) (use r Cons in \<open>simp add: popped_def\<close>)
    from Suc.IH [OF this] r Cons show ?thesis by (auto simp: returns_conv popped_def)
  qed
qed

text \<open>Futures that only yield, for which every poll returns.\<close>

definition yield_futures :: "nat \<Rightarrow> (bool, unit, 'p) future_api" where
  "yield_futures th = \<lparr>f_poll = yield_poll th, f_drop = (\<lambda>_ e. Ret e)\<rparr>"

lemma yield_futures_ok: "futures (yield_futures th)"
proof
  fix f f' :: bool and w r and e e' :: "(bool, unit, 'a) executor"
  assume "f_poll (yield_futures th) f w e = Ret (r, f', e')"
  then show "acts e e'"
    by (cases f) (auto simp: yield_futures_def bindM_Ret_conv waker_wake_Ret
        intro: acts.act_none acts.act_wake [OF acts.act_none])
qed (auto simp: yield_futures_def intro: acts.act_none)

theorem tick_returns_witness:
  "returns (tick True 3 (yield_futures 3) log_park 61 (executor_new 3 []))"
proof (rule tick_returns [OF yield_futures_ok executor_reach.start])
  show "\<forall>f w e. ex_created_on e = 3 \<longrightarrow> returns (f_poll (yield_futures 3) f w e) \<and> returns (f_drop (yield_futures 3) f e)"
    by (auto simp: yield_futures_def waker_wake_def assert_not_sent_def returns_conv all_bool_eq)
qed simp

section \<open>Joining and cancelling\<close>

text \<open>
  C31. A join does not miss its task: when the poll of a task is ready, the run stores the
  output and calls the waker that the join handle left (the main future is flagged, a live task
  is in the queue). The next poll of the handle takes the output; the output is there once, and
  polling the handle again panics.
\<close>

theorem join_delivers_once:
  assumes "futures X" and "executor_reach debug th X e" and q: "ex_queue e = t # q"
    and f: "tk_payload (ex_tasks e t) = Future f" and w: "tk_awaiter (ex_tasks e t) = Some w"
    and p: "f_poll X f (TaskWaker t) (run_started t (popped e)) = Ret (Ready v, f', e1)"
    and d: "f_drop X f' e1 = Ret e2"
  shows "\<exists>e'. run debug th X t (popped e) = Ret e' \<and>
    (w = MainWaker \<longrightarrow> ex_woke e') \<and>
    (\<forall>u g. w = TaskWaker u \<longrightarrow> tk_payload (ex_tasks e' u) = Future g \<longrightarrow> u \<in> set (ex_queue e')) \<and>
    (\<exists>e3. join_handle_poll th (join_handle_new (Task t)) cx e' = Ret (Ready v, e3) \<and>
       join_handle_poll th (join_handle_new (Task t)) cx' e3 = Panic PolledAfterCompletion)"
proof -
  have inv: "executor_inv e" "none_borrowed e" "ex_created_on e = th"
    using futures.executor_reach_inv [OF assms(1,2)] by simp_all
  note i = run_started_inv [OF inv(1) q inv(2) f futures.poll_acts [OF assms(1) p]]
  have k: "executor_inv e2" "keeps e1 e2" using acts_keep [OF futures.drop_acts [OF assms(1) d] i(1)] by simp_all
  have dn: "executor_inv (run_done t v e2)" using k i(3) by (intro run_done_inv) (auto simp: keeps_def)
  have e2: "tk_awaiter (ex_tasks e2 t) = Some w" "ex_created_on e2 = th"
    using k(2) i w inv(3) by (auto simp: keeps_def)
  let ?e' = "rc_wake w (run_done t v e2)"
  have r: "run debug th X t (popped e) = Ret ?e'"
    using f p d e2 inv(2) by (simp add: run_unfold none_borrowed_def popped_def util_wake_same_thread run_done_def)
  have m: "w = MainWaker \<longrightarrow> ex_woke ?e'" by simp
  have u: "u \<in> set (ex_queue ?e')" if "w = TaskWaker u" "tk_payload (ex_tasks ?e' u) = Future g" for u g
  proof -
    have "executor_inv ?e'" by (rule rc_wake_keeps [OF dn])
    moreover have "tk_state (ex_tasks (run_done t v e2) u) \<noteq> Done" using that dn by (auto simp: executor_inv_def)
    then have "tk_state (ex_tasks ?e' u) = Scheduled"
      using that(1) by (cases "tk_state (ex_tasks (run_done t v e2) u)") (simp_all add: Let_def)
    ultimately show ?thesis by (auto simp: executor_inv_def)
  qed
  have "tk_payload (ex_tasks ?e' t) = Output v" "\<not> tk_borrowed (ex_tasks ?e' t)" by (simp_all add: run_done_def)
  then have "\<exists>e3. join_handle_poll th (join_handle_new (Task t)) cx ?e' = Ret (Ready v, e3) \<and>
      join_handle_poll th (join_handle_new (Task t)) cx' e3 = Panic PolledAfterCompletion"
    by (simp add: poll_output_def borrow_payload_def release_payload_def)
  with r m u show ?thesis by blast
qed

theorem join_delivers_once_witness:
  "\<exists>e'. run True 0 (task_futures 0) 0 (popped ex_joining) = Ret e' \<and> ex_woke e'"
proof -
  have q: "ex_queue ex_joining = [0]" "tk_payload (ex_tasks ex_joining 0) = Future (YieldNow True)"
    "tk_awaiter (ex_tasks ex_joining 0) = Some MainWaker"
    by (simp_all add: ex_joining_def ex_yielded_facts)
  show ?thesis
    using join_delivers_once [OF task_module.futures_axioms ex_joining_reach q, of "()" "YieldNow True"
        "run_started 0 (popped ex_joining)" "run_started 0 (popped ex_joining)" True MainWaker MainWaker]
    by (auto simp: task_futures_def)
qed

text \<open>
  Cancelling takes the output of a completed task, or stops the task for good: its future is
  dropped, and when the task comes up in the queue again its run polls nothing, it only becomes
  idle.
\<close>

theorem cancel_stops:
  assumes "futures X" and "executor_reach debug th X e" and "join_handle_cancel X (join_handle_new (Task t)) e = Ret (r, e')"
    and "t < ex_next e"
  shows "r = (case tk_payload (ex_tasks e t) of Output v \<Rightarrow> Some v | _ \<Rightarrow> None) \<and>
    tk_payload (ex_tasks e' t) = Taken \<and>
    run debug th X t (popped e') = Ret (update_task t (\<lambda>k. k\<lparr>tk_state := Idle, tk_borrowed := False\<rparr>) (popped e'))"
proof -
  have c: "cancel X t e = Ret (r, e')" using assms(3) by simp
  have inv: "executor_inv e" "none_borrowed e" using futures.executor_reach_inv [OF assms(1,2)] by simp_all
  obtain e1 where b: "borrow_payload t e = Ret e1" using c by (auto simp: cancel_def bindM_Ret_conv)
  let ?e1 = "update_task t (\<lambda>k. k\<lparr>tk_payload := Taken\<rparr>) e1"
  have p: "tk_payload (ex_tasks e1 t) = tk_payload (ex_tasks e t)" "tk_borrowed (ex_tasks ?e1 t)"
    using b by (auto simp: borrow_payload_def split: if_splits)
  obtain e2 where e2: "(case tk_payload (ex_tasks e t) of Future f \<Rightarrow> f_drop X f ?e1 | _ \<Rightarrow> Ret ?e1) = Ret e2"
    and r: "r = (case tk_payload (ex_tasks e t) of Output v \<Rightarrow> Some v | _ \<Rightarrow> None)" and e': "e' = release_payload t e2"
    using c b p by (auto simp: cancel_def bindM_Ret_conv Let_def)
  have "acts ?e1 e2"
    using e2 futures.drop_acts [OF assms(1)] acts.act_none by (auto split: payload.splits)
  then have "keeps ?e1 e2" using acts_keep borrow_take_inv [OF inv(1) assms(4) b] by blast
  then have "tk_payload (ex_tasks e2 t) = Taken" using p(2) by (auto simp: keeps_def)
  with e' r show ?thesis by (simp add: run_unfold release_payload_def popped_def)
qed

theorem cancel_stops_witness:
  "\<exists>e'. join_handle_cancel (task_futures 0) (join_handle_new (Task 0)) ex_yielded = Ret (None, e') \<and> tk_payload (ex_tasks e' 0) = Taken"
proof -
  obtain e' where c: "join_handle_cancel (task_futures 0) (join_handle_new (Task 0)) ex_yielded = Ret (None, e')"
    by (simp add: cancel_def borrow_payload_def ex_yielded_facts task_futures_def)
  have "0 < ex_next ex_yielded" by (simp add: ex_yielded_def ex_spawned_def executor_eval)
  with c show ?thesis
    using cancel_stops [OF task_module.futures_axioms ex_yielded_reach c] by simp
qed

section \<open>The main future\<close>

text \<open>
  C32. A main future that wakes itself in a pending poll is not polled again at once: when no
  task is queued, the runtime parks without a timeout although the main future is woken, and
  only an event or a timer lets it go on. (So \<open>yield_now\<close> in the main future blocks a runtime
  that has nothing else to do.)
\<close>

theorem woken_main_parks:
  assumes "main_poll g MainWaker (e\<lparr>ex_woke := False\<rparr>) = Ret (Pending, g', e1)"
    and "ex_woke e1" and "ex_queue e1 = []"
  shows "block_on debug th X P main_poll g e =
    bindM (park_and_wake debug th (pk_park P) e1) (block_on_loop debug th X P main_poll g')"
proof -
  have "tick debug th X P polls_per_tick e1 = bindM (park_and_wake debug th (pk_park P) e1) (\<lambda>e. Ret ([], e))"
    using assms(3) by (simp add: tick_pos polls_per_tick_def)
  then show ?thesis using assms(1)
    by (simp add: block_on_def block_on_loop.simps [of debug th X P main_poll g] bindM_def
        split: option.split sum.split)
qed

theorem woken_main_parks_witness:
  "\<exists>e'. block_on True 0 (task_futures 0) log_park (yield_poll 0) False (executor_new 0 []) = Ret ((), e') \<and>
     ex_parker e' = [None]"
proof -
  let ?e1 = "(executor_new 0 [])\<lparr>ex_woke := True\<rparr> :: (task_future, unit, duration option list) executor"
  have "block_on True 0 (task_futures 0) log_park (yield_poll 0) False (executor_new 0 []) =
      bindM (park_and_wake True 0 (pk_park log_park) ?e1) (block_on_loop True 0 (task_futures 0) log_park (yield_poll 0) True)"
    by (rule woken_main_parks) (simp_all add: waker_wake_def assert_not_sent_def executor_new_def)
  then show ?thesis by (simp add: park_and_wake_def block_on_loop.simps executor_new_def)
qed

end
