(* ===== verification/Wakers.thy ===== *)
theory Wakers
  imports Executor_Invariant
begin

text \<open>
  The memory behind wakers, from \<open>src/runtime/executor.rs\<close>: a \<open>Waker\<close> is a raw pointer into a
  reference-counted allocation (the shared part of the executor, or a task), and the entries of
  its virtual table turn the pointer back into a reference. The model keeps the strong count of
  each allocation beside the executor; an access to an allocation whose count is zero is a value
  of its own. The second part runs wakers, handles and the queue on these operations.
\<close>

section \<open>The code\<close>

text \<open>
  An allocation is named by its waker. A call of the virtual table returns, or it panics and
  unwinds, which drops the references it holds at that point; both leave a memory.
\<close>

record ('f, 'o, 'p) memory =
  me_exec :: "('f, 'o, 'p) executor"
  me_count :: "waker \<Rightarrow> nat"

datatype 'a call = UseAfterFree | Unwound 'a | Returned 'a

text \<open>
  \<open>Rc\<close>: cloning and dropping a reference need a live allocation. A task holds a reference to the
  shared executor (its field \<open>executor\<close>), which goes when the task is freed. Counts are
  unbounded here; the library aborts when one overflows.
\<close>

definition rc_alive :: "waker \<Rightarrow> ('f, 'o, 'p) memory \<Rightarrow> bool" where
  "rc_alive w m \<longleftrightarrow> 0 < me_count m w"

definition rc_clone :: "waker \<Rightarrow> ('f, 'o, 'p) memory \<Rightarrow> ('f, 'o, 'p) memory option" where
  "rc_clone w m =
     (if rc_alive w m then Some (m\<lparr>me_count := (me_count m)(w := me_count m w + 1)\<rparr>) else None)"

definition rc_release :: "waker \<Rightarrow> ('f, 'o, 'p) memory \<Rightarrow> ('f, 'o, 'p) memory option" where
  "rc_release w m =
     (if rc_alive w m then Some (m\<lparr>me_count := (me_count m)(w := me_count m w - 1)\<rparr>) else None)"

definition rc_drop :: "waker \<Rightarrow> ('f, 'o, 'p) memory \<Rightarrow> ('f, 'o, 'p) memory option" where
  "rc_drop w m =
     (case rc_release w m of
        None \<Rightarrow> None
      | Some m \<Rightarrow> (case w of
            MainWaker \<Rightarrow> Some m
          | TaskWaker t \<Rightarrow> if rc_alive w m then Some m else rc_release MainWaker m))"

text \<open>
  \<open>RcWake::wake(self: Rc<Self>)\<close> consumes a reference; the queue gets a clone of its own.
\<close>

fun owned_wake :: "waker \<Rightarrow> ('f, 'o, 'p) memory \<Rightarrow> ('f, 'o, 'p) memory option" where
  "owned_wake MainWaker m = rc_drop MainWaker (m\<lparr>me_exec := rc_wake MainWaker (me_exec m)\<rparr>)"
| "owned_wake (TaskWaker t) m =
     (case tk_state (ex_tasks (me_exec m) t) of
        Idle \<Rightarrow>
          (case rc_clone (TaskWaker t) m of
             None \<Rightarrow> None
           | Some m \<Rightarrow> rc_drop (TaskWaker t) (m\<lparr>me_exec := rc_wake (TaskWaker t) (me_exec m)\<rparr>))
      | _ \<Rightarrow> rc_drop (TaskWaker t) m)"

text \<open>
  The virtual table. Each entry rebuilds the reference from the pointer and then checks the
  thread, for which it reads the executor's field through the task. In \<open>clone\<close>, \<open>wake\<close> and
  \<open>drop\<close> the reference is dropped when the check panics, in \<open>wake_by_ref\<close> it is not
  (\<open>ManuallyDrop\<close>). Turning a pointer into a reference and back changes no count.
\<close>

definition finish :: "('f, 'o, 'p) memory option \<Rightarrow> (('f, 'o, 'p) memory \<Rightarrow> ('f, 'o, 'p) memory call) \<Rightarrow> ('f, 'o, 'p) memory call" where
  "finish r c = (case r of None \<Rightarrow> UseAfterFree | Some m \<Rightarrow> c m)"

definition vtable_guard :: "nat \<Rightarrow> waker \<Rightarrow> ('f, 'o, 'p) memory \<Rightarrow> ('f, 'o, 'p) memory call \<Rightarrow> ('f, 'o, 'p) memory call \<Rightarrow> ('f, 'o, 'p) memory call" where
  "vtable_guard th w m sent here =
     (if rc_alive w m \<and> rc_alive MainWaker m then
        (if th \<noteq> ex_created_on (me_exec m) then sent else here)
      else UseAfterFree)"

definition vt_clone :: "nat \<Rightarrow> waker \<Rightarrow> ('f, 'o, 'p) memory \<Rightarrow> ('f, 'o, 'p) memory call" where
  "vt_clone th w m = vtable_guard th w m (finish (rc_drop w m) Unwound) (finish (rc_clone w m) Returned)"

definition vt_wake :: "nat \<Rightarrow> waker \<Rightarrow> ('f, 'o, 'p) memory \<Rightarrow> ('f, 'o, 'p) memory call" where
  "vt_wake th w m = vtable_guard th w m (finish (rc_drop w m) Unwound) (finish (owned_wake w m) Returned)"

definition vt_wake_by_ref :: "nat \<Rightarrow> waker \<Rightarrow> ('f, 'o, 'p) memory \<Rightarrow> ('f, 'o, 'p) memory call" where
  "vt_wake_by_ref th w m = vtable_guard th w m (Unwound m)
     (finish (rc_clone w m) (\<lambda>m. finish (owned_wake w m) Returned))"

definition vt_drop :: "nat \<Rightarrow> waker \<Rightarrow> ('f, 'o, 'p) memory \<Rightarrow> ('f, 'o, 'p) memory call" where
  "vt_drop th w m = vtable_guard th w m (finish (rc_drop w m) Unwound) (finish (rc_drop w m) Returned)"

section \<open>Who owns what\<close>

text \<open>
  Owners of an allocation outside the executor are counted by \<open>own\<close>; inside, a task is owned by
  its entries in the queue, and the shared executor by every live task.
\<close>

definition live_tasks :: "('f, 'o, 'p) memory \<Rightarrow> nat set" where
  "live_tasks m = {t. t < ex_next (me_exec m) \<and> rc_alive (TaskWaker t) m}"

definition inner_owners :: "waker \<Rightarrow> ('f, 'o, 'p) memory \<Rightarrow> nat" where
  "inner_owners w m = (case w of
       MainWaker \<Rightarrow> card (live_tasks m)
     | TaskWaker t \<Rightarrow> count_list (ex_queue (me_exec m)) t)"

definition memory_inv :: "('f, 'o, 'p) memory \<Rightarrow> (waker \<Rightarrow> nat) \<Rightarrow> bool" where
  "memory_inv m own \<longleftrightarrow>
     (\<forall>w. me_count m w = own w + inner_owners w m) \<and>
     (\<forall>t \<ge> ex_next (me_exec m). me_count m (TaskWaker t) = 0)"

lemma memory_invD:
  assumes "memory_inv m own"
  shows "me_count m w = own w + inner_owners w m" and "ex_next (me_exec m) \<le> t \<Longrightarrow> me_count m (TaskWaker t) = 0"
  using assms unfolding memory_inv_def by blast+

lemma alive_allocated: "memory_inv m own \<Longrightarrow> rc_alive (TaskWaker t) m \<Longrightarrow> t < ex_next (me_exec m)"
  using memory_invD(2) [of m own t] by (cases "t < ex_next (me_exec m)") (simp_all add: rc_alive_def)

lemma memory_invI:
  assumes "\<And>w. me_count m w = own w + inner_owners w m"
    and "\<And>t. ex_next (me_exec m) \<le> t \<Longrightarrow> me_count m (TaskWaker t) = 0"
  shows "memory_inv m own"
  using assms unfolding memory_inv_def by blast

lemma live_tasks_finite: "finite (live_tasks m)"
  by (simp add: live_tasks_def)

lemma task_alive_main:
  assumes "memory_inv m own" and t: "rc_alive (TaskWaker t) m"
  shows "rc_alive MainWaker m"
proof -
  have "t \<in> live_tasks m" using t alive_allocated [OF assms] by (simp add: live_tasks_def)
  then have "0 < card (live_tasks m)" using live_tasks_finite by (auto simp: card_gt_0_iff)
  then show ?thesis using memory_invD(1) [OF assms(1), of MainWaker] by (simp add: inner_owners_def rc_alive_def)
qed

lemma memory_inv_alive:
  assumes "memory_inv m own" and "0 < own w"
  shows "rc_alive w m" and "rc_alive MainWaker m"
proof -
  show w: "rc_alive w m" using assms by (simp add: memory_inv_def rc_alive_def)
  show "rc_alive MainWaker m" using w task_alive_main [OF assms(1)] by (cases w) simp_all
qed

lemma rc_clone_inv:
  assumes inv: "memory_inv m own" and w: "0 < own w"
  shows "\<exists>m'. rc_clone w m = Some m' \<and> me_exec m' = me_exec m \<and> memory_inv m' (own(w := own w + 1))"
proof -
  let ?m = "m\<lparr>me_count := (me_count m)(w := me_count m w + 1)\<rparr>"
  have a: "rc_alive w m" by (rule memory_inv_alive(1) [OF assms])
  have "live_tasks ?m = live_tasks m" using a by (auto simp: live_tasks_def rc_alive_def)
  then have "inner_owners v ?m = inner_owners v m" for v by (simp add: inner_owners_def split: waker.split)
  then have "memory_inv ?m (own(w := own w + 1))"
    using memory_invD [OF inv] alive_allocated [OF inv] a
    by (intro memory_invI) (auto simp: rc_alive_def)
  with a show ?thesis by (simp add: rc_clone_def)
qed

lemma rc_drop_inv:
  assumes inv: "memory_inv m own" and w: "0 < own w"
  shows "\<exists>m'. rc_drop w m = Some m' \<and> me_exec m' = me_exec m \<and> memory_inv m' (own(w := own w - 1))"
proof -
  have a: "rc_alive w m" "rc_alive MainWaker m" by (rule memory_inv_alive [OF assms])+
  let ?m = "m\<lparr>me_count := (me_count m)(w := me_count m w - 1)\<rparr>"
  have c: "me_count m v = own v + inner_owners v m" for v using inv by (simp add: memory_inv_def)
  show ?thesis
  proof (cases w)
    case MainWaker
    have "live_tasks ?m = live_tasks m" using MainWaker by (auto simp: live_tasks_def rc_alive_def)
    then have "inner_owners v ?m = inner_owners v m" for v by (simp add: inner_owners_def split: waker.split)
    then have "memory_inv ?m (own(w := own w - 1))"
      using c w MainWaker memory_invD(2) [OF inv] by (intro memory_invI) auto
    with a MainWaker show ?thesis by (simp add: rc_drop_def rc_release_def)
  next
    case (TaskWaker t)
    show ?thesis
    proof (cases "rc_alive (TaskWaker t) ?m")
      case True
      then have "live_tasks ?m = live_tasks m" using TaskWaker a by (auto simp: live_tasks_def rc_alive_def)
      then have "inner_owners v ?m = inner_owners v m" for v by (simp add: inner_owners_def split: waker.split)
      then have "memory_inv ?m (own(w := own w - 1))"
        using c w TaskWaker memory_invD(2) [OF inv] by (intro memory_invI) auto
      with True a TaskWaker show ?thesis by (simp add: rc_drop_def rc_release_def)
    next
      case False
      let ?n = "?m\<lparr>me_count := (me_count ?m)(MainWaker := me_count m MainWaker - 1)\<rparr>"
      have "t \<in> live_tasks m"
        using a TaskWaker alive_allocated [OF inv] by (simp add: live_tasks_def)
      moreover have "live_tasks ?n = live_tasks m - {t}"
        using TaskWaker False by (auto simp: live_tasks_def rc_alive_def split: if_splits)
      ultimately have "card (live_tasks m) = card (live_tasks ?n) + 1"
        using card_Suc_Diff1 [OF live_tasks_finite, of t m] by simp
      then have inner: "inner_owners v m = inner_owners v ?n + (if v = MainWaker then 1 else 0)" for v
        by (simp add: inner_owners_def split: waker.split)
      have "memory_inv ?n (own(w := own w - 1))"
      proof (rule memory_invI)
        show "me_count ?n v = (own(w := own w - 1)) v + inner_owners v ?n" for v
          using c [of v] c [of w] inner [of v] w TaskWaker by (cases v) auto
      qed (use memory_invD(2) [OF inv] TaskWaker in auto)
      then show ?thesis using False a TaskWaker by (simp add: rc_drop_def rc_release_def rc_alive_def [of MainWaker])
    qed
  qed
qed


lemma rc_wake_queue:
  "ex_queue (rc_wake w e) = ex_queue e @ (case w of MainWaker \<Rightarrow> []
     | TaskWaker t \<Rightarrow> if tk_state (ex_tasks e t) = Idle then [t] else [])"
  by (cases w) (simp_all add: Let_def split: state.split)

lemma memory_inv_exec:
  assumes inv: "memory_inv m own" and e: "ex_queue e = ex_queue (me_exec m)" "ex_next e = ex_next (me_exec m)"
  shows "memory_inv (m\<lparr>me_exec := e\<rparr>) own"
proof (rule memory_invI)
  have "inner_owners w (m\<lparr>me_exec := e\<rparr>) = inner_owners w m" for w
    using e by (simp add: inner_owners_def live_tasks_def rc_alive_def split: waker.split)
  then show "me_count (m\<lparr>me_exec := e\<rparr>) w = own w + inner_owners w (m\<lparr>me_exec := e\<rparr>)" for w
    using memory_invD(1) [OF inv, of w] by simp
qed (use memory_invD(2) [OF inv] e in simp)

lemma owned_wake_inv:
  assumes inv: "memory_inv m own" and w: "0 < own w"
  shows "\<exists>m'. owned_wake w m = Some m' \<and> me_exec m' = rc_wake w (me_exec m) \<and> memory_inv m' (own(w := own w - 1))"
proof -
  show ?thesis
  proof (cases w)
    case MainWaker
    let ?m = "m\<lparr>me_exec := rc_wake MainWaker (me_exec m)\<rparr>"
    have "memory_inv ?m own" by (rule memory_inv_exec [OF inv]) simp_all
    from rc_drop_inv [OF this, of w] w MainWaker show ?thesis by simp
  next
    case (TaskWaker t)
    show ?thesis
    proof (cases "tk_state (ex_tasks (me_exec m) t) = Idle")
      case False
      then have "rc_wake w (me_exec m) = me_exec m" using TaskWaker by (simp split: state.split)
      moreover have "owned_wake w m = rc_drop w m" using False TaskWaker by (simp split: state.split)
      ultimately show ?thesis using rc_drop_inv [OF inv w] by simp
    next
      case True
      let ?e = "rc_wake w (me_exec m)"
      obtain m1 where m1: "rc_clone w m = Some m1" "me_exec m1 = me_exec m" "memory_inv m1 (own(w := own w + 1))"
        using rc_clone_inv [OF inv w] by blast
      let ?m = "m1\<lparr>me_exec := ?e\<rparr>"
      have q: "ex_queue ?e = ex_queue (me_exec m) @ [t]" "ex_next ?e = ex_next (me_exec m)"
        using True TaskWaker by (simp_all add: rc_wake_queue)
      have "live_tasks ?m = live_tasks m1" using q m1(2) by (simp add: live_tasks_def rc_alive_def)
      then have io: "inner_owners v ?m = inner_owners v m1 + (if v = w then 1 else 0)" for v
        using q m1(2) TaskWaker by (simp add: inner_owners_def split: waker.split)
      have "memory_inv ?m own"
      proof (rule memory_invI)
        show "me_count ?m v = own v + inner_owners v ?m" for v
          using memory_invD(1) [OF m1(3), of v] io [of v] by simp
        show "me_count ?m (TaskWaker u) = 0" if "ex_next (me_exec ?m) \<le> u" for u
          using memory_invD(2) [OF m1(3), of u] that q(2) m1(2) by simp
      qed
      moreover have "owned_wake w m = rc_drop w ?m" using True TaskWaker m1(1,2) by simp
      ultimately show ?thesis using rc_drop_inv [of ?m own w] w by simp
    qed
  qed
qed

section \<open>Clients\<close>

text \<open>
  The live wakers of each allocation, and the references that are held as such: those of
  \<open>Executor\<close>, of join handles, and of the task that runs.
\<close>

record ('f, 'o, 'p) waker_sys =
  wk_memory :: "('f, 'o, 'p) memory"
  wk_wakers :: "waker \<Rightarrow> nat"
  wk_owned :: "waker \<Rightarrow> nat"

definition waker_sys_new :: "('f, 'o, 'p) executor \<Rightarrow> ('f, 'o, 'p) waker_sys" where
  "waker_sys_new e = \<lparr>wk_memory = \<lparr>me_exec = e, me_count = (\<lambda>w. if w = MainWaker then 1 else 0)\<rparr>,
     wk_wakers = (\<lambda>_. 0), wk_owned = (\<lambda>w. if w = MainWaker then 1 else 0)\<rparr>"

text \<open>\<open>Executor::spawn\<close>: the new task has two references, the queue's and the one returned.\<close>

definition spawn_memory :: "'f \<Rightarrow> ('f, 'o, 'p) memory \<Rightarrow> (nat \<times> ('f, 'o, 'p) memory) option" where
  "spawn_memory f m =
     (case rc_clone MainWaker m of
        None \<Rightarrow> None
      | Some m \<Rightarrow>
          (let (t, e) = spawn f (me_exec m)
           in Some (t, m\<lparr>me_exec := e, me_count := (me_count m)(TaskWaker t := 2)\<rparr>)))"

text \<open>What the caller of the virtual table finds, whether the entry returned or panicked.\<close>

fun after :: "'a call \<Rightarrow> 'a option" where
  "after UseAfterFree = None"
| "after (Unwound m) = Some m"
| "after (Returned m) = Some m"

text \<open>
  The virtual table is used as \<open>Waker\<close> uses it: \<open>wake\<close> and \<open>drop\<close> consume the waker. All but
  \<open>clone\<close> may be called on any thread. The last rule covers what else happens to the executor.
\<close>

inductive waker_step :: "('f, 'o, 'p) waker_sys \<Rightarrow> ('f, 'o, 'p) waker_sys \<Rightarrow> bool" where
  clone: "0 < wk_wakers y w \<Longrightarrow> vt_clone (ex_created_on (me_exec (wk_memory y))) w (wk_memory y) = Returned m \<Longrightarrow>
     waker_step y (y\<lparr>wk_memory := m, wk_wakers := (wk_wakers y)(w := wk_wakers y w + 1)\<rparr>)"
| wake: "0 < wk_wakers y w \<Longrightarrow> after (vt_wake th w (wk_memory y)) = Some m \<Longrightarrow>
     waker_step y (y\<lparr>wk_memory := m, wk_wakers := (wk_wakers y)(w := wk_wakers y w - 1)\<rparr>)"
| wake_by_ref: "0 < wk_wakers y w \<Longrightarrow> after (vt_wake_by_ref th w (wk_memory y)) = Some m \<Longrightarrow>
     waker_step y (y\<lparr>wk_memory := m\<rparr>)"
| drop: "0 < wk_wakers y w \<Longrightarrow> after (vt_drop th w (wk_memory y)) = Some m \<Longrightarrow>
     waker_step y (y\<lparr>wk_memory := m, wk_wakers := (wk_wakers y)(w := wk_wakers y w - 1)\<rparr>)"
| into_waker: "0 < wk_owned y w \<Longrightarrow>
     waker_step y (y\<lparr>wk_wakers := (wk_wakers y)(w := wk_wakers y w + 1), wk_owned := (wk_owned y)(w := wk_owned y w - 1)\<rparr>)"
| own_clone: "0 < wk_owned y w \<Longrightarrow> rc_clone w (wk_memory y) = Some m \<Longrightarrow>
     waker_step y (y\<lparr>wk_memory := m, wk_owned := (wk_owned y)(w := wk_owned y w + 1)\<rparr>)"
| own_drop: "0 < wk_owned y w \<Longrightarrow> rc_drop w (wk_memory y) = Some m \<Longrightarrow>
     waker_step y (y\<lparr>wk_memory := m, wk_owned := (wk_owned y)(w := wk_owned y w - 1)\<rparr>)"
| new_task: "0 < wk_owned y MainWaker \<Longrightarrow> spawn_memory f (wk_memory y) = Some (t, m) \<Longrightarrow>
     waker_step y (y\<lparr>wk_memory := m, wk_owned := (wk_owned y)(TaskWaker t := wk_owned y (TaskWaker t) + 1)\<rparr>)"
| pop: "0 < wk_owned y MainWaker \<Longrightarrow> ex_queue (me_exec (wk_memory y)) = t # q \<Longrightarrow>
     waker_step y (y\<lparr>wk_memory := (wk_memory y)\<lparr>me_exec := (me_exec (wk_memory y))\<lparr>ex_queue := q\<rparr>\<rparr>,
       wk_owned := (wk_owned y)(TaskWaker t := wk_owned y (TaskWaker t) + 1)\<rparr>)"
| other: "ex_queue e = ex_queue (me_exec (wk_memory y)) \<Longrightarrow> ex_next e = ex_next (me_exec (wk_memory y)) \<Longrightarrow>
     ex_created_on e = ex_created_on (me_exec (wk_memory y)) \<Longrightarrow>
     waker_step y (y\<lparr>wk_memory := (wk_memory y)\<lparr>me_exec := e\<rparr>\<rparr>)"

inductive waker_reach :: "nat \<Rightarrow> ('f, 'o, 'p) waker_sys \<Rightarrow> bool" for th where
  init: "waker_reach th (waker_sys_new (executor_new th p))"
| step: "waker_reach th y \<Longrightarrow> waker_step y y' \<Longrightarrow> waker_reach th y'"

definition owners_of :: "('f, 'o, 'p) waker_sys \<Rightarrow> waker \<Rightarrow> nat" where
  "owners_of y w = wk_wakers y w + wk_owned y w"

definition waker_sys_inv :: "('f, 'o, 'p) waker_sys \<Rightarrow> bool" where
  "waker_sys_inv y \<longleftrightarrow> memory_inv (wk_memory y) (owners_of y)"

lemma vtable_inv:
  assumes inv: "memory_inv m own" and w: "0 < own w"
  shows "vt_clone (ex_created_on (me_exec m)) w m = Returned m' \<Longrightarrow> memory_inv m' (own(w := own w + 1))"
    and "after (vt_wake th w m) = Some m' \<Longrightarrow> memory_inv m' (own(w := own w - 1))"
    and "after (vt_wake_by_ref th w m) = Some m' \<Longrightarrow> memory_inv m' own"
    and "after (vt_drop th w m) = Some m' \<Longrightarrow> memory_inv m' (own(w := own w - 1))"
    and "\<exists>m'. vt_clone (ex_created_on (me_exec m)) w m = Returned m'"
    and "vt_wake th w m \<noteq> UseAfterFree" and "vt_wake_by_ref th w m \<noteq> UseAfterFree" and "vt_drop th w m \<noteq> UseAfterFree"
proof -
  note a = memory_inv_alive [OF inv w]
  obtain c where c: "rc_clone w m = Some c" "me_exec c = me_exec m" "memory_inv c (own(w := own w + 1))"
    using rc_clone_inv [OF inv w] by blast
  obtain d where d: "rc_drop w m = Some d" "memory_inv d (own(w := own w - 1))"
    using rc_drop_inv [OF inv w] by blast
  obtain k where k: "owned_wake w m = Some k" "memory_inv k (own(w := own w - 1))"
    using owned_wake_inv [OF inv w] by blast
  obtain r where r: "owned_wake w c = Some r" "memory_inv r own"
    using owned_wake_inv [OF c(3), of w] by auto
  show "vt_clone (ex_created_on (me_exec m)) w m = Returned m' \<Longrightarrow> memory_inv m' (own(w := own w + 1))"
    using a c by (simp add: vt_clone_def vtable_guard_def finish_def)
  show "after (vt_wake th w m) = Some m' \<Longrightarrow> memory_inv m' (own(w := own w - 1))"
    using a d k by (auto simp: vt_wake_def vtable_guard_def finish_def split: if_splits)
  show "after (vt_wake_by_ref th w m) = Some m' \<Longrightarrow> memory_inv m' own"
    using a c r inv by (auto simp: vt_wake_by_ref_def vtable_guard_def finish_def split: if_splits)
  show "after (vt_drop th w m) = Some m' \<Longrightarrow> memory_inv m' (own(w := own w - 1))"
    using a d by (auto simp: vt_drop_def vtable_guard_def finish_def split: if_splits)
  show "\<exists>m'. vt_clone (ex_created_on (me_exec m)) w m = Returned m'"
    using a c by (simp add: vt_clone_def vtable_guard_def finish_def)
  show "vt_wake th w m \<noteq> UseAfterFree" using a d k by (simp add: vt_wake_def vtable_guard_def finish_def)
  show "vt_wake_by_ref th w m \<noteq> UseAfterFree" using a c r by (simp add: vt_wake_by_ref_def vtable_guard_def finish_def)
  show "vt_drop th w m \<noteq> UseAfterFree" using a d by (simp add: vt_drop_def vtable_guard_def finish_def)
qed

lemmas vtable_safe = vtable_inv(5-8)

lemma spawn_memory_inv:
  assumes inv: "memory_inv m own" and w: "0 < own MainWaker" and s: "spawn_memory f m = Some (t, m')"
  shows "memory_inv m' (own(TaskWaker t := own (TaskWaker t) + 1))"
proof -
  obtain m1 where m1: "rc_clone MainWaker m = Some m1" "me_exec m1 = me_exec m"
    "memory_inv m1 (own(MainWaker := own MainWaker + 1))"
    using rc_clone_inv [OF inv w] by blast
  let ?e = "me_exec m"
  have t: "t = ex_next ?e" and m': "me_count m' = (me_count m1)(TaskWaker t := 2)"
    and e: "ex_queue (me_exec m') = ex_queue ?e @ [t]" "ex_next (me_exec m') = Suc t"
    using s m1(1,2) by (auto simp: spawn_memory_def spawn_def Let_def)
  have z: "me_count m1 (TaskWaker t) = 0" using memory_invD(2) [OF m1(3)] t m1(2) by simp
  have "live_tasks m' = insert t (live_tasks m1)" "t \<notin> live_tasks m1"
    using e m' t z m1(2) by (auto simp: live_tasks_def rc_alive_def less_Suc_eq)
  then have c: "card (live_tasks m') = card (live_tasks m1) + 1" using live_tasks_finite [of m1] by simp
  show ?thesis
  proof (rule memory_invI)
    fix w show "me_count m' w = (own(TaskWaker t := own (TaskWaker t) + 1)) w + inner_owners w m'"
      using memory_invD(1) [OF m1(3), of w] c z m' e m1(2)
      by (cases w) (auto simp: inner_owners_def)
  next
    fix u assume "ex_next (me_exec m') \<le> u"
    then show "me_count m' (TaskWaker u) = 0"
      using memory_invD(2) [OF m1(3), of u] m' e t m1(2) by simp
  qed
qed

lemma pop_inv:
  assumes inv: "memory_inv m own" and q: "ex_queue (me_exec m) = t # q"
  shows "memory_inv (m\<lparr>me_exec := (me_exec m)\<lparr>ex_queue := q\<rparr>\<rparr>) (own(TaskWaker t := own (TaskWaker t) + 1))"
proof (rule memory_invI)
  let ?m = "m\<lparr>me_exec := (me_exec m)\<lparr>ex_queue := q\<rparr>\<rparr>"
  have "live_tasks ?m = live_tasks m" by (simp add: live_tasks_def rc_alive_def)
  then show "me_count ?m w = (own(TaskWaker t := own (TaskWaker t) + 1)) w + inner_owners w ?m" for w
    using memory_invD(1) [OF inv, of w] q by (cases w) (auto simp: inner_owners_def)
qed (use memory_invD(2) [OF inv] in simp)

lemma waker_step_inv: "waker_step y y' \<Longrightarrow> waker_sys_inv y \<Longrightarrow> waker_sys_inv y'"
proof (induction rule: waker_step.induct)
  case (clone y w m)
  have "owners_of (y\<lparr>wk_memory := m, wk_wakers := (wk_wakers y)(w := wk_wakers y w + 1)\<rparr>) = (owners_of y)(w := owners_of y w + 1)"
    by (auto simp: owners_of_def fun_eq_iff)
  with vtable_inv(1) [of "wk_memory y" "owners_of y" w m] clone show ?case
    by (simp add: waker_sys_inv_def) (simp add: owners_of_def)
next
  case (wake y w th m)
  have "owners_of (y\<lparr>wk_memory := m, wk_wakers := (wk_wakers y)(w := wk_wakers y w - 1)\<rparr>) = (owners_of y)(w := owners_of y w - 1)"
    using wake(1) by (auto simp: owners_of_def fun_eq_iff)
  with vtable_inv(2) [of "wk_memory y" "owners_of y" w th m] wake show ?case
    by (simp add: waker_sys_inv_def) (simp add: owners_of_def)
next
  case (wake_by_ref y w th m)
  have "owners_of (y\<lparr>wk_memory := m\<rparr>) = owners_of y" by (auto simp: owners_of_def fun_eq_iff)
  with vtable_inv(3) [of "wk_memory y" "owners_of y" w th m] wake_by_ref show ?case
    by (simp add: waker_sys_inv_def) (simp add: owners_of_def)
next
  case (drop y w th m)
  have "owners_of (y\<lparr>wk_memory := m, wk_wakers := (wk_wakers y)(w := wk_wakers y w - 1)\<rparr>) = (owners_of y)(w := owners_of y w - 1)"
    using drop(1) by (auto simp: owners_of_def fun_eq_iff)
  with vtable_inv(4) [of "wk_memory y" "owners_of y" w th m] drop show ?case
    by (simp add: waker_sys_inv_def) (simp add: owners_of_def)
next
  case (into_waker y w)
  then have "owners_of (y\<lparr>wk_wakers := (wk_wakers y)(w := wk_wakers y w + 1), wk_owned := (wk_owned y)(w := wk_owned y w - 1)\<rparr>) = owners_of y"
    by (auto simp: owners_of_def fun_eq_iff)
  with into_waker show ?case by (simp add: waker_sys_inv_def)
next
  case (own_clone y w m)
  have "owners_of (y\<lparr>wk_memory := m, wk_owned := (wk_owned y)(w := wk_owned y w + 1)\<rparr>) = (owners_of y)(w := owners_of y w + 1)"
    by (auto simp: owners_of_def fun_eq_iff)
  moreover have "memory_inv m ((owners_of y)(w := owners_of y w + 1))"
    using rc_clone_inv [of "wk_memory y" "owners_of y" w] own_clone by (auto simp: waker_sys_inv_def owners_of_def)
  ultimately show ?case by (simp add: waker_sys_inv_def)
next
  case (own_drop y w m)
  have "owners_of (y\<lparr>wk_memory := m, wk_owned := (wk_owned y)(w := wk_owned y w - 1)\<rparr>) = (owners_of y)(w := owners_of y w - 1)"
    using own_drop(1) by (auto simp: owners_of_def fun_eq_iff)
  moreover have "memory_inv m ((owners_of y)(w := owners_of y w - 1))"
    using rc_drop_inv [of "wk_memory y" "owners_of y" w] own_drop by (auto simp: waker_sys_inv_def owners_of_def)
  ultimately show ?case by (simp add: waker_sys_inv_def)
next
  case (new_task y f t m)
  have "owners_of (y\<lparr>wk_memory := m, wk_owned := (wk_owned y)(TaskWaker t := wk_owned y (TaskWaker t) + 1)\<rparr>) =
      (owners_of y)(TaskWaker t := owners_of y (TaskWaker t) + 1)"
    by (auto simp: owners_of_def fun_eq_iff)
  moreover have "memory_inv m ((owners_of y)(TaskWaker t := owners_of y (TaskWaker t) + 1))"
    using spawn_memory_inv [of "wk_memory y" "owners_of y" f t m] new_task by (auto simp: waker_sys_inv_def owners_of_def)
  ultimately show ?case by (simp add: waker_sys_inv_def)
next
  case (pop y t q)
  let ?m = "(wk_memory y)\<lparr>me_exec := (me_exec (wk_memory y))\<lparr>ex_queue := q\<rparr>\<rparr>"
  have "owners_of (y\<lparr>wk_memory := ?m, wk_owned := (wk_owned y)(TaskWaker t := wk_owned y (TaskWaker t) + 1)\<rparr>) =
      (owners_of y)(TaskWaker t := owners_of y (TaskWaker t) + 1)"
    by (auto simp: owners_of_def fun_eq_iff)
  with pop_inv [of "wk_memory y" "owners_of y" t q] pop show ?case by (simp add: waker_sys_inv_def)
next
  case (other e y)
  have "owners_of (y\<lparr>wk_memory := (wk_memory y)\<lparr>me_exec := e\<rparr>\<rparr>) = owners_of y" by (auto simp: owners_of_def fun_eq_iff)
  with memory_inv_exec [of "wk_memory y" "owners_of y" e] other show ?case by (simp add: waker_sys_inv_def)
qed

lemma waker_reach_inv: "waker_reach th y \<Longrightarrow> waker_sys_inv y"
proof (induction rule: waker_reach.induct)
  case (init p)
  show ?case unfolding waker_sys_inv_def
  proof (rule memory_invI)
    fix w show "me_count (wk_memory (waker_sys_new (executor_new th p))) w = owners_of (waker_sys_new (executor_new th p)) w +
        inner_owners w (wk_memory (waker_sys_new (executor_new th p)))"
      by (cases w) (simp_all add: waker_sys_new_def owners_of_def inner_owners_def live_tasks_def rc_alive_def executor_new_def)
  qed (simp add: waker_sys_new_def)
qed (rule waker_step_inv)


section \<open>Properties\<close>


text \<open>The waker of the main future, when nothing else refers to the executor any more.\<close>

definition ex_main_waker :: "(unit, unit, unit) waker_sys" where
  "ex_main_waker = (waker_sys_new (executor_new 0 ()))\<lparr>wk_wakers := (\<lambda>w. if w = MainWaker then 1 else 0), wk_owned := (\<lambda>_. 0)\<rparr>"

lemma ex_main_waker_reach: "waker_reach 0 ex_main_waker"
proof -
  let ?y = "waker_sys_new (executor_new 0 ()) :: (unit, unit, unit) waker_sys"
  have "ex_main_waker = ?y\<lparr>wk_wakers := (wk_wakers ?y)(MainWaker := wk_wakers ?y MainWaker + 1),
      wk_owned := (wk_owned ?y)(MainWaker := wk_owned ?y MainWaker - 1)\<rparr>"
    by (simp add: ex_main_waker_def waker_sys_new_def fun_eq_iff)
  moreover have "waker_step ?y \<dots>" by (rule waker_step.into_waker) (simp add: waker_sys_new_def)
  ultimately show ?thesis using waker_reach.step [OF waker_reach.init [of 0 "()"]] by simp
qed


text \<open>
  C33. Cloning a waker on a foreign thread is not memory safe: the panic unwinds through the
  reference that was rebuilt from the pointer, which releases a reference that still belongs to
  the waker. If it was the last one, the allocation is freed while the waker lives, and the next
  use of the waker, or its drop, touches freed memory.
\<close>

theorem foreign_clone_frees:
  assumes "waker_reach th y" and "0 < wk_wakers y w" and "th' \<noteq> ex_created_on (me_exec (wk_memory y))"
  shows "\<exists>m. vt_clone th' w (wk_memory y) = Unwound m \<and> me_count m w = me_count (wk_memory y) w - 1 \<and>
    (me_count (wk_memory y) w = 1 \<longrightarrow> (\<forall>t. vt_drop t w m = UseAfterFree \<and> vt_wake t w m = UseAfterFree))"
proof -
  have inv: "memory_inv (wk_memory y) (owners_of y)"
    using waker_reach_inv [OF assms(1)] by (simp add: waker_sys_inv_def)
  have w: "0 < owners_of y w" using assms(2) by (simp add: owners_of_def)
  obtain m where m: "rc_drop w (wk_memory y) = Some m" using rc_drop_inv [OF inv w] by blast
  then have c: "me_count m w = me_count (wk_memory y) w - 1"
    by (auto simp: rc_drop_def rc_release_def split: waker.splits if_splits)
  have "vt_clone th' w (wk_memory y) = Unwound m"
    using memory_inv_alive [OF inv w] m assms(3) by (simp add: vt_clone_def vtable_guard_def finish_def)
  with c show ?thesis by (auto simp: vt_drop_def vt_wake_def vtable_guard_def rc_alive_def)
qed

theorem foreign_clone_frees_witness:
  "\<exists>m. vt_clone 1 MainWaker (wk_memory ex_main_waker) = Unwound m \<and> vt_drop 0 MainWaker m = UseAfterFree"
proof -
  have "0 < wk_wakers ex_main_waker MainWaker" "1 \<noteq> ex_created_on (me_exec (wk_memory ex_main_waker))"
    "me_count (wk_memory ex_main_waker) MainWaker = 1"
    by (simp_all add: ex_main_waker_def waker_sys_new_def executor_new_def)
  with foreign_clone_frees [OF ex_main_waker_reach this(1,2)] show ?thesis by blast
qed

text \<open>
  Once nothing outside refers to the runtime any more, no step changes a count.
\<close>

inductive_cases waker_stepE: "waker_step y y'"

lemma ownerless_step:
  assumes "waker_step y y'" and "\<forall>w. owners_of y w = 0"
  shows "(\<forall>w. owners_of y' w = 0) \<and> me_count (wk_memory y') = me_count (wk_memory y)"
  using assms by (elim waker_stepE) (simp_all add: owners_of_def)

text \<open>
  C34. A runtime that is dropped while a task is queued is never freed: the queue owns the task and
  the task owns the queue. When every waker, handle and runtime is gone, the task and the executor
  stay allocated for ever.
\<close>

theorem queued_tasks_leak:
  assumes "waker_reach th y" and "t \<in> set (ex_queue (me_exec (wk_memory y)))"
    and "\<forall>w. wk_wakers y w = 0 \<and> wk_owned y w = 0" and "waker_step\<^sup>*\<^sup>* y y'"
  shows "rc_alive (TaskWaker t) (wk_memory y') \<and> rc_alive MainWaker (wk_memory y')"
proof -
  have inv: "memory_inv (wk_memory y) (owners_of y)"
    using waker_reach_inv [OF assms(1)] by (simp add: waker_sys_inv_def)
  have "0 < count_list (ex_queue (me_exec (wk_memory y))) t" using assms(2) by (metis count_list_0_iff gr0I)
  then have t: "rc_alive (TaskWaker t) (wk_memory y)"
    using memory_invD(1) [OF inv, of "TaskWaker t"] by (simp add: rc_alive_def inner_owners_def)
  have "rc_alive MainWaker (wk_memory y)" by (rule task_alive_main [OF inv t])
  moreover have "(\<forall>w. owners_of y' w = 0) \<and> me_count (wk_memory y') = me_count (wk_memory y)"
    using assms(4)
  proof (induction rule: rtranclp_induct)
    case base
    show ?case using assms(3) by (simp add: owners_of_def)
  next
    case (step y1 y2)
    then show ?case using ownerless_step [of y1 y2] by simp
  qed
  ultimately show ?thesis using t by (simp add: rc_alive_def)
qed

text \<open>A runtime on which one task was spawned, after its handle and the runtime were dropped.\<close>

definition ex_abandoned :: "(unit, unit, unit) waker_sys" where
  "ex_abandoned = \<lparr>wk_memory = \<lparr>me_exec = snd (spawn () (executor_new 0 ())),
       me_count = (\<lambda>w. if w = MainWaker \<or> w = TaskWaker 0 then 1 else 0)\<rparr>,
     wk_wakers = (\<lambda>_. 0), wk_owned = (\<lambda>_. 0)\<rparr>"

lemmas memory_eval = waker_sys_new_def spawn_memory_def rc_clone_def rc_drop_def rc_release_def rc_alive_def
  spawn_def executor_new_def Let_def

lemma waker_reach_eq: "waker_reach th y \<Longrightarrow> waker_step y y1 \<Longrightarrow> y1 = y' \<Longrightarrow> waker_reach th y'"
  using waker_reach.step by blast

lemma ex_abandoned_reach: "waker_reach 0 ex_abandoned"
proof -
  let ?y0 = "waker_sys_new (executor_new 0 ()) :: (unit, unit, unit) waker_sys"
  let ?m = "wk_memory ex_abandoned"
  let ?y1 = "\<lparr>wk_memory = ?m\<lparr>me_count := (me_count ?m)(MainWaker := 2, TaskWaker 0 := 2)\<rparr>, wk_wakers = (\<lambda>_. 0),
    wk_owned = (\<lambda>_. 0)(MainWaker := 1, TaskWaker 0 := 1)\<rparr>"
  let ?y2 = "?y1\<lparr>wk_memory := ?m\<lparr>me_count := (me_count ?m)(MainWaker := 2)\<rparr>, wk_owned := (\<lambda>_. 0)(MainWaker := 1)\<rparr>"
  have "waker_reach 0 ?y0" by (rule waker_reach.init)
  then have "waker_reach 0 ?y1"
    by (rule waker_reach_eq [OF _ waker_step.new_task [of ?y0 "()" 0 "wk_memory ?y1"]])
      (auto simp: memory_eval ex_abandoned_def fun_eq_iff)
  then have "waker_reach 0 ?y2"
    by (rule waker_reach_eq [OF _ waker_step.own_drop [of ?y1 "TaskWaker 0" "wk_memory ?y2"]])
      (auto simp: memory_eval ex_abandoned_def fun_eq_iff)
  then show ?thesis
    by (rule waker_reach_eq [OF _ waker_step.own_drop [of ?y2 MainWaker ?m]])
      (auto simp: memory_eval ex_abandoned_def fun_eq_iff)
qed

theorem queued_tasks_leak_witness: "rc_alive MainWaker (wk_memory ex_abandoned)"
proof -
  have "0 \<in> set (ex_queue (me_exec (wk_memory ex_abandoned)))"
    "\<forall>w. wk_wakers ex_abandoned w = 0 \<and> wk_owned ex_abandoned w = 0"
    by (simp_all add: ex_abandoned_def memory_eval)
  from queued_tasks_leak [OF ex_abandoned_reach this rtranclp.rtrancl_refl] show ?thesis by simp
qed

end
