(* ===== verification/Clock_Reference.thy ===== *)
theory Clock_Reference
  imports Clock "HOL-Library.Multiset"
begin

text \<open>
  A reference for the clock: an unordered list of alarms that is searched from end to end. The
  timer heap of \<open>Clock\<close>, with its ordered map, gives the same answers to every sequence of
  operations.
\<close>

section \<open>Sequences of operations\<close>

datatype 'w clock_op =
    InsertAlarm instant 'w
  | RemoveAlarm usize instant
  | ResetAlarm usize instant instant
  | ReplaceWaker usize instant 'w
  | Expire instant

datatype 'w clock_answer = NewAlarm usize | NoAnswer | Expired "duration option" "'w list"

fun clock_apply :: "bool \<Rightarrow> 'w clock_op \<Rightarrow> ('p, 'w) clock \<Rightarrow> ('w clock_answer \<times> ('p, 'w) clock) m" where
  "clock_apply oc (InsertAlarm at w) c = bindM (insert_alarm oc at w c) (\<lambda>(i, c). Ret (NewAlarm i, c))"
| "clock_apply oc (RemoveAlarm i at) c = Ret (NoAnswer, remove_alarm i at c)"
| "clock_apply oc (ResetAlarm i old new) c = bindM (reset_alarm i old new c) (\<lambda>c. Ret (NoAnswer, c))"
| "clock_apply oc (ReplaceWaker i at w) c = bindM (replace_alarm_waker i at w c) (\<lambda>c. Ret (NoAnswer, c))"
| "clock_apply oc (Expire now) c = (let (t, ws, c) = extend_with_expired now [] c in Ret (Expired t ws, c))"

fun run_ops :: "('op \<Rightarrow> 'c \<Rightarrow> ('a \<times> 'c) m) \<Rightarrow> 'op list \<Rightarrow> 'c \<Rightarrow> 'a list m" where
  "run_ops step [] c = Ret []"
| "run_ops step (op # ops) c =
     bindM (step op c) (\<lambda>(a, c). bindM (run_ops step ops c) (\<lambda>as. Ret (a # as)))"

section \<open>The reference\<close>

text \<open>The next identifier and the alarms, in any order.\<close>

type_synonym 'w ref_clock = "usize \<times> (alarm_key \<times> 'w) list"

text \<open>How long the parker may block: until the first deadline, in whole milliseconds.\<close>

definition ref_timeout :: "instant \<Rightarrow> (alarm_key \<times> 'w) list \<Rightarrow> duration option" where
  "ref_timeout now later =
     (if later = [] then None
      else Some (from_millis (as_millis (Min (set (map (fst \<circ> fst) later)) - now) mod 2 ^ 64)))"

fun ref_apply :: "bool \<Rightarrow> 'w clock_op \<Rightarrow> 'w ref_clock \<Rightarrow> ('w clock_answer \<times> 'w ref_clock) m" where
  "ref_apply oc (InsertAlarm at w) (n, l) =
     bindM (usize_add oc n 1) (\<lambda>n'. Ret (NewAlarm n, n', AList.update (at, n) w l))"
| "ref_apply oc (RemoveAlarm i at) (n, l) = Ret (NoAnswer, n, AList.delete (at, i) l)"
| "ref_apply oc (ResetAlarm i old new) (n, l) =
     bindM (expectM UnwrapNone (map_of l (old, i))) (\<lambda>w.
       Ret (NoAnswer, n, AList.update (new, i) w (AList.delete (old, i) l)))"
| "ref_apply oc (ReplaceWaker i at w) (n, l) =
     bindM (expectM UnwrapNone (map_of l (at, i))) (\<lambda>_. Ret (NoAnswer, n, AList.update (at, i) w l))"
| "ref_apply oc (Expire now) (n, l) =
     (let due = filter (\<lambda>e. fst (fst e) \<le> now) l; later = filter (\<lambda>e. now < fst (fst e)) l
      in Ret (Expired (if due = [] then ref_timeout now later else Some 0) (map snd (sort_key fst due)), n, later))"

section \<open>Simulation\<close>

definition clock_rel :: "('p, 'w) clock \<Rightarrow> 'w ref_clock \<Rightarrow> bool" where
  "clock_rel c r \<longleftrightarrow> clock_ok c \<and> distinct (map fst (snd r)) \<and> ck_next_alarm c = fst r \<and> alarms c = map_of (snd r)"

lemma clock_relI:
  "clock_ok c \<Longrightarrow> distinct (map fst l) \<Longrightarrow> ck_next_alarm c = n \<Longrightarrow> alarms c = map_of l \<Longrightarrow> clock_rel c (n, l)"
  by (simp add: clock_rel_def)

lemma clock_relD:
  assumes "clock_rel c (n, l)"
  shows "clock_ok c" and "distinct (map fst l)" and "ck_next_alarm c = n" and "alarms c = map_of l"
  using assms by (simp_all add: clock_rel_def)

lemma clock_rel_new: "clock_rel (clock_new p) (0, [])"
  by (simp add: clock_rel_def)

text \<open>The ordered map holds the same alarms, sorted.\<close>

lemma clock_rel_sorted:
  assumes "clock_rel c (n, l)"
  shows "set l = set (ck_alarms c)" and "sort_key fst (filter P l) = filter P (ck_alarms c)"
proof -
  note r = clock_relD [OF assms]
  have ok: "bt_ok (ck_alarms c)" using r(1) by (simp add: clock_ok_def)
  show s: "set l = set (ck_alarms c)"
  proof (rule set_eqI)
    fix e :: "alarm_key \<times> 'b"
    obtain k w where e: "e = (k, w)" by (cases e)
    have "(k, w) \<in> set l \<longleftrightarrow> map_of l k = Some w" using r(2) by simp
    also have "\<dots> \<longleftrightarrow> (k, w) \<in> set (ck_alarms c)"
      using bt_get_mem [OF ok, of k w] fun_cong [OF r(4), of k] by (simp add: alarms_def)
    finally show "e \<in> set l \<longleftrightarrow> e \<in> set (ck_alarms c)" by (simp add: e)
  qed
  have d: "distinct l" "distinct (ck_alarms c)" "inj_on fst (set l)"
    using r(2) bt_ok_distinct [OF ok] by (auto simp: distinct_map)
  have "mset l = mset (ck_alarms c)" using set_eq_iff_mset_eq_distinct [OF d(1,2)] s by blast
  then have m: "mset (filter P l) = mset (filter P (ck_alarms c))" by simp
  moreover have "inj_on fst (set (filter P l))" using d(3) by (auto intro: inj_on_subset)
  moreover have "sorted (map fst (filter P (ck_alarms c)))"
    using bt_ok_filter [OF ok, of P] by (simp add: bt_ok_def strict_sorted_imp_sorted)
  ultimately show "sort_key fst (filter P l) = filter P (ck_alarms c)" by (rule sort_key_inj_key_eq)
qed

lemma ref_timeout_first:
  assumes "bt_ok m" and "set l = set m"
  shows "ref_timeout now l = map_option (\<lambda>(at, _). from_millis (as_millis (at - now) mod 2 ^ 64)) (bt_first_key m)"
proof (cases "bt_first_key m")
  case None
  with assms(2) show ?thesis by (simp add: ref_timeout_def)
next
  case (Some k)
  obtain at i where k: "k = (at, i)" by (cases k)
  note least = bt_first_key_least [OF assms(1) Some]
  have "Min (fst ` fst ` set m) = at"
  proof (rule Min_eqI)
    show "finite (fst ` fst ` set m)" by simp
    show "at \<in> fst ` fst ` set m" using least(1) bt_get_notin [of m k] k by force
  next
    fix a assume "a \<in> fst ` fst ` set m"
    then obtain j where "bt_get m (a, j) \<noteq> None" using bt_get_notin [of m] by fastforce
    from least(2) [OF this] show "at \<le> a" by (auto simp: k less_eq_prod_def)
  qed
  moreover have "l \<noteq> []" using assms(2) Some by (auto simp: bt_first_key_def)
  ultimately show ?thesis using Some k assms(2) by (simp add: ref_timeout_def image_comp)
qed

lemma clock_op_simulates:
  assumes "clock_rel c r"
  shows "rel_m (\<lambda>(a, c') (a', r'). a = a' \<and> clock_rel c' r') (clock_apply oc op c) (ref_apply oc op r)"
proof -
  obtain n l where nl: "r = (n, l)" by (cases r)
  note r = clock_relD [OF assms [unfolded nl]]
  note rel = clock_rel_sorted [OF assms [unfolded nl]]
  show ?thesis
  proof (cases op)
    case (Expire now)
    obtain t ws c' where e: "extend_with_expired now [] c = (t, ws, c')" by (metis prod.exhaust)
    note spec = extend_with_expired_spec [OF r(1) e]
    have due: "sort_key fst (filter (\<lambda>e. fst (fst e) \<le> now) l) = filter (\<lambda>e. fst (fst e) \<le> now) (ck_alarms c)"
      by (rule rel(2))
    have "set (filter (\<lambda>e. fst (fst e) \<le> now) l) = set (filter (\<lambda>e. fst (fst e) \<le> now) (ck_alarms c))"
      by (simp add: rel(1))
    then have empty: "filter (\<lambda>e. fst (fst e) \<le> now) l = [] \<longleftrightarrow> filter (\<lambda>e. fst (fst e) \<le> now) (ck_alarms c) = []"
      by (metis set_empty)
    have later: "ref_timeout now (filter (\<lambda>e. now < fst (fst e)) l) =
        map_option (\<lambda>(at, _). from_millis (as_millis (at - now) mod 2 ^ 64))
          (bt_first_key (filter (\<lambda>e. now < fst (fst e)) (ck_alarms c)))"
      using r(1) by (intro ref_timeout_first) (simp_all add: rel(1) clock_ok_def bt_ok_filter)
    have t: "t = (if filter (\<lambda>e. fst (fst e) \<le> now) l = [] then ref_timeout now (filter (\<lambda>e. now < fst (fst e)) l) else Some 0)"
      unfolding later empty using e
      by (auto simp: extend_with_expired_def bt_split_off_def Let_def expired_key pending_key split: if_splits)
    have "clock_rel c' (n, filter (\<lambda>e. now < fst (fst e)) l)"
    proof (rule clock_relI)
      show "clock_ok c'" and "ck_next_alarm c' = n" using spec r(3) by simp_all
      show "distinct (map fst (filter (\<lambda>e. now < fst (fst e)) l))" using r(2) by (simp add: distinct_map_filter)
      show "alarms c' = map_of (filter (\<lambda>e. now < fst (fst e)) l)"
        using spec(2) r(4) bt_get_filter [of "\<lambda>k. now < fst k" l] by (simp add: bt_get_def fun_eq_iff)
    qed
    with e t spec(1) due show ?thesis by (simp add: nl Expire Let_def)
  next
    case (InsertAlarm at w)
    show ?thesis
    proof (cases "usize_add oc n 1")
      case None
      then show ?thesis by (simp add: usize_add_def split: if_splits)
    next
      case (Some z)
      show ?thesis
      proof (cases z)
        case (Inl p)
        with Some r(3) show ?thesis by (simp add: nl InsertAlarm insert_alarm_def Let_def)
      next
        case (Inr n')
        obtain c' where i: "insert_alarm oc at w c = Ret (n, c')"
          using Some Inr r(3) by (simp add: insert_alarm_def Let_def)
        note ins = insert_alarm_Ret [OF r(1) i]
        have "n' = n + 1" using Some Inr by (auto simp: usize_add_def split: if_splits)
        then have "clock_rel c' (n', AList.update (at, n) w l)"
          using ins(2-4) r by (intro clock_relI) (simp_all add: distinct_update update_conv')
        with i Some Inr show ?thesis by (simp add: nl InsertAlarm)
      qed
    qed
  next
    case (RemoveAlarm i at)
    have "clock_rel (remove_alarm i at c) (n, AList.delete (at, i) l)"
      using remove_alarm_simps [OF r(1), of i at] r by (intro clock_relI) (simp_all add: distinct_delete delete_conv')
    then show ?thesis by (simp add: nl RemoveAlarm)
  next
    case (ResetAlarm i old new)
    show ?thesis
    proof (cases "map_of l (old, i)")
      case None
      with r reset_alarm_None [OF r(1), of old i new] show ?thesis by (simp add: nl ResetAlarm)
    next
      case (Some w)
      with r(4) have "alarms c (old, i) = Some w" by simp
      from reset_alarm_Some [OF r(1) this] obtain c' where c': "reset_alarm i old new c = Ret c'"
        and a: "alarms c' = ((alarms c)((old, i) := None))((new, i) \<mapsto> w)" "clock_ok c'" "ck_next_alarm c' = ck_next_alarm c"
        by metis
      have "clock_rel c' (n, AList.update (new, i) w (AList.delete (old, i) l))"
        using a r by (intro clock_relI) (simp_all add: distinct_update distinct_delete update_conv' delete_conv')
      with c' Some show ?thesis by (simp add: nl ResetAlarm)
    qed
  next
    case (ReplaceWaker i at w)
    show ?thesis
    proof (cases "map_of l (at, i)")
      case None
      with r show ?thesis by (simp add: nl ReplaceWaker replace_alarm_waker_def alarms_def fun_eq_iff)
    next
      case (Some v)
      with r(4) obtain c' where c': "replace_alarm_waker i at w c = Ret c'"
        using replace_alarm_waker_returns [of i at w c] by (auto simp: returns_conv)
      note a = replace_alarm_waker_Ret [OF r(1) c']
      have "clock_rel c' (n, AList.update (at, i) w l)"
        using a r by (intro clock_relI) (simp_all add: distinct_update update_conv')
      with c' Some show ?thesis by (simp add: nl ReplaceWaker)
    qed
  qed
qed

text \<open>Simulating steps give equal runs.\<close>

lemma run_ops_simulates:
  assumes "\<And>op c r. R c r \<Longrightarrow> rel_m (\<lambda>(a, c') (a', r'). a = a' \<and> R c' r') (f op c) (g op r)"
  shows "R c r \<Longrightarrow> run_ops f ops c = run_ops g ops r"
proof (induction ops arbitrary: c r)
  case (Cons op ops)
  from assms [OF Cons.prems, of op] show ?case
  proof (cases rule: option.rel_cases)
    case (Some x y)
    from Some(3) show ?thesis
    proof (cases rule: rel_sum.cases)
      case (2 u v)
      with Some Cons.IH show ?thesis by (auto simp: bindM_def split: prod.splits)
    qed (use Some in simp)
  qed simp
qed simp

text \<open>
  C8. The timer heap is a correct implementation of a clock: every sequence of its operations,
  from a new clock, gives the answers (identifiers, expired wakers in the order of their
  deadlines, times until the next deadline) and the panics of a plain list of alarms that is
  searched from end to end.
\<close>

theorem clock_equals_reference:
  "run_ops (clock_apply oc) ops (clock_new p) = run_ops (ref_apply oc) ops (0, [])"
  by (rule run_ops_simulates [OF clock_op_simulates clock_rel_new])

end
