(* ===== verification/Sys.thy ===== *)
theory Sys
  imports Park
begin

unbundle bit_operations_syntax

text \<open>
  \<open>src/sys.rs\<close> and the \<open>syscall!\<close> macro of \<open>src/util.rs\<close>: the two back ends of the
  readiness queue (epoll on Linux, kqueue on the BSDs) and \<open>connect\<close>. The operating system
  and the constants of the crate \<open>libc\<close> are parameters: records of functions on a kernel state
  \<open>'k\<close> and of words. What both back ends offer the reactor is the record \<open>poller_api\<close>.
\<close>

section \<open>Events and pollers\<close>

type_synonym raw_fd = int

record event =
  ev_key :: usize
  ev_readable :: bool
  ev_writable :: bool

definition event_default :: event where
  "event_default = \<lparr>ev_key = 0, ev_readable = False, ev_writable = False\<rparr>"

text \<open>
  A poller over the state \<open>'q\<close> with its own type of events. \<open>poll\<close> returns the events it
  left in the vector, which holds at most as many as its capacity.
\<close>

record ('q, 'e) poller_api =
  p_add :: "raw_fd \<Rightarrow> event \<Rightarrow> 'q \<Rightarrow> unit io_result \<times> 'q"
  p_update :: "raw_fd \<Rightarrow> event \<Rightarrow> 'q \<Rightarrow> unit io_result \<times> 'q"
  p_delete :: "raw_fd \<Rightarrow> 'q \<Rightarrow> unit io_result \<times> 'q"
  p_poll :: "nat \<Rightarrow> duration option \<Rightarrow> 'q \<Rightarrow> 'e list io_result \<times> 'q"
  p_event :: "'e \<Rightarrow> event"

text \<open>A system call returns -1 on failure; the error is then in the kernel state.\<close>

definition syscall :: "('k \<Rightarrow> io_error) \<Rightarrow> int \<times> 'k \<Rightarrow> int io_result \<times> 'k" where
  "syscall last_os_error = (\<lambda>(res, k). if res = - 1 then (Inl (last_os_error k), k) else (Inr res, k))"

definition map_ok :: "('a \<Rightarrow> 'b) \<Rightarrow> 'a io_result \<times> 'k \<Rightarrow> 'b io_result \<times> 'k" where
  "map_ok f = (\<lambda>(r, k). (map_sum id f r, k))"

section \<open>epoll\<close>

datatype epoll_op = EPOLL_CTL_ADD | EPOLL_CTL_MOD | EPOLL_CTL_DEL

record epoll_event =
  ee_events :: "32 word"
  ee_u64 :: "64 word"

record epoll_consts =
  EPOLLIN :: "32 word"
  EPOLLPRI :: "32 word"
  EPOLLOUT :: "32 word"
  EPOLLRDHUP :: "32 word"
  EPOLLONESHOT :: "32 word"

record 'k linux =
  epoll_create1 :: "'k \<Rightarrow> int \<times> 'k"
  epoll_ctl :: "raw_fd \<Rightarrow> epoll_op \<Rightarrow> raw_fd \<Rightarrow> epoll_event option \<Rightarrow> 'k \<Rightarrow> int \<times> 'k"
  epoll_wait :: "raw_fd \<Rightarrow> nat \<Rightarrow> 32 word \<Rightarrow> 'k \<Rightarrow> (int \<times> 'k) \<times> epoll_event list"
  close_fd :: "raw_fd \<Rightarrow> 'k \<Rightarrow> int \<times> 'k"
  os_error :: "'k \<Rightarrow> io_error"

text \<open>\<open>impl From<Event> for SysEvent\<close> and \<open>impl From<&SysEvent> for Event\<close>.\<close>

definition epoll_encode :: "epoll_consts \<Rightarrow> event \<Rightarrow> epoll_event" where
  "epoll_encode C event =
     (let flags = EPOLLONESHOT C;
          flags = (if ev_readable event then flags OR EPOLLIN C OR EPOLLRDHUP C else flags);
          flags = (if ev_writable event then flags OR EPOLLOUT C else flags)
      in \<lparr>ee_events = flags, ee_u64 = ev_key event\<rparr>)"

definition epoll_decode :: "epoll_consts \<Rightarrow> epoll_event \<Rightarrow> event" where
  "epoll_decode C sys =
     \<lparr>ev_key = ee_u64 sys,
      ev_readable = (ee_events sys AND (EPOLLIN C OR EPOLLPRI C) \<noteq> 0),
      ev_writable = (ee_events sys AND EPOLLOUT C \<noteq> 0)\<rparr>"

definition epoll_new :: "'k linux \<Rightarrow> 'k \<Rightarrow> raw_fd io_result \<times> 'k" where
  "epoll_new L k = syscall (os_error L) (epoll_create1 L k)"

definition epoll_add :: "'k linux \<Rightarrow> epoll_consts \<Rightarrow> raw_fd \<Rightarrow> raw_fd \<Rightarrow> event \<Rightarrow> 'k \<Rightarrow> unit io_result \<times> 'k" where
  "epoll_add L C self_fd fd event k =
     map_ok (\<lambda>_. ()) (syscall (os_error L)
       (epoll_ctl L self_fd EPOLL_CTL_ADD fd (Some (epoll_encode C event)) k))"

definition epoll_update :: "'k linux \<Rightarrow> epoll_consts \<Rightarrow> raw_fd \<Rightarrow> raw_fd \<Rightarrow> event \<Rightarrow> 'k \<Rightarrow> unit io_result \<times> 'k" where
  "epoll_update L C self_fd fd event k =
     map_ok (\<lambda>_. ()) (syscall (os_error L)
       (epoll_ctl L self_fd EPOLL_CTL_MOD fd (Some (epoll_encode C event)) k))"

definition epoll_delete :: "'k linux \<Rightarrow> raw_fd \<Rightarrow> raw_fd \<Rightarrow> 'k \<Rightarrow> unit io_result \<times> 'k" where
  "epoll_delete L self_fd fd k =
     map_ok (\<lambda>_. ()) (syscall (os_error L) (epoll_ctl L self_fd EPOLL_CTL_DEL fd None k))"

text \<open>\<open>as_millis() as c_int\<close> keeps the low 32 bits of the number of milliseconds.\<close>

definition epoll_timeout :: "duration option \<Rightarrow> 32 word" where
  "epoll_timeout timeout = (case timeout of Some to \<Rightarrow> of_nat (as_millis to) | None \<Rightarrow> - 1)"

definition epoll_poll ::
    "'k linux \<Rightarrow> raw_fd \<Rightarrow> nat \<Rightarrow> duration option \<Rightarrow> 'k \<Rightarrow> epoll_event list io_result \<times> 'k" where
  "epoll_poll L self_fd capacity timeout k =
     (let (res, events) = epoll_wait L self_fd capacity (epoll_timeout timeout) k
      in map_ok (\<lambda>n. take (nat n) events) (syscall (os_error L) res))"

definition epoll_drop :: "'k linux \<Rightarrow> raw_fd \<Rightarrow> 'k \<Rightarrow> 'k" where
  "epoll_drop L self_fd k = snd (syscall (os_error L) (close_fd L self_fd k))"

definition epoll_poller :: "'k linux \<Rightarrow> epoll_consts \<Rightarrow> raw_fd \<Rightarrow> ('k, epoll_event) poller_api" where
  "epoll_poller L C self_fd = \<lparr>p_add = epoll_add L C self_fd, p_update = epoll_update L C self_fd,
     p_delete = epoll_delete L self_fd, p_poll = epoll_poll L self_fd, p_event = epoll_decode C\<rparr>"

section \<open>kqueue\<close>

record kevent =
  ke_ident :: raw_fd
  ke_filter :: int
  ke_flags :: "16 word"
  ke_fflags :: "32 word"
  ke_data :: int
  ke_udata :: usize

record kqueue_consts =
  EVFILT_READ :: int
  EVFILT_WRITE :: int
  EV_ADD :: "16 word"
  EV_DELETE :: "16 word"
  EV_EOF :: "16 word"
  EV_ERROR :: "16 word"
  EV_ONESHOT :: "16 word"
  EV_RECEIPT :: "16 word"
  ENOENT :: int
  EPIPE :: int

text \<open>
  \<open>kevent\<close> gets the changes to apply, room for a number of events and a timeout as seconds and
  nanoseconds; \<open>from_raw_os_error\<close> builds an error of the standard library.
\<close>

record 'k bsd =
  kqueue_call :: "'k \<Rightarrow> int \<times> 'k"
  fcntl_cloexec :: "raw_fd \<Rightarrow> 'k \<Rightarrow> int \<times> 'k"
  kevent_call :: "raw_fd \<Rightarrow> kevent list \<Rightarrow> nat \<Rightarrow> (nat \<times> nat) option \<Rightarrow> 'k \<Rightarrow> (int \<times> 'k) \<times> kevent list"
  bsd_close :: "raw_fd \<Rightarrow> 'k \<Rightarrow> int \<times> 'k"
  bsd_error :: "'k \<Rightarrow> io_error"
  from_raw_os_error :: "int \<Rightarrow> io_error"

definition kchange :: "kqueue_consts \<Rightarrow> raw_fd \<Rightarrow> bool \<Rightarrow> int \<Rightarrow> usize \<Rightarrow> kevent" where
  "kchange C fd interested filt key =
     \<lparr>ke_ident = fd, ke_filter = filt,
      ke_flags = EV_RECEIPT C OR (if interested then EV_ADD C OR EV_ONESHOT C else EV_DELETE C),
      ke_fflags = 0, ke_data = 0, ke_udata = key\<rparr>"

definition kqueue_decode :: "kqueue_consts \<Rightarrow> kevent \<Rightarrow> event" where
  "kqueue_decode C sys =
     \<lparr>ev_key = ke_udata sys,
      ev_readable = (ke_filter sys = EVFILT_READ C),
      ev_writable = (ke_filter sys = EVFILT_WRITE C \<or>
        (ke_filter sys = EVFILT_READ C \<and> ke_flags sys AND EV_EOF C \<noteq> 0))\<rparr>"

definition kqueue_new :: "'k bsd \<Rightarrow> 'k \<Rightarrow> raw_fd io_result \<times> 'k" where
  "kqueue_new B k =
     (let (r, k) = syscall (bsd_error B) (kqueue_call B k) in
      case r of
        Inl e \<Rightarrow> (Inl e, k)
      | Inr fd \<Rightarrow> map_ok (\<lambda>_. fd) (syscall (bsd_error B) (fcntl_cloexec B fd k)))"

text \<open>A receipt reports an error that matters: not a filter that was absent, nor a closed pipe.\<close>

definition receipt_error :: "kqueue_consts \<Rightarrow> kevent \<Rightarrow> bool" where
  "receipt_error C event \<longleftrightarrow>
     ke_flags event AND EV_ERROR C \<noteq> 0 \<and> ke_data event \<noteq> 0 \<and>
     ke_data event \<noteq> ENOENT C \<and> ke_data event \<noteq> EPIPE C"

text \<open>The receipts overwrite the array of changes from its front.\<close>

definition kqueue_update ::
    "'k bsd \<Rightarrow> kqueue_consts \<Rightarrow> raw_fd \<Rightarrow> raw_fd \<Rightarrow> event \<Rightarrow> 'k \<Rightarrow> unit io_result \<times> 'k" where
  "kqueue_update B C self_fd fd event k =
     (let changes = [kchange C fd (ev_readable event) (EVFILT_READ C) (ev_key event),
                     kchange C fd (ev_writable event) (EVFILT_WRITE C) (ev_key event)];
          (res, out) = kevent_call B self_fd changes (length changes) None k;
          changes = out @ drop (length out) changes;
          (r, k) = syscall (bsd_error B) res
      in case r of
           Inl e \<Rightarrow> (Inl e, k)
         | Inr _ \<Rightarrow> (case find (receipt_error C) changes of
               Some event \<Rightarrow> (Inl (from_raw_os_error B (ke_data event)), k)
             | None \<Rightarrow> (Inr (), k)))"

definition kqueue_add ::
    "'k bsd \<Rightarrow> kqueue_consts \<Rightarrow> raw_fd \<Rightarrow> raw_fd \<Rightarrow> event \<Rightarrow> 'k \<Rightarrow> unit io_result \<times> 'k" where
  "kqueue_add B C self_fd fd event k = kqueue_update B C self_fd fd event k"

definition kqueue_delete :: "'k bsd \<Rightarrow> kqueue_consts \<Rightarrow> raw_fd \<Rightarrow> raw_fd \<Rightarrow> 'k \<Rightarrow> unit io_result \<times> 'k" where
  "kqueue_delete B C self_fd fd k = kqueue_update B C self_fd fd event_default k"

definition kqueue_poll ::
    "'k bsd \<Rightarrow> raw_fd \<Rightarrow> nat \<Rightarrow> duration option \<Rightarrow> 'k \<Rightarrow> kevent list io_result \<times> 'k" where
  "kqueue_poll B self_fd capacity timeout k =
     (let timeout = map_option (\<lambda>t. (t div 1000000000, t mod 1000000000)) timeout;
          (res, events) = kevent_call B self_fd [] capacity timeout k
      in map_ok (\<lambda>n. take (nat n) events) (syscall (bsd_error B) res))"

definition kqueue_drop :: "'k bsd \<Rightarrow> raw_fd \<Rightarrow> 'k \<Rightarrow> 'k" where
  "kqueue_drop B self_fd k = snd (syscall (bsd_error B) (bsd_close B self_fd k))"

definition kqueue_poller :: "'k bsd \<Rightarrow> kqueue_consts \<Rightarrow> raw_fd \<Rightarrow> ('k, kevent) poller_api" where
  "kqueue_poller B C self_fd = \<lparr>p_add = kqueue_add B C self_fd, p_update = kqueue_update B C self_fd,
     p_delete = kqueue_delete B C self_fd, p_poll = kqueue_poll B self_fd, p_event = kqueue_decode C\<rparr>"

section \<open>connect\<close>

text \<open>
  The crate \<open>socket2\<close> as a parameter. On most platforms the socket is created non-blocking, on
  the others it is set so afterwards; a connection in progress is not an error.
\<close>

record ('k, 'a, 'sock) socket_api =
  sk_new :: "bool \<Rightarrow> 'k \<Rightarrow> 'sock io_result \<times> 'k"
  sk_set_nonblocking :: "'sock \<Rightarrow> 'k \<Rightarrow> unit io_result \<times> 'k"
  sk_connect :: "'sock \<Rightarrow> 'a \<Rightarrow> 'k \<Rightarrow> unit io_result \<times> 'k"

definition connect ::
    "bool \<Rightarrow> bool \<Rightarrow> int \<Rightarrow> ('k, 'a, 'sock) socket_api \<Rightarrow> 'a \<Rightarrow> 'k \<Rightarrow> 'sock io_result \<times> 'k" where
  "connect nonblocking_type unix EINPROGRESS N addr k =
     (let (r, k) = sk_new N nonblocking_type k in
      case r of
        Inl e \<Rightarrow> (Inl e, k)
      | Inr socket \<Rightarrow>
          (let (r, k) = (if nonblocking_type then (Inr (), k) else sk_set_nonblocking N socket k) in
           case r of
             Inl e \<Rightarrow> (Inl e, k)
           | Inr _ \<Rightarrow>
               (let (r, k) = sk_connect N socket addr k in
                case r of
                  Inr _ \<Rightarrow> (Inr socket, k)
                | Inl err \<Rightarrow>
                    if unix \<and> err_os err = Some EINPROGRESS then (Inr socket, k)
                    else if err_kind err = WouldBlock then (Inr socket, k)
                    else (Inl err, k))))"

end
