(* ===== verification/Reactor.thy ===== *)
theory Reactor
  imports Sys
begin

text \<open>
  \<open>src/runtime/reactor.rs\<close>: the I/O reactor. It keeps a slab of sources, each a file descriptor
  with the interest of a reading and of a writing task, and a poller of \<open>Sys\<close>. A task that
  finds its source not ready leaves its waker; parking the reactor collects the wakers of the
  sources that became ready. The shared state is borrowed for the whole of each operation; the
  wakers an operation calls are returned.
\<close>

section \<open>The code\<close>

datatype direction = Read | Write

record 'w io_interest =
  in_poller :: "'w option"
  in_woke :: bool

record 'w source =
  so_raw :: raw_fd
  so_reader :: "'w io_interest"
  so_writer :: "'w io_interest"

record ('s, 'q, 'e) reactor =
  rx_poller :: 'q
  rx_events :: "'e list"
  rx_sources :: 's

definition initial_events :: nat where
  "initial_events = 1024"

definition interest_default :: "'w io_interest" where
  "interest_default = \<lparr>in_poller = None, in_woke = False\<rparr>"

definition has_poller :: "'w io_interest \<Rightarrow> bool" where
  "has_poller i = (in_poller i \<noteq> None)"

definition interest_take :: "'w io_interest \<Rightarrow> 'w list \<Rightarrow> 'w io_interest \<times> 'w list" where
  "interest_take i wakers =
     (let w = in_poller i; i = i\<lparr>in_poller := None\<rparr>;
          wakers = (case w of Some waker \<Rightarrow> wakers @ [waker] | None \<Rightarrow> wakers)
      in (i\<lparr>in_woke := True\<rparr>, wakers))"

text \<open>\<open>Source::interest\<close> borrows one of the two fields: reading and writing through it.\<close>

fun source_interest :: "direction \<Rightarrow> 'w source \<Rightarrow> 'w io_interest" where
  "source_interest Read so = so_reader so"
| "source_interest Write so = so_writer so"

fun set_interest :: "direction \<Rightarrow> 'w io_interest \<Rightarrow> 'w source \<Rightarrow> 'w source" where
  "set_interest Read i so = so\<lparr>so_reader := i\<rparr>"
| "set_interest Write i so = so\<lparr>so_writer := i\<rparr>"

definition reactor_new ::
    "('s, 'w source) slab_api \<Rightarrow> ('k \<Rightarrow> 'q io_result) \<Rightarrow> 'k \<Rightarrow> ('s, 'q, 'e) reactor io_result" where
  "reactor_new A poller_new k =
     (case poller_new k of
        Inl e \<Rightarrow> Inl e
      | Inr q \<Rightarrow> Inr \<lparr>rx_poller = q, rx_events = [], rx_sources = slab_new A\<rparr>)"

definition insert_source ::
    "('s, 'w source) slab_api \<Rightarrow> ('q, 'e) poller_api \<Rightarrow> raw_fd \<Rightarrow> ('s, 'q, 'e) reactor \<Rightarrow>
     nat io_result \<times> ('s, 'q, 'e) reactor" where
  "insert_source A Q raw x =
     (let key = slab_vacant_key A (rx_sources x);
          (r, q) = p_add Q raw \<lparr>ev_key = of_nat key, ev_readable = False, ev_writable = False\<rparr> (rx_poller x);
          x = x\<lparr>rx_poller := q\<rparr>
      in case r of
           Inl e \<Rightarrow> (Inl e, x)
         | Inr _ \<Rightarrow> (Inr key, x\<lparr>rx_sources := snd (slab_insert A (rx_sources x)
             \<lparr>so_raw = raw, so_reader = interest_default, so_writer = interest_default\<rparr>)\<rparr>))"

definition remove_source ::
    "('s, 'w source) slab_api \<Rightarrow> ('q, 'e) poller_api \<Rightarrow> nat \<Rightarrow> ('s, 'q, 'e) reactor \<Rightarrow>
     (unit io_result \<times> ('s, 'q, 'e) reactor) m" where
  "remove_source A Q key x =
     bindM (expectM InvalidKey (slab_remove A (rx_sources x) key)) (\<lambda>(source, ss).
       let (r, q) = p_delete Q (so_raw source) (rx_poller x)
       in Ret (r, x\<lparr>rx_sources := ss, rx_poller := q\<rparr>))"

definition update_interest ::
    "('q, 'e) poller_api \<Rightarrow> nat \<Rightarrow> 'w source \<Rightarrow> 'q \<Rightarrow> unit io_result \<times> 'q" where
  "update_interest Q key source q =
     p_update Q (so_raw source)
       \<lparr>ev_key = of_nat key, ev_readable = has_poller (so_reader source),
        ev_writable = has_poller (so_writer source)\<rparr> q"

text \<open>
  \<open>poll_ready\<close>: the writes through \<open>interest\<close> happen before the update, so a failing update
  leaves the waker in place.
\<close>

definition poll_ready ::
    "('s, 'w source) slab_api \<Rightarrow> ('q, 'e) poller_api \<Rightarrow> nat \<Rightarrow> direction \<Rightarrow> 'w \<Rightarrow> ('s, 'q, 'e) reactor \<Rightarrow>
     (unit io_result poll \<times> ('s, 'q, 'e) reactor \<times> 'w list) m" where
  "poll_ready A Q key direction cx x =
     bindM (expectM UnwrapNone (slab_get A (rx_sources x) key)) (\<lambda>source.
       let i = source_interest direction source in
       if in_woke i then
         Ret (Ready (Inr ()),
              x\<lparr>rx_sources := slab_set A (rx_sources x) key (set_interest direction (i\<lparr>in_woke := False\<rparr>) source)\<rparr>, [])
       else
         (let old = in_poller i;
              source = set_interest direction (i\<lparr>in_poller := Some cx\<rparr>) source;
              x = x\<lparr>rx_sources := slab_set A (rx_sources x) key source\<rparr>
          in case old of
               Some waker \<Rightarrow> Ret (Pending, x, [waker])
             | None \<Rightarrow>
                 (let (r, q) = update_interest Q key source (rx_poller x); x = x\<lparr>rx_poller := q\<rparr>
                  in case r of
                       Inl e \<Rightarrow> Ret (Ready (Inl e), x, [])
                     | Inr _ \<Rightarrow> Ret (Pending, x, []))))"

text \<open>What \<open>Reactor::poll\<close> does for one event, and for all of them until an update fails.\<close>

definition take_ready :: "event \<Rightarrow> 'w source \<Rightarrow> 'w list \<Rightarrow> 'w source \<times> 'w list" where
  "take_ready e source wakers =
     (let (rd, wakers) = (if ev_readable e then interest_take (so_reader source) wakers
                          else (so_reader source, wakers));
          (wr, wakers) = (if ev_writable e then interest_take (so_writer source) wakers
                          else (so_writer source, wakers))
      in (source\<lparr>so_reader := rd, so_writer := wr\<rparr>, wakers))"

fun handle_events ::
    "('s, 'w source) slab_api \<Rightarrow> ('q, 'e) poller_api \<Rightarrow> event list \<Rightarrow> 'w list \<Rightarrow> 's \<Rightarrow> 'q \<Rightarrow>
     unit io_result \<times> 'w list \<times> 's \<times> 'q" where
  "handle_events A Q [] wakers ss q = (Inr (), wakers, ss, q)"
| "handle_events A Q (e # es) wakers ss q =
     (case slab_get A ss (unat (ev_key e)) of
        None \<Rightarrow> handle_events A Q es wakers ss q
      | Some source \<Rightarrow>
          (let (source, wakers) = take_ready e source wakers;
               ss = slab_set A ss (unat (ev_key e)) source
           in if has_poller (so_reader source) \<or> has_poller (so_writer source) then
                (let (r, q) = update_interest Q (unat (ev_key e)) source q in
                 case r of
                   Inl err \<Rightarrow> (Inl err, wakers, ss, q)
                 | Inr _ \<Rightarrow> handle_events A Q es wakers ss q)
              else handle_events A Q es wakers ss q))"

definition reactor_poll ::
    "('s, 'w source) slab_api \<Rightarrow> ('q, 'e) poller_api \<Rightarrow> duration option \<Rightarrow> ('s, 'q, 'e) reactor \<Rightarrow> 'w list \<Rightarrow>
     unit io_result \<times> 'w list \<times> ('s, 'q, 'e) reactor" where
  "reactor_poll A Q timeout x wakers =
     (let (r, q) = p_poll Q initial_events timeout (rx_poller x); x = x\<lparr>rx_poller := q\<rparr> in
      case r of
        Inr events \<Rightarrow>
          (let (r, wakers, ss, q) = handle_events A Q (map (p_event Q) events) wakers (rx_sources x) (rx_poller x)
           in (r, wakers, x\<lparr>rx_events := events, rx_sources := ss, rx_poller := q\<rparr>))
      | Inl err \<Rightarrow> if err_kind err = Interrupted then (Inr (), wakers, x) else (Inl err, wakers, x))"

text \<open>\<open>impl Park for Reactor\<close>.\<close>

definition reactor_as_park ::
    "('s, 'w source) slab_api \<Rightarrow> ('q, 'e) poller_api \<Rightarrow> (('s, 'q, 'e) reactor, 'w) park_api" where
  "reactor_as_park A Q = \<lparr>pk_park = (\<lambda>x wakers. reactor_poll A Q None x wakers),
     pk_park_timeout = (\<lambda>x duration wakers. reactor_poll A Q (Some duration) x wakers)\<rparr>"

section \<open>The reactor is a parker\<close>

lemma take_ready_extends: "take_ready e so ws = (so', ws') \<Longrightarrow> \<exists>new. ws' = ws @ new"
  by (auto simp: take_ready_def interest_take_def Let_def split: if_splits option.splits)

lemma handle_events_extends:
  "handle_events A Q es ws ss q = (r, ws', ss', q') \<Longrightarrow> \<exists>new. ws' = ws @ new"
proof (induction A Q es ws ss q rule: handle_events.induct)
  case (2 A Q e es ws ss q)
  show ?case
  proof (cases "slab_get A ss (unat (ev_key e))")
    case None
    with 2 show ?thesis by simp
  next
    case (Some so)
    obtain so1 ws1 where t: "take_ready e so ws = (so1, ws1)" by (cases "take_ready e so ws")
    obtain r1 q1 where u: "update_interest Q (unat (ev_key e)) so1 q = (r1, q1)"
      by (cases "update_interest Q (unat (ev_key e)) so1 q")
    have "\<exists>new. ws' = ws1 @ new"
      using 2 Some t u by (auto simp: Let_def split: if_splits sum.splits)
    with take_ready_extends [OF t] show ?thesis by auto
  qed
qed simp

lemma reactor_poll_extends: "reactor_poll A Q t x ws = (r, ws', x') \<Longrightarrow> \<exists>new. ws' = ws @ new"
  by (auto simp: reactor_poll_def Let_def dest: handle_events_extends split: prod.splits sum.splits if_splits)

interpretation reactor_park: park_trait "reactor_as_park A Q" for A Q
  by unfold_locales (auto simp: reactor_as_park_def dest: reactor_poll_extends)

end
