(* ===== verification/Reactor_Invariant.thy ===== *)
theory Reactor_Invariant
  imports Reactor
begin

text \<open>
  The reactor over a poller that reports every registration once (\<open>EPOLLONESHOT\<close>): the
  contract \<open>oneshot_poller\<close>, its interpretation for the epoll back end of \<open>Sys\<close> on a
  simulated kernel, and the invariant that the poller is always armed for exactly the
  directions in which a waker waits.
\<close>

section \<open>The contract of a one-shot poller\<close>

text \<open>
  \<open>regs q\<close> is what is registered: per descriptor the key and the directions it is armed for.
  Reporting an event disarms its descriptor.
\<close>

definition keys_unique :: "(raw_fd \<Rightarrow> event option) \<Rightarrow> bool" where
  "keys_unique R \<longleftrightarrow> (\<forall>fd fd' ev ev'. R fd = Some ev \<longrightarrow> R fd' = Some ev' \<longrightarrow> ev_key ev = ev_key ev' \<longrightarrow> fd = fd')"

definition disarm :: "usize set \<Rightarrow> (raw_fd \<Rightarrow> event option) \<Rightarrow> raw_fd \<Rightarrow> event option" where
  "disarm ks R = (\<lambda>fd. map_option
     (\<lambda>ev. if ev_key ev \<in> ks then ev\<lparr>ev_readable := False, ev_writable := False\<rparr> else ev) (R fd))"

locale oneshot_poller =
  fixes Q :: "('q, 'e) poller_api"
    and regs :: "'q \<Rightarrow> raw_fd \<Rightarrow> event option"
  assumes add_ok: "p_add Q fd ev q = (Inr u, q') \<Longrightarrow> regs q fd = None \<and> regs q' = (regs q)(fd \<mapsto> ev)"
    and add_err: "p_add Q fd ev q = (Inl err, q') \<Longrightarrow> regs q' = regs q"
    and update_ok: "p_update Q fd ev q = (Inr u, q') \<Longrightarrow> regs q' = (regs q)(fd \<mapsto> ev)"
    and update_err: "p_update Q fd ev q = (Inl err, q') \<Longrightarrow> regs q' = regs q"
    and delete: "p_delete Q fd q = (r, q') \<Longrightarrow> regs q' = (regs q)(fd := None)"
    and poll_ok: "p_poll Q n t q = (Inr es, q') \<Longrightarrow> keys_unique (regs q) \<Longrightarrow>
          distinct (map (\<lambda>e. ev_key (p_event Q e)) es) \<and>
          regs q' = disarm ((\<lambda>e. ev_key (p_event Q e)) ` set es) (regs q)"
    and poll_err: "p_poll Q n t q = (Inl err, q') \<Longrightarrow> regs q' = regs q"

section \<open>Reachable reactors\<close>

text \<open>
  The steps of a reactor's clients, with the outcomes in which the poller did what it was asked;
  a new key fits into the 64 bits of an event's data.
\<close>

inductive reactor_step ::
    "('s, 'w source) slab_api \<Rightarrow> ('q, 'e) poller_api \<Rightarrow> ('s, 'q, 'e) reactor \<Rightarrow> 'w list \<Rightarrow> ('s, 'q, 'e) reactor \<Rightarrow> bool"
  for A Q where
  insert: "slab_vacant_key A (rx_sources x) < 2 ^ 64 \<Longrightarrow> insert_source A Q raw x = (r, x') \<Longrightarrow>
     reactor_step A Q x [] x'"
| remove: "remove_source A Q key x = Ret (r, x') \<Longrightarrow> reactor_step A Q x [] x'"
| poll: "poll_ready A Q key d cx x = Ret (r, x', out) \<Longrightarrow> (\<And>e. r \<noteq> Ready (Inl e)) \<Longrightarrow>
     reactor_step A Q x out x'"
| park: "reactor_poll A Q t x [] = (Inr u, out, x') \<Longrightarrow> reactor_step A Q x out x'"

inductive reactor_reach ::
    "('s, 'w source) slab_api \<Rightarrow> ('q, 'e) poller_api \<Rightarrow> ('q \<Rightarrow> raw_fd \<Rightarrow> event option) \<Rightarrow> ('s, 'q, 'e) reactor \<Rightarrow> bool"
  for A Q regs where
  init: "reactor_new A Inr (q :: 'q) = Inr x \<Longrightarrow> regs (rx_poller x) = Map.empty \<Longrightarrow> reactor_reach A Q regs x"
| step: "reactor_reach A Q regs x \<Longrightarrow> reactor_step A Q x out x' \<Longrightarrow> reactor_reach A Q regs x'"

section \<open>The invariant\<close>

text \<open>
  For each source the poller is armed for the directions in which a waker waits; those whose
  keys are in \<open>D\<close> were just disarmed. Every registration belongs to a source.
\<close>

definition wanted :: "nat \<Rightarrow> 'w source \<Rightarrow> event" where
  "wanted k so = \<lparr>ev_key = of_nat k, ev_readable = has_poller (so_reader so), ev_writable = has_poller (so_writer so)\<rparr>"

definition armed_inv ::
    "usize set \<Rightarrow> (nat \<Rightarrow> 'w source option) \<Rightarrow> (raw_fd \<Rightarrow> event option) \<Rightarrow> bool" where
  "armed_inv D S R \<longleftrightarrow>
     (\<forall>k so. S k = Some so \<longrightarrow> k < 2 ^ 64 \<and>
        R (so_raw so) = Some (if of_nat k \<in> D then \<lparr>ev_key = of_nat k, ev_readable = False, ev_writable = False\<rparr>
                              else wanted k so)) \<and>
     (\<forall>fd ev. R fd = Some ev \<longrightarrow> (\<exists>k so. S k = Some so \<and> so_raw so = fd))"

lemma of_nat_key: "k < 2 ^ 64 \<Longrightarrow> unat (of_nat k :: usize) = k"
  by (simp add: unsigned_of_nat take_bit_nat_eq_self)

lemma of_nat_key_eq: "k < 2 ^ 64 \<Longrightarrow> j < 2 ^ 64 \<Longrightarrow> (of_nat k :: usize) = of_nat j \<longleftrightarrow> k = j"
  using of_nat_key by metis

lemma armed_invD:
  assumes "armed_inv D S R" and "S k = Some so"
  shows "k < 2 ^ 64" and "\<exists>ev. R (so_raw so) = Some ev \<and> ev_key ev = of_nat k"
  using assms by (auto simp: armed_inv_def wanted_def split: if_splits)

lemma armed_raw_inj:
  assumes "armed_inv D S R" and "S k = Some so" and "S j = Some so'" and "so_raw so = so_raw so'"
  shows "k = j"
proof -
  obtain ev ev' where "R (so_raw so) = Some ev" "ev_key ev = of_nat k" "R (so_raw so') = Some ev'" "ev_key ev' = of_nat j"
    using armed_invD(2) [OF assms(1)] assms(2,3) by blast
  then have "(of_nat k :: usize) = of_nat j" using assms(4) by simp
  then show ?thesis using of_nat_key_eq armed_invD(1) [OF assms(1)] assms(2,3) by blast
qed

lemma armed_keys_unique: "armed_inv D S R \<Longrightarrow> keys_unique R"
  unfolding keys_unique_def
proof (intro allI impI)
  fix fd fd' ev ev'
  assume inv: "armed_inv D S R" and R: "R fd = Some ev" "R fd' = Some ev'" and k: "ev_key ev = ev_key ev'"
  obtain i so where i: "S i = Some so" "so_raw so = fd" using inv R(1) unfolding armed_inv_def by blast
  obtain j so' where j: "S j = Some so'" "so_raw so' = fd'" using inv R(2) unfolding armed_inv_def by blast
  have "ev_key ev = of_nat i" "ev_key ev' = of_nat j" using armed_invD(2) [OF inv] i j R by fastforce+
  then have "i = j" using k of_nat_key_eq armed_invD(1) [OF inv] i j by metis
  with i j show "fd = fd'" by simp
qed

text \<open>One source and its registration change together.\<close>

lemma armed_inv_update:
  assumes inv: "armed_inv D S R" and k: "S k = Some so" and raw: "so_raw so' = so_raw so"
    and R': "R' = R(so_raw so \<mapsto> wanted k so')"
  shows "armed_inv (D - {of_nat k}) (S(k \<mapsto> so')) R'"
proof -
  have other: "so_raw s \<noteq> so_raw so" "(of_nat j :: usize) \<noteq> of_nat k" if "S j = Some s" "j \<noteq> k" for j s
    using that armed_raw_inj [OF inv that(1) k] of_nat_key_eq armed_invD(1) [OF inv] k by blast+
  show ?thesis unfolding armed_inv_def
  proof (intro conjI allI impI)
    fix j s
    assume j: "(S(k \<mapsto> so')) j = Some s"
    show "j < 2 ^ 64" using j k armed_invD(1) [OF inv] by (auto split: if_splits)
    show "R' (so_raw s) = Some (if of_nat j \<in> D - {of_nat k} then \<lparr>ev_key = of_nat j, ev_readable = False, ev_writable = False\<rparr>
        else wanted j s)"
    proof (cases "j = k")
      case True
      with j raw R' show ?thesis by simp
    next
      case False
      with j have s: "S j = Some s" by simp
      with inv have "R (so_raw s) = Some (if of_nat j \<in> D then \<lparr>ev_key = of_nat j, ev_readable = False, ev_writable = False\<rparr>
        else wanted j s)" unfolding armed_inv_def by blast
      with other [OF s False] R' show ?thesis by simp
    qed
  next
    fix fd ev
    assume f: "R' fd = Some ev"
    show "\<exists>j s. (S(k \<mapsto> so')) j = Some s \<and> so_raw s = fd"
    proof (cases "fd = so_raw so")
      case True
      with raw show ?thesis by (intro exI [of _ k]) simp
    next
      case False
      with f R' have "R fd = Some ev" by simp
      then obtain j s where j: "S j = Some s" "so_raw s = fd" using inv unfolding armed_inv_def by blast
      with False k have "j \<noteq> k" by auto
      with j show ?thesis by (intro exI [of _ j] exI [of _ s]) simp
    qed
  qed
qed

lemma armed_inv_same:
  assumes inv: "armed_inv {} S R" and k: "S k = Some so" and raw: "so_raw so' = so_raw so"
    and "has_poller (so_reader so') = has_poller (so_reader so)"
    and "has_poller (so_writer so') = has_poller (so_writer so)"
  shows "armed_inv {} (S(k \<mapsto> so')) R"
proof -
  have "R (so_raw so) = Some (wanted k so')" using inv k assms(4,5) by (auto simp: armed_inv_def wanted_def)
  then have "R = R(so_raw so \<mapsto> wanted k so')" by auto
  from armed_inv_update [OF inv k raw this] show ?thesis by simp
qed

lemma armed_inv_insert:
  assumes inv: "armed_inv {} S R" and "S k = None" and "k < 2 ^ 64" and "R (so_raw so) = None"
  shows "armed_inv {} (S(k \<mapsto> so)) (R(so_raw so \<mapsto> wanted k so))"
proof -
  have "so_raw s \<noteq> so_raw so" if "S j = Some s" for j s
    using armed_invD(2) [OF inv that] assms(4) by fastforce
  show ?thesis unfolding armed_inv_def
  proof (intro conjI allI impI)
    fix j s
    assume j: "(S(k \<mapsto> so)) j = Some s"
    show "j < 2 ^ 64" using j armed_invD(1) [OF inv] assms(3) by (auto split: if_splits)
    show "(R(so_raw so \<mapsto> wanted k so)) (so_raw s) = Some (if of_nat j \<in> ({} :: usize set)
        then \<lparr>ev_key = of_nat j, ev_readable = False, ev_writable = False\<rparr> else wanted j s)"
      using j inv \<open>\<And>s j. S j = Some s \<Longrightarrow> so_raw s \<noteq> so_raw so\<close> by (auto simp: armed_inv_def split: if_splits)
  next
    fix fd ev
    assume f: "(R(so_raw so \<mapsto> wanted k so)) fd = Some ev"
    show "\<exists>j s. (S(k \<mapsto> so)) j = Some s \<and> so_raw s = fd"
    proof (cases "fd = so_raw so")
      case False
      with f have "R fd = Some ev" by simp
      then obtain j s where j: "S j = Some s" "so_raw s = fd" using inv unfolding armed_inv_def by blast
      with assms(2) have "j \<noteq> k" by auto
      with j show ?thesis by (intro exI [of _ j] exI [of _ s]) simp
    qed (intro exI [of _ k] exI [of _ so], simp)
  qed
qed

lemma armed_inv_remove:
  assumes inv: "armed_inv {} S R" and k: "S k = Some so"
  shows "armed_inv {} (S(k := None)) (R(so_raw so := None))"
proof -
  have raw: "so_raw s \<noteq> so_raw so" if "S j = Some s" "j \<noteq> k" for j s
    using that armed_raw_inj [OF inv that(1) k] by blast
  show ?thesis unfolding armed_inv_def
  proof (intro conjI allI impI)
    fix j s
    assume "(S(k := None)) j = Some s"
    then have j: "S j = Some s" "j \<noteq> k" by (auto split: if_splits)
    show "j < 2 ^ 64" by (rule armed_invD(1) [OF inv j(1)])
    show "(R(so_raw so := None)) (so_raw s) = Some (if of_nat j \<in> ({} :: usize set)
        then \<lparr>ev_key = of_nat j, ev_readable = False, ev_writable = False\<rparr> else wanted j s)"
      using inv j raw [OF j] by (auto simp: armed_inv_def)
  next
    fix fd ev
    assume f: "(R(so_raw so := None)) fd = Some ev"
    then have "R fd = Some ev" "fd \<noteq> so_raw so" by (auto split: if_splits)
    then obtain j s where "S j = Some s" "so_raw s = fd" using inv unfolding armed_inv_def by blast
    with k \<open>fd \<noteq> so_raw so\<close> show "\<exists>j s. (S(k := None)) j = Some s \<and> so_raw s = fd"
      by (intro exI [of _ j] exI [of _ s]) auto
  qed
qed

lemma armed_inv_disarm:
  assumes inv: "armed_inv {} S R"
  shows "armed_inv D S (disarm D R)"
  using inv unfolding armed_inv_def disarm_def by (auto simp: wanted_def)

text \<open>An event for a key that no source has leaves nothing to do.\<close>

lemma armed_inv_drop:
  assumes inv: "armed_inv D S R" and "S (unat e) = None"
  shows "armed_inv (D - {e}) S R"
proof -
  have "of_nat k \<noteq> e" if "S k = Some so" for k so
    using that assms(2) armed_invD(1) [OF inv that] of_nat_key by fastforce
  then show ?thesis using inv unfolding armed_inv_def by auto
qed

lemma take_ready_raw: "take_ready e so ws = (so', ws') \<Longrightarrow> so_raw so' = so_raw so"
  by (auto simp: take_ready_def Let_def split: prod.splits)

text \<open>The slab of sources, and with it a one-shot poller.\<close>

locale source_slab = slab_crate A for A :: "('s, 'w source) slab_api"
begin

end

interpretation sources: source_slab assoc_slab
  by unfold_locales

locale reactor_env = source_slab A + oneshot_poller Q regs
  for A :: "('s, 'w source) slab_api" and Q :: "('q, 'e) poller_api" and regs :: "'q \<Rightarrow> raw_fd \<Rightarrow> event option"
begin

definition rx_inv :: "('s, 'q, 'e) reactor \<Rightarrow> bool" where
  "rx_inv x \<longleftrightarrow> armed_inv {} (slab_get A (rx_sources x)) (regs (rx_poller x))"

lemma update_interest_Inr:
  "update_interest Q k so q = (Inr u, q') \<Longrightarrow> regs q' = (regs q)(so_raw so \<mapsto> wanted k so)"
  unfolding update_interest_def wanted_def by (rule update_ok)

lemma handle_events_inv:
  "handle_events A Q es ws ss q = (Inr u, ws', ss', q') \<Longrightarrow> distinct (map ev_key es) \<Longrightarrow>
     armed_inv (ev_key ` set es) (slab_get A ss) (regs q) \<Longrightarrow> armed_inv {} (slab_get A ss') (regs q')"
proof (induction es arbitrary: ws ss q)
  case (Cons e es)
  let ?k = "unat (ev_key e)"
  have D: "ev_key ` set (e # es) - {ev_key e} = ev_key ` set es" using Cons.prems(2) by auto
  show ?case
  proof (cases "slab_get A ss ?k")
    case None
    from armed_inv_drop [OF Cons.prems(3) None] D have "armed_inv (ev_key ` set es) (slab_get A ss) (regs q)" by simp
    with Cons None show ?thesis by simp
  next
    case (Some so)
    obtain so1 ws1 where t: "take_ready e so ws = (so1, ws1)" by (cases "take_ready e so ws")
    note raw = take_ready_raw [OF t]
    have key: "(of_nat ?k :: usize) = ev_key e" by simp
    have S: "slab_get A (slab_set A ss ?k so1) = (slab_get A ss)(?k \<mapsto> so1)" using Some by (simp add: get_set)
    show ?thesis
    proof (cases "has_poller (so_reader so1) \<or> has_poller (so_writer so1)")
      case True
      obtain r1 q1 where u: "update_interest Q ?k so1 q = (r1, q1)" by (cases "update_interest Q ?k so1 q")
      with Cons.prems(1) Some t True have "r1 = Inr ()"
        and rest: "handle_events A Q es ws1 (slab_set A ss ?k so1) q1 = (Inr u, ws', ss', q')"
        by (cases r1; simp add: Let_def)+
      have "regs q1 = (regs q)(so_raw so \<mapsto> wanted ?k so1)"
        using update_interest_Inr u \<open>r1 = Inr ()\<close> raw by metis
      from armed_inv_update [OF Cons.prems(3) Some raw this] D key S
      have "armed_inv (ev_key ` set es) (slab_get A (slab_set A ss ?k so1)) (regs q1)" by simp
      with Cons.IH [OF rest] Cons.prems(2) show ?thesis by simp
    next
      case False
      then have rest: "handle_events A Q es ws1 (slab_set A ss ?k so1) q = (Inr u, ws', ss', q')"
        using Cons.prems(1) Some t by (simp add: Let_def)
      have "regs q (so_raw so) = Some (wanted ?k so1)"
        using Cons.prems(3) Some False key by (auto simp: armed_inv_def wanted_def)
      then have "regs q = (regs q)(so_raw so \<mapsto> wanted ?k so1)" by auto
      from armed_inv_update [OF Cons.prems(3) Some raw this] D key S
      have "armed_inv (ev_key ` set es) (slab_get A (slab_set A ss ?k so1)) (regs q)" by simp
      with Cons.IH [OF rest] Cons.prems(2) show ?thesis by simp
    qed
  qed
qed simp

lemma rx_inv_new: "reactor_new A poller_new k = Inr x \<Longrightarrow> regs (rx_poller x) = Map.empty \<Longrightarrow> rx_inv x"
  by (auto simp: reactor_new_def rx_inv_def armed_inv_def get_new split: sum.splits)

lemma rx_inv_insert:
  assumes inv: "rx_inv x" and key: "slab_vacant_key A (rx_sources x) < 2 ^ 64"
    and i: "insert_source A Q raw x = (r, x')"
  shows "rx_inv x'"
proof -
  let ?k = "slab_vacant_key A (rx_sources x)"
  let ?ev = "\<lparr>ev_key = of_nat ?k, ev_readable = False, ev_writable = False\<rparr>"
  let ?so = "\<lparr>so_raw = raw, so_reader = interest_default, so_writer = interest_default\<rparr> :: 'w source"
  obtain r1 q1 where p: "p_add Q raw ?ev (rx_poller x) = (r1, q1)" by (cases "p_add Q raw ?ev (rx_poller x)")
  show ?thesis
  proof (cases r1)
    case (Inl e)
    with p i inv add_err [of raw ?ev "rx_poller x"] show ?thesis by (auto simp: insert_source_def rx_inv_def)
  next
    case (Inr u)
    note ok = add_ok [OF p [unfolded Inr]]
    have w: "wanted ?k ?so = ?ev" by (simp add: wanted_def interest_default_def has_poller_def)
    have "armed_inv {} ((slab_get A (rx_sources x))(?k \<mapsto> ?so)) ((regs (rx_poller x))(so_raw ?so \<mapsto> wanted ?k ?so))"
      by (rule armed_inv_insert) (use inv key ok vacant_key in \<open>simp_all add: rx_inv_def\<close>)
    with w ok p Inr i show ?thesis by (auto simp: insert_source_def rx_inv_def get_insert)
  qed
qed

lemma rx_inv_remove:
  assumes inv: "rx_inv x" and rm: "remove_source A Q key x = Ret (r, x')"
  shows "rx_inv x'"
proof -
  obtain so ss r1 q1 where s: "slab_remove A (rx_sources x) key = Some (so, ss)"
    and d: "p_delete Q (so_raw so) (rx_poller x) = (r1, q1)"
    and x': "x' = x\<lparr>rx_sources := ss, rx_poller := q1\<rparr>"
  proof -
    obtain so ss where s: "slab_remove A (rx_sources x) key = Some (so, ss)"
      using rm by (auto simp: remove_source_def bindM_Ret_conv)
    obtain r1 q1 where d: "p_delete Q (so_raw so) (rx_poller x) = (r1, q1)"
      by (cases "p_delete Q (so_raw so) (rx_poller x)")
    from s d rm have "x' = x\<lparr>rx_sources := ss, rx_poller := q1\<rparr>" by (simp add: remove_source_def)
    with that s d show ?thesis by blast
  qed
  from armed_inv_remove [of "slab_get A (rx_sources x)" "regs (rx_poller x)" key so] inv remove_Some [OF s]
    delete [OF d] x' show ?thesis by (simp add: rx_inv_def)
qed

lemma rx_inv_poll:
  assumes inv: "rx_inv x" and p: "poll_ready A Q key d cx x = Ret (r, x', out)" and ok: "\<And>e. r \<noteq> Ready (Inl e)"
  shows "rx_inv x'"
proof -
  obtain so where so: "slab_get A (rx_sources x) key = Some so"
    using p by (auto simp: poll_ready_def bindM_Ret_conv)
  let ?i = "source_interest d so"
  have set: "slab_get A (slab_set A (rx_sources x) key s) = (slab_get A (rx_sources x))(key \<mapsto> s)" for s
    using so by (simp add: get_set)
  note same = armed_inv_same [OF inv [unfolded rx_inv_def] so]
  show ?thesis
  proof (cases "in_woke ?i")
    case True
    with p so have "x' = x\<lparr>rx_sources := slab_set A (rx_sources x) key (set_interest d (?i\<lparr>in_woke := False\<rparr>) so)\<rparr>"
      by (simp add: poll_ready_def Let_def)
    with same set show ?thesis by (cases d) (simp_all add: rx_inv_def has_poller_def)
  next
    case False
    let ?so = "set_interest d (?i\<lparr>in_poller := Some cx\<rparr>) so"
    have raw: "so_raw ?so = so_raw so" by (cases d) simp_all
    show ?thesis
    proof (cases "in_poller ?i")
      case (Some w)
      with p so False have "x' = x\<lparr>rx_sources := slab_set A (rx_sources x) key ?so\<rparr>"
        by (simp add: poll_ready_def Let_def)
      with same set Some show ?thesis by (cases d) (simp_all add: rx_inv_def has_poller_def)
    next
      case None
      obtain r1 q1 where u: "update_interest Q key ?so (rx_poller x) = (r1, q1)"
        by (cases "update_interest Q key ?so (rx_poller x)")
      with p so False None ok have r1: "r1 = Inr ()"
        and x': "x' = x\<lparr>rx_sources := slab_set A (rx_sources x) key ?so, rx_poller := q1\<rparr>"
        by (auto simp: poll_ready_def Let_def split: sum.splits)
      have "regs q1 = (regs (rx_poller x))(so_raw so \<mapsto> wanted key ?so)"
        using update_interest_Inr [OF u [unfolded r1]] raw by simp
      from armed_inv_update [OF inv [unfolded rx_inv_def] so raw this] set x' show ?thesis
        by (simp add: rx_inv_def)
    qed
  qed
qed

lemma rx_inv_park:
  assumes inv: "rx_inv x" and p: "reactor_poll A Q t x ws = (Inr u, ws', x')"
  shows "rx_inv x'"
proof -
  obtain r1 q1 where q: "p_poll Q initial_events t (rx_poller x) = (r1, q1)"
    by (cases "p_poll Q initial_events t (rx_poller x)")
  show ?thesis
  proof (cases r1)
    case (Inl e)
    with q p inv poll_err [of initial_events t "rx_poller x"] show ?thesis
      by (auto simp: reactor_poll_def rx_inv_def Let_def split: if_splits)
  next
    case (Inr es)
    obtain ss q2 where h: "handle_events A Q (map (p_event Q) es) ws (rx_sources x) q1 = (Inr u, ws', ss, q2)"
      and x': "x' = x\<lparr>rx_events := es, rx_sources := ss, rx_poller := q2\<rparr>"
      using p q Inr by (auto simp: reactor_poll_def split: prod.splits)
    note u = armed_keys_unique [OF inv [unfolded rx_inv_def]]
    note ok = poll_ok [OF q [unfolded Inr] u]
    have "armed_inv (ev_key ` set (map (p_event Q) es)) (slab_get A (rx_sources x)) (regs q1)"
      using armed_inv_disarm [OF inv [unfolded rx_inv_def]] ok by (simp add: image_image)
    from handle_events_inv [OF h _ this] ok x' show ?thesis by (simp add: rx_inv_def comp_def)
  qed
qed

lemma reactor_step_inv: "reactor_step A Q x out x' \<Longrightarrow> rx_inv x \<Longrightarrow> rx_inv x'"
  by (induction rule: reactor_step.induct)
    (blast intro: rx_inv_insert rx_inv_remove rx_inv_poll rx_inv_park)+

lemma reactor_reach_inv: "reactor_reach A Q regs x \<Longrightarrow> rx_inv x"
  by (induction rule: reactor_reach.induct) (blast intro: rx_inv_new reactor_step_inv)+

end

section \<open>Delivery\<close>

text \<open>
  What happened to a direction of a source during a park: it was taken if an event said it is
  ready, otherwise it is as before.
\<close>

definition dir_ready :: "direction \<Rightarrow> event \<Rightarrow> bool" where
  "dir_ready d e = (case d of Read \<Rightarrow> ev_readable e | Write \<Rightarrow> ev_writable e)"

lemma take_ready_interest:
  "take_ready e so ws = (so', ws') \<Longrightarrow> source_interest d so' =
     (if dir_ready d e then \<lparr>in_poller = None, in_woke = True\<rparr> else source_interest d so)"
  by (cases d) (auto simp: take_ready_def interest_take_def dir_ready_def Let_def split: if_splits)

lemma take_ready_wakes:
  "take_ready e so ws = (so', ws') \<Longrightarrow> dir_ready d e \<Longrightarrow> in_poller (source_interest d so) = Some w \<Longrightarrow> w \<in> set ws'"
  by (cases d) (auto simp: take_ready_def interest_take_def dir_ready_def Let_def split: if_splits option.splits)

context source_slab
begin

text \<open>One step of the loop over the events: the source changed, then the rest is handled.\<close>

lemma handle_events_Cons:
  assumes h: "handle_events A Q (e # es) ws ss q = (Inr u, ws', ss', q')"
    and so: "slab_get A ss (unat (ev_key e)) = Some so" and t: "take_ready e so ws = (so1, ws1)"
  shows "\<exists>q1. handle_events A Q es ws1 (slab_set A ss (unat (ev_key e)) so1) q1 = (Inr u, ws', ss', q')"
proof -
  obtain r1 q1 where "update_interest Q (unat (ev_key e)) so1 q = (r1, q1)"
    by (cases "update_interest Q (unat (ev_key e)) so1 q")
  with h so t show ?thesis by (auto simp: Let_def split: if_splits sum.splits)
qed

lemma handle_events_source:
  "handle_events A Q es ws ss q = (Inr u, ws', ss', q') \<Longrightarrow> slab_get A ss k = Some so \<Longrightarrow>
     \<exists>so'. slab_get A ss' k = Some so' \<and> source_interest d so' =
       (if \<exists>e \<in> set es. unat (ev_key e) = k \<and> dir_ready d e then \<lparr>in_poller = None, in_woke = True\<rparr>
        else source_interest d so)"
proof (induction es arbitrary: ws ss q so)
  case (Cons e es)
  show ?case
  proof (cases "slab_get A ss (unat (ev_key e))")
    case None
    with Cons.prems have "unat (ev_key e) \<noteq> k" by auto
    with None Cons.prems Cons.IH [of ws ss q so] show ?thesis by auto
  next
    case (Some s)
    obtain s1 ws1 where t: "take_ready e s ws = (s1, ws1)" by (cases "take_ready e s ws")
    obtain q1 where h: "handle_events A Q es ws1 (slab_set A ss (unat (ev_key e)) s1) q1 = (Inr u, ws', ss', q')"
      using handle_events_Cons [OF Cons.prems(1) Some t] by blast
    have S: "slab_get A (slab_set A ss (unat (ev_key e)) s1) = (slab_get A ss)(unat (ev_key e) \<mapsto> s1)"
      using Some by (simp add: get_set)
    show ?thesis
    proof (cases "unat (ev_key e) = k")
      case True
      with Some Cons.prems(2) have "s = so" by simp
      with Cons.IH [OF h, of s1] S True take_ready_interest [OF t, of d] show ?thesis by auto
    next
      case False
      with Cons.IH [OF h, of so] S Cons.prems(2) show ?thesis by auto
    qed
  qed
qed simp

lemma handle_events_wakes:
  "handle_events A Q es ws ss q = (Inr u, ws', ss', q') \<Longrightarrow> slab_get A ss k = Some so \<Longrightarrow>
     e \<in> set es \<Longrightarrow> unat (ev_key e) = k \<Longrightarrow> dir_ready d e \<Longrightarrow> in_poller (source_interest d so) = Some w \<Longrightarrow>
     w \<in> set ws'"
proof (induction es arbitrary: ws ss q so)
  case (Cons e1 es)
  show ?case
  proof (cases "slab_get A ss (unat (ev_key e1))")
    case None
    with Cons.prems Cons.IH [of ws ss q so] show ?thesis by auto
  next
    case (Some s)
    obtain s1 ws1 where t: "take_ready e1 s ws = (s1, ws1)" by (cases "take_ready e1 s ws")
    obtain q1 where h: "handle_events A Q es ws1 (slab_set A ss (unat (ev_key e1)) s1) q1 = (Inr u, ws', ss', q')"
      using handle_events_Cons [OF Cons.prems(1) Some t] by blast
    have S: "slab_get A (slab_set A ss (unat (ev_key e1)) s1) = (slab_get A ss)(unat (ev_key e1) \<mapsto> s1)"
      using Some by (simp add: get_set)
    show ?thesis
    proof (cases "unat (ev_key e1) = k \<and> dir_ready d e1")
      case True
      with Some Cons.prems(2) have "w \<in> set ws1" using take_ready_wakes [OF t] Cons.prems(6) by auto
      with handle_events_extends [OF h] show ?thesis by auto
    next
      case False
      then have e: "e \<in> set es" using Cons.prems(3-5) by auto
      show ?thesis
      proof (cases "unat (ev_key e1) = k")
        case True
        with Some Cons.prems(2) have "s = so" by simp
        with True False take_ready_interest [OF t, of d] Cons.prems(6)
        have "in_poller (source_interest d s1) = Some w" by auto
        with Cons.IH [OF h, of s1] S True e Cons.prems(4,5) show ?thesis by simp
      next
        case no: False
        with Cons.IH [OF h, of so] S e Cons.prems show ?thesis by simp
      qed
    qed
  qed
qed simp

lemma poll_delivers:
  assumes "p_poll Q initial_events t (rx_poller x) = (Inr events, q)"
    and "reactor_poll A Q t x ws = (Inr u, ws', x')"
    and "e \<in> set events" and "dir_ready d (p_event Q e)"
    and "slab_get A (rx_sources x) (unat (ev_key (p_event Q e))) = Some so"
    and "in_poller (source_interest d so) = Some w"
  shows "w \<in> set ws' \<and>
    (\<exists>x''. poll_ready A Q (unat (ev_key (p_event Q e))) d cx x' = Ret (Ready (Inr ()), x'', []))"
proof -
  obtain ss q2 where h: "handle_events A Q (map (p_event Q) events) ws (rx_sources x) q = (Inr u, ws', ss, q2)"
    and x': "rx_sources x' = ss"
    using assms(1,2) by (auto simp: reactor_poll_def split: prod.splits)
  have e: "p_event Q e \<in> set (map (p_event Q) events)" using assms(3) by simp
  have "w \<in> set ws'" by (rule handle_events_wakes [OF h assms(5) e _ assms(4,6)]) simp
  moreover obtain so' where "slab_get A ss (unat (ev_key (p_event Q e))) = Some so'"
    and "source_interest d so' = \<lparr>in_poller = None, in_woke = True\<rparr>"
  proof -
    have "\<exists>e' \<in> set (map (p_event Q) events). unat (ev_key e') = unat (ev_key (p_event Q e)) \<and> dir_ready d e'"
      by (rule bexI [OF _ e]) (simp add: assms(4))
    with handle_events_source [OF h assms(5), of d] that show ?thesis by auto
  qed
  ultimately show ?thesis using x' by (simp add: poll_ready_def Let_def)
qed

end

end
