(* ===== verification/Reactor_Waiting.thy ===== *)
theory Reactor_Waiting
  imports Reactor_Invariant
begin

text \<open>
  What the reactor needs of any poller, epoll or kqueue: the contract \<open>direction_poller\<close>, which
  speaks of each direction of a descriptor by itself. Under it every waker that waits is backed by
  an armed direction, so that no readiness is missed, whichever back end is used and however it
  groups its reports.
\<close>

section \<open>The contract of a poller\<close>

text \<open>
  \<open>arm q fd d\<close> is the key under which the poller reports direction \<open>d\<close> of \<open>fd\<close>, if it is armed.
  An operation on one descriptor leaves the others alone. A poll may disarm what it likes of a
  key that it reports, and nothing else. What deleting does to the descriptor is left open.
\<close>

locale direction_poller =
  fixes Q :: "('q, 'e) poller_api"
    and arm :: "'q \<Rightarrow> raw_fd \<Rightarrow> direction \<Rightarrow> usize option"
  assumes add_other: "p_add Q fd ev q = (r, q') \<Longrightarrow> fd' \<noteq> fd \<Longrightarrow> arm q' fd' = arm q fd'"
    and add_fails: "p_add Q fd ev q = (Inl err, q') \<Longrightarrow> arm q' = arm q"
    and update_other: "p_update Q fd ev q = (r, q') \<Longrightarrow> fd' \<noteq> fd \<Longrightarrow> arm q' fd' = arm q fd'"
    and update_arms: "p_update Q fd ev q = (Inr u, q') \<Longrightarrow>
          arm q' fd d = (if dir_ready d ev then Some (ev_key ev) else None)"
    and delete_other: "p_delete Q fd q = (r, q') \<Longrightarrow> fd' \<noteq> fd \<Longrightarrow> arm q' fd' = arm q fd'"
    and poll_keeps: "p_poll Q n t q = (Inr es, q') \<Longrightarrow> arm q fd d = Some k \<Longrightarrow>
          arm q' fd d = Some k \<or> k \<in> (\<lambda>e. ev_key (p_event Q e)) ` set es"
    and poll_fails: "p_poll Q n t q = (Inl err, q') \<Longrightarrow> arm q' = arm q"

text \<open>
  A one-shot poller is one that speaks of both directions of a descriptor at once, if its polls
  report every registration that they change.
\<close>

definition armed_directions :: "('q \<Rightarrow> raw_fd \<Rightarrow> event option) \<Rightarrow> 'q \<Rightarrow> raw_fd \<Rightarrow> direction \<Rightarrow> usize option" where
  "armed_directions regs q fd d =
     (case regs q fd of Some ev \<Rightarrow> if dir_ready d ev then Some (ev_key ev) else None | None \<Rightarrow> None)"

context oneshot_poller
begin

lemma armed_directions_poller:
  assumes "\<And>n t q es q' fd ev. p_poll Q n t q = (Inr es, q') \<Longrightarrow> regs q fd = Some ev \<Longrightarrow>
      regs q' fd = Some ev \<or> ev_key ev \<in> (\<lambda>e. ev_key (p_event Q e)) ` set es"
  shows "direction_poller Q (armed_directions regs)"
proof
  fix n t q es q' fd d k
  assume "p_poll Q n t q = (Inr es, q')" and "armed_directions regs q fd d = Some k"
  then show "armed_directions regs q' fd d = Some k \<or> k \<in> (\<lambda>e. ev_key (p_event Q e)) ` set es"
    using assms by (fastforce simp: armed_directions_def split: option.splits if_splits)
next
  fix fd ev q r q' fd'
  assume "p_add Q fd ev q = (r, q')" and "fd' \<noteq> (fd :: raw_fd)"
  then show "armed_directions regs q' fd' = armed_directions regs q fd'"
    using add_ok add_err by (cases r) (auto simp: armed_directions_def fun_eq_iff)
next
  fix fd ev q r q' fd'
  assume "p_update Q fd ev q = (r, q')" and "fd' \<noteq> (fd :: raw_fd)"
  then show "armed_directions regs q' fd' = armed_directions regs q fd'"
    using update_ok update_err by (cases r) (auto simp: armed_directions_def fun_eq_iff)
qed (auto simp: armed_directions_def fun_eq_iff dest: add_err update_ok delete poll_err)

end

section \<open>Reachable reactors\<close>

text \<open>
  An \<open>Async\<close> owns its socket, so the operating system keeps the descriptors of live sources
  apart. No step but a failed arming is left out.
\<close>

definition distinct_raws :: "(nat \<Rightarrow> 'w source option) \<Rightarrow> bool" where
  "distinct_raws S \<longleftrightarrow> (\<forall>k so j so'. S k = Some so \<longrightarrow> S j = Some so' \<longrightarrow> so_raw so = so_raw so' \<longrightarrow> k = j)"

inductive owned_reach :: "('s, 'w source) slab_api \<Rightarrow> ('q, 'e) poller_api \<Rightarrow> ('s, 'q, 'e) reactor \<Rightarrow> bool"
  for A Q where
  init: "reactor_new A Inr (q :: 'q) = Inr x \<Longrightarrow> owned_reach A Q x"
| step: "owned_reach A Q x \<Longrightarrow> reactor_step A Q x out x' \<Longrightarrow> distinct_raws (slab_get A (rx_sources x')) \<Longrightarrow>
     owned_reach A Q x'"

section \<open>The invariant\<close>

text \<open>
  A direction in which a waker waits is armed under the key of its source, unless an event for
  that key is still to be handled (the keys \<open>D\<close>).
\<close>

definition waiting_inv ::
    "usize set \<Rightarrow> (nat \<Rightarrow> 'w source option) \<Rightarrow> (raw_fd \<Rightarrow> direction \<Rightarrow> usize option) \<Rightarrow> bool" where
  "waiting_inv D S R \<longleftrightarrow> distinct_raws S \<and>
     (\<forall>k so d. S k = Some so \<longrightarrow> has_poller (source_interest d so) \<longrightarrow> of_nat k \<notin> D \<longrightarrow>
        R (so_raw so) d = Some (of_nat k)) \<and>
     (\<forall>k so. S k = Some so \<longrightarrow> k < 2 ^ 64)"

lemma waiting_invD:
  assumes "waiting_inv D S R" and "S k = Some so"
  shows "k < 2 ^ 64" and "S j = Some so' \<Longrightarrow> so_raw so = so_raw so' \<Longrightarrow> k = j"
    and "has_poller (source_interest d so) \<Longrightarrow> of_nat k \<notin> D \<Longrightarrow> R (so_raw so) d = Some (of_nat k)"
  using assms unfolding waiting_inv_def distinct_raws_def by blast+

lemma waiting_invI:
  assumes "distinct_raws S" and "\<And>k so. S k = Some so \<Longrightarrow> k < 2 ^ 64"
    and "\<And>k so d. S k = Some so \<Longrightarrow> has_poller (source_interest d so) \<Longrightarrow> R (so_raw so) d = Some (of_nat k)"
  shows "waiting_inv {} S R"
  using assms unfolding waiting_inv_def by blast

text \<open>One source changes, and perhaps its directions are armed anew; the others are as before.\<close>

lemma waiting_inv_source:
  assumes inv: "waiting_inv D S R" and k: "S k = Some so" and raw: "so_raw so' = so_raw so"
    and other: "\<And>fd. fd \<noteq> so_raw so \<Longrightarrow> R' fd = R fd"
    and armed: "\<And>d. has_poller (source_interest d so') \<Longrightarrow> of_nat k \<notin> D' \<Longrightarrow> R' (so_raw so) d = Some (of_nat k)"
    and D: "D \<subseteq> insert (of_nat k) D'"
  shows "waiting_inv D' (S(k \<mapsto> so')) R'"
  unfolding waiting_inv_def
proof (intro conjI allI impI)
  show "distinct_raws (S(k \<mapsto> so'))"
    unfolding distinct_raws_def using waiting_invD(2) [OF inv] k raw by (auto split: if_splits)
next
  fix j s assume "(S(k \<mapsto> so')) j = Some s"
  then show "j < 2 ^ 64" using waiting_invD(1) [OF inv] k by (auto split: if_splits)
next
  fix j s d
  assume j: "(S(k \<mapsto> so')) j = Some s" and h: "has_poller (source_interest d s)" and D': "of_nat j \<notin> D'"
  show "R' (so_raw s) d = Some (of_nat j)"
  proof (cases "j = k")
    case True
    with j h D' armed raw show ?thesis by simp
  next
    case False
    with j have s: "S j = Some s" by simp
    then have "so_raw s \<noteq> so_raw so" using waiting_invD(2) [OF inv s k] False by blast
    moreover have "(of_nat j :: usize) \<noteq> of_nat k"
      using False of_nat_key_eq waiting_invD(1) [OF inv] s k by blast
    ultimately show ?thesis using other waiting_invD(3) [OF inv s h] D D' by auto
  qed
qed

lemma waiting_inv_disarm:
  assumes inv: "waiting_inv {} S R"
    and keep: "\<And>fd d k. R fd d = Some k \<Longrightarrow> R' fd d = Some k \<or> k \<in> D"
  shows "waiting_inv D S R'"
  using inv keep unfolding waiting_inv_def by fastforce

lemma waiting_inv_drop:
  assumes inv: "waiting_inv (insert e D) S R" and "S (unat e) = None"
  shows "waiting_inv D S R"
proof -
  have "of_nat k \<noteq> e" if "S k = Some so" for k so
    using that assms(2) waiting_invD(1) [OF inv that] of_nat_key by fastforce
  then show ?thesis using inv unfolding waiting_inv_def by blast
qed

lemma take_ready_keeps:
  "take_ready e so ws = (so', ws') \<Longrightarrow> has_poller (source_interest d so') \<Longrightarrow> has_poller (source_interest d so)"
  by (cases d) (auto simp: take_ready_def interest_take_def has_poller_def Let_def split: if_splits)

locale waiting_env = source_slab A + direction_poller Q arm
  for A :: "('s, 'w source) slab_api" and Q :: "('q, 'e) poller_api" and arm :: "'q \<Rightarrow> raw_fd \<Rightarrow> direction \<Rightarrow> usize option"
begin

lemma update_interest_arms:
  assumes "update_interest Q k so q = (Inr u, q')"
  shows "has_poller (source_interest d so) \<Longrightarrow> arm q' (so_raw so) d = Some (of_nat k)"
    and "fd \<noteq> so_raw so \<Longrightarrow> arm q' fd = arm q fd"
  using update_arms [OF assms [unfolded update_interest_def], of d] update_other [OF assms [unfolded update_interest_def], of fd]
  by (cases d; simp add: dir_ready_def)+

lemma handle_events_waiting:
  "handle_events A Q es ws ss q = (Inr u, ws', ss', q') \<Longrightarrow>
     waiting_inv (ev_key ` set es) (slab_get A ss) (arm q) \<Longrightarrow> waiting_inv {} (slab_get A ss') (arm q')"
proof (induction es arbitrary: ws ss q)
  case (Cons e es)
  let ?k = "unat (ev_key e)"
  have key: "(of_nat ?k :: usize) = ev_key e" by simp
  show ?case
  proof (cases "slab_get A ss ?k")
    case None
    have "waiting_inv (insert (ev_key e) (ev_key ` set es)) (slab_get A ss) (arm q)" using Cons.prems(2) by simp
    from waiting_inv_drop [OF this None]
    have "waiting_inv (ev_key ` set es) (slab_get A ss) (arm q)" .
    with Cons None show ?thesis by simp
  next
    case (Some so)
    obtain so1 ws1 where t: "take_ready e so ws = (so1, ws1)" by (cases "take_ready e so ws")
    note raw = take_ready_raw [OF t]
    have S: "slab_get A (slab_set A ss ?k so1) = (slab_get A ss)(?k \<mapsto> so1)" using Some by (simp add: get_set)
    note source = waiting_inv_source [OF Cons.prems(2) Some raw, of _ "ev_key ` set es", unfolded key]
    show ?thesis
    proof (cases "has_poller (so_reader so1) \<or> has_poller (so_writer so1)")
      case True
      obtain r1 q1 where u: "update_interest Q ?k so1 q = (r1, q1)" by (cases "update_interest Q ?k so1 q")
      with Cons.prems(1) Some t True have r1: "r1 = Inr ()"
        and rest: "handle_events A Q es ws1 (slab_set A ss ?k so1) q1 = (Inr u, ws', ss', q')"
        by (cases r1; simp add: Let_def)+
      note a = update_interest_arms [OF u [unfolded r1], unfolded raw key]
      have "waiting_inv (ev_key ` set es) (slab_get A (slab_set A ss ?k so1)) (arm q1)"
        unfolding S by (rule source) (use a in auto)
      with Cons.IH [OF rest] show ?thesis by simp
    next
      case False
      then have rest: "handle_events A Q es ws1 (slab_set A ss ?k so1) q = (Inr u, ws', ss', q')"
        using Cons.prems(1) Some t by (simp add: Let_def)
      have "\<not> has_poller (source_interest d so1)" for d using False by (cases d) auto
      then have "waiting_inv (ev_key ` set es) (slab_get A (slab_set A ss ?k so1)) (arm q)"
        unfolding S by (intro source) auto
      with Cons.IH [OF rest] show ?thesis by simp
    qed
  qed
qed simp

lemma waiting_new: "reactor_new A poller_new k = Inr x \<Longrightarrow> waiting_inv {} (slab_get A (rx_sources x)) (arm (rx_poller x))"
  by (auto simp: reactor_new_def waiting_inv_def distinct_raws_def get_new split: sum.splits)

lemma waiting_insert:
  assumes inv: "waiting_inv {} (slab_get A (rx_sources x)) (arm (rx_poller x))"
    and key: "slab_vacant_key A (rx_sources x) < 2 ^ 64"
    and i: "insert_source A Q raw x = (r, x')" and own: "distinct_raws (slab_get A (rx_sources x'))"
  shows "waiting_inv {} (slab_get A (rx_sources x')) (arm (rx_poller x'))"
proof -
  let ?k = "slab_vacant_key A (rx_sources x)" and ?S = "slab_get A (rx_sources x)"
  let ?so = "\<lparr>so_raw = raw, so_reader = interest_default, so_writer = interest_default\<rparr> :: 'w source"
  obtain r1 q1 where p: "p_add Q raw \<lparr>ev_key = of_nat ?k, ev_readable = False, ev_writable = False\<rparr> (rx_poller x) = (r1, q1)"
    by fastforce
  show ?thesis
  proof (cases r1)
    case (Inl e)
    from i p Inl inv add_fails [OF p [unfolded Inl]] show ?thesis by (auto simp: insert_source_def)
  next
    case (Inr u)
    from i p Inr have q: "rx_poller x' = q1" and S: "slab_get A (rx_sources x') = ?S(?k \<mapsto> ?so)"
      by (auto simp: insert_source_def get_insert)
    have free: "?S ?k = None" by (rule vacant_key)
    show ?thesis unfolding S q
    proof (rule waiting_invI)
      show "distinct_raws (?S(?k \<mapsto> ?so))" using own S by simp
    next
      fix j s assume "(?S(?k \<mapsto> ?so)) j = Some s"
      then show "j < 2 ^ 64" using key waiting_invD(1) [OF inv] by (auto split: if_splits)
    next
      fix j s d assume j: "(?S(?k \<mapsto> ?so)) j = Some s" and h: "has_poller (source_interest d s)"
      have "j \<noteq> ?k" using j h by (cases d) (auto simp: has_poller_def interest_default_def)
      with j have s: "?S j = Some s" by simp
      have "so_raw s \<noteq> raw"
        using own j \<open>j \<noteq> ?k\<close> unfolding S distinct_raws_def by (metis fun_upd_same source.select_convs(1))
      then show "arm q1 (so_raw s) d = Some (of_nat j)"
        using add_other [OF p] waiting_invD(3) [OF inv s h] by simp
    qed
  qed
qed

lemma waiting_remove:
  assumes inv: "waiting_inv {} (slab_get A (rx_sources x)) (arm (rx_poller x))"
    and rm: "remove_source A Q key x = Ret (r, x')"
  shows "waiting_inv {} (slab_get A (rx_sources x')) (arm (rx_poller x'))"
proof -
  let ?S = "slab_get A (rx_sources x)"
  obtain so ss where s: "slab_remove A (rx_sources x) key = Some (so, ss)"
    using rm by (auto simp: remove_source_def bindM_Ret_conv)
  obtain r1 q1 where p: "p_delete Q (so_raw so) (rx_poller x) = (r1, q1)" by fastforce
  from s p rm have x': "rx_sources x' = ss" "rx_poller x' = q1" by (auto simp: remove_source_def)
  note so = remove_Some [OF s]
  show ?thesis unfolding x' conjunct2 [OF so]
  proof (rule waiting_invI)
    show "distinct_raws (?S(key := None))"
      using inv unfolding waiting_inv_def distinct_raws_def by (auto split: if_splits)
  next
    fix j s assume "(?S(key := None)) j = Some s"
    then show "j < 2 ^ 64" using waiting_invD(1) [OF inv] by (auto split: if_splits)
  next
    fix j s d assume j: "(?S(key := None)) j = Some s" and h: "has_poller (source_interest d s)"
    then have "j \<noteq> key" and s: "?S j = Some s" by (auto split: if_splits)
    then have "so_raw s \<noteq> so_raw so" using waiting_invD(2) [OF inv s] so by blast
    then show "arm q1 (so_raw s) d = Some (of_nat j)"
      using delete_other [OF p] waiting_invD(3) [OF inv s h] by simp
  qed
qed

lemma waiting_poll:
  assumes inv: "waiting_inv {} (slab_get A (rx_sources x)) (arm (rx_poller x))"
    and p: "poll_ready A Q key d cx x = Ret (r, x', out)" and ok: "\<And>e. r \<noteq> Ready (Inl e)"
  shows "waiting_inv {} (slab_get A (rx_sources x')) (arm (rx_poller x'))"
proof -
  obtain so where so: "slab_get A (rx_sources x) key = Some so"
    using p by (auto simp: poll_ready_def bindM_Ret_conv)
  let ?i = "source_interest d so" and ?S = "slab_get A (rx_sources x)"
  have set: "slab_get A (slab_set A (rx_sources x) key s) = ?S(key \<mapsto> s)" for s
    using so by (simp add: get_set)
  have same: "waiting_inv {} (?S(key \<mapsto> s)) (arm (rx_poller x))"
    if "so_raw s = so_raw so" "\<And>d. has_poller (source_interest d s) \<Longrightarrow> has_poller (source_interest d so)" for s
    using waiting_inv_source [OF inv so that(1), of _ "{}"] waiting_invD(3) [OF inv so] that(2) by simp
  show ?thesis
  proof (cases "in_woke ?i")
    case True
    with p so have "x' = x\<lparr>rx_sources := slab_set A (rx_sources x) key (set_interest d (?i\<lparr>in_woke := False\<rparr>) so)\<rparr>"
      by (simp add: poll_ready_def Let_def)
    moreover have "waiting_inv {} (?S(key \<mapsto> set_interest d (?i\<lparr>in_woke := False\<rparr>) so)) (arm (rx_poller x))"
    proof (rule same)
      show "so_raw (set_interest d (?i\<lparr>in_woke := False\<rparr>) so) = so_raw so" by (cases d) simp_all
      show "has_poller (source_interest d' (set_interest d (?i\<lparr>in_woke := False\<rparr>) so)) \<Longrightarrow>
          has_poller (source_interest d' so)" for d'
        by (cases d; cases d') (simp_all add: has_poller_def)
    qed
    ultimately show ?thesis by (simp add: set)
  next
    case False
    let ?so = "set_interest d (?i\<lparr>in_poller := Some cx\<rparr>) so"
    have raw: "so_raw ?so = so_raw so" by (cases d) simp_all
    show ?thesis
    proof (cases "in_poller ?i")
      case (Some w)
      with p so False have "x' = x\<lparr>rx_sources := slab_set A (rx_sources x) key ?so\<rparr>"
        by (simp add: poll_ready_def Let_def)
      moreover have "waiting_inv {} (?S(key \<mapsto> ?so)) (arm (rx_poller x))"
      proof (rule same [OF raw])
        show "has_poller (source_interest d' ?so) \<Longrightarrow> has_poller (source_interest d' so)" for d'
          using Some by (cases d; cases d') (simp_all add: has_poller_def)
      qed
      ultimately show ?thesis by (simp add: set)
    next
      case None
      obtain r1 q1 where u: "update_interest Q key ?so (rx_poller x) = (r1, q1)"
        by (cases "update_interest Q key ?so (rx_poller x)")
      with p so False None ok have r1: "r1 = Inr ()"
        and x': "x' = x\<lparr>rx_sources := slab_set A (rx_sources x) key ?so, rx_poller := q1\<rparr>"
        by (auto simp: poll_ready_def Let_def split: sum.splits)
      note a = update_interest_arms [OF u [unfolded r1], unfolded raw]
      have "waiting_inv {} (?S(key \<mapsto> ?so)) (arm q1)"
        by (rule waiting_inv_source [OF inv so raw]) (use a in auto)
      with x' show ?thesis by (simp add: set)
    qed
  qed
qed

lemma waiting_park:
  assumes inv: "waiting_inv {} (slab_get A (rx_sources x)) (arm (rx_poller x))"
    and p: "reactor_poll A Q t x ws = (Inr u, ws', x')"
  shows "waiting_inv {} (slab_get A (rx_sources x')) (arm (rx_poller x'))"
proof -
  obtain r1 q1 where q: "p_poll Q initial_events t (rx_poller x) = (r1, q1)"
    by (cases "p_poll Q initial_events t (rx_poller x)")
  show ?thesis
  proof (cases r1)
    case (Inl e)
    with q p inv poll_fails [OF q [unfolded Inl]] show ?thesis
      by (auto simp: reactor_poll_def Let_def split: if_splits)
  next
    case (Inr es)
    obtain ss q2 where h: "handle_events A Q (map (p_event Q) es) ws (rx_sources x) q1 = (Inr u, ws', ss, q2)"
      and x': "x' = x\<lparr>rx_events := es, rx_sources := ss, rx_poller := q2\<rparr>"
      using p q Inr by (auto simp: reactor_poll_def split: prod.splits)
    have "waiting_inv (ev_key ` set (map (p_event Q) es)) (slab_get A (rx_sources x)) (arm q1)"
      by (rule waiting_inv_disarm [OF inv]) (use poll_keeps [OF q [unfolded Inr]] in \<open>simp add: image_image\<close>)
    from handle_events_waiting [OF h this] x' show ?thesis by simp
  qed
qed

lemma owned_reach_waiting:
  "owned_reach A Q x \<Longrightarrow> waiting_inv {} (slab_get A (rx_sources x)) (arm (rx_poller x))"
proof (induction rule: owned_reach.induct)
  case (step x out x')
  from step(2,1,3,4) show ?case
    by (induction rule: reactor_step.induct) (blast intro: waiting_insert waiting_remove waiting_poll waiting_park)+
qed (rule waiting_new)

end

section \<open>Nothing that is ready is missed\<close>

text \<open>
  A poller also reports what is ready: \<open>ready q fd d\<close> says that direction \<open>d\<close> of \<open>fd\<close> is. A poll
  that filled the whole array of events may have left some for the next one.
\<close>

locale reporting_poller = direction_poller Q arm
  for Q :: "('q, 'e) poller_api" and arm :: "'q \<Rightarrow> raw_fd \<Rightarrow> direction \<Rightarrow> usize option" +
  fixes ready :: "'q \<Rightarrow> raw_fd \<Rightarrow> direction \<Rightarrow> bool"
  assumes reports: "p_poll Q n t q = (Inr es, q') \<Longrightarrow> length es < n \<Longrightarrow> arm q fd d = Some k \<Longrightarrow> ready q fd d \<Longrightarrow>
          \<exists>e \<in> set es. ev_key (p_event Q e) = k \<and> dir_ready d (p_event Q e)"

locale reporting_env = waiting_env A Q arm + reporting_poller Q arm ready
  for A :: "('s, 'w source) slab_api" and Q :: "('q, 'e) poller_api"
    and arm :: "'q \<Rightarrow> raw_fd \<Rightarrow> direction \<Rightarrow> usize option" and ready :: "'q \<Rightarrow> raw_fd \<Rightarrow> direction \<Rightarrow> bool"
begin

lemma ready_wakes_inv:
  assumes inv: "waiting_inv {} (slab_get A (rx_sources x)) (arm (rx_poller x))" and so: "slab_get A (rx_sources x) k = Some so"
    and w: "in_poller (source_interest d so) = Some w" and r: "ready (rx_poller x) (so_raw so) d"
    and p: "p_poll Q initial_events t (rx_poller x) = (Inr es, q)" and room: "length es < initial_events"
    and park: "reactor_poll A Q t x ws = (Inr u, ws', x')"
  shows "w \<in> set ws' \<and> (\<exists>x''. poll_ready A Q k d cx x' = Ret (Ready (Inr ()), x'', []))"
proof -
  have "arm (rx_poller x) (so_raw so) d = Some (of_nat k)"
    using waiting_invD(3) [OF inv so, of d] w by (simp add: has_poller_def)
  then obtain e where e: "e \<in> set es" "ev_key (p_event Q e) = of_nat k" "dir_ready d (p_event Q e)"
    using reports [OF p room _ r] by blast
  have k: "unat (ev_key (p_event Q e)) = k" using e(2) of_nat_key waiting_invD(1) [OF inv so] by simp
  show ?thesis using poll_delivers [OF p park e(1,3), unfolded k, OF so w] .
qed

lemmas ready_wakes = ready_wakes_inv [OF owned_reach_waiting]

end

end
