(* ===== verification/Epoll.thy ===== *)
theory Epoll
  imports Reactor_Waiting
begin

unbundle bit_operations_syntax

text \<open>
  The epoll back end of \<open>Sys\<close>: what it relies on in the constants of \<open>libc\<close> (the locale
  \<open>epoll_flags\<close>, interpreted on the values of Linux), and a simulated kernel on which the
  back end fulfils the contract \<open>oneshot_poller\<close> of the reactor.
\<close>

section \<open>Flags\<close>

locale epoll_flags =
  fixes C :: epoll_consts
  assumes nonzero: "EPOLLIN C \<noteq> 0" "EPOLLOUT C \<noteq> 0"
    and disjoint_in: "EPOLLIN C AND EPOLLOUT C = 0" "EPOLLIN C AND EPOLLONESHOT C = 0"
    and disjoint_pri: "EPOLLPRI C AND EPOLLOUT C = 0" "EPOLLPRI C AND EPOLLONESHOT C = 0"
    and disjoint_out: "EPOLLOUT C AND EPOLLONESHOT C = 0" "EPOLLOUT C AND EPOLLRDHUP C = 0"
begin

lemmas disjoint = disjoint_in disjoint_pri disjoint_out

lemma and_swap: "x AND y = 0 \<Longrightarrow> y AND x = (0 :: 32 word)"
  by (simp add: and.commute)

lemma distrib: "(x OR y) AND z = (x AND z) OR (y AND (z :: 32 word))"
  "x AND (y OR z) = (x AND y) OR (x AND (z :: 32 word))"
  by (simp_all add: bit_eq_iff bit_simps) blast+

lemma or_zero: "x OR y = 0 \<longleftrightarrow> x = 0 \<and> y = (0 :: 32 word)"
  by (auto simp: bit_eq_iff bit_simps)

lemma decode_encode: "epoll_decode C (epoll_encode C e) = e"
  using nonzero disjoint disjoint [THEN and_swap]
  by (auto simp: epoll_decode_def epoll_encode_def Let_def distrib or_zero)

lemma decode_disarmed: "epoll_decode C (ee\<lparr>ee_events := EPOLLONESHOT C\<rparr>) =
    \<lparr>ev_key = ee_u64 ee, ev_readable = False, ev_writable = False\<rparr>"
  using disjoint [THEN and_swap] by (simp add: epoll_decode_def distrib)

end

text \<open>The values on Linux.\<close>

definition linux_consts :: epoll_consts where
  "linux_consts = \<lparr>EPOLLIN = 0x001, EPOLLPRI = 0x002, EPOLLOUT = 0x004, EPOLLRDHUP = 0x2000, EPOLLONESHOT = 0x40000000\<rparr>"

interpretation linux_flags: epoll_flags linux_consts
  by unfold_locales (simp_all add: linux_consts_def)

section \<open>A simulated kernel\<close>

text \<open>
  The registrations of one epoll instance, and which conditions hold on which descriptor. A
  registration is reported while one of its conditions holds, and then disarmed.
\<close>

record sim_kernel =
  sk_regs :: "(raw_fd \<times> epoll_event) list"
  sk_ready :: "(raw_fd \<times> 32 word) list"

definition sim_ready :: "sim_kernel \<Rightarrow> raw_fd \<Rightarrow> 32 word" where
  "sim_ready k fd = (case map_of (sk_ready k) fd of Some c \<Rightarrow> c | None \<Rightarrow> 0)"

definition sim_ctl :: "epoll_op \<Rightarrow> raw_fd \<Rightarrow> epoll_event option \<Rightarrow> sim_kernel \<Rightarrow> int \<times> sim_kernel" where
  "sim_ctl op fd ev k =
     (case (op, map_of (sk_regs k) fd, ev) of
        (EPOLL_CTL_ADD, None, Some e) \<Rightarrow> (0, k\<lparr>sk_regs := AList.update fd e (sk_regs k)\<rparr>)
      | (EPOLL_CTL_MOD, Some _, Some e) \<Rightarrow> (0, k\<lparr>sk_regs := AList.update fd e (sk_regs k)\<rparr>)
      | (EPOLL_CTL_DEL, Some _, _) \<Rightarrow> (0, k\<lparr>sk_regs := AList.delete fd (sk_regs k)\<rparr>)
      | _ \<Rightarrow> (- 1, k))"

definition sim_active :: "sim_kernel \<Rightarrow> raw_fd \<Rightarrow> bool" where
  "sim_active k fd = (case map_of (sk_regs k) fd of Some e \<Rightarrow> ee_events e AND sim_ready k fd \<noteq> 0 | None \<Rightarrow> False)"

definition sim_wait :: "epoll_consts \<Rightarrow> nat \<Rightarrow> sim_kernel \<Rightarrow> (int \<times> sim_kernel) \<times> epoll_event list" where
  "sim_wait C capacity k =
     (let fds = take capacity (filter (sim_active k) (remdups (map fst (sk_regs k)))) in
      ((int (length fds),
        k\<lparr>sk_regs := map (\<lambda>(fd, e). (fd, if fd \<in> set fds then e\<lparr>ee_events := EPOLLONESHOT C\<rparr> else e)) (sk_regs k)\<rparr>),
       map (\<lambda>fd. (the (map_of (sk_regs k) fd))\<lparr>ee_events :=
             ee_events (the (map_of (sk_regs k) fd)) AND sim_ready k fd\<rparr>) fds))"

definition sim_linux :: "epoll_consts \<Rightarrow> sim_kernel linux" where
  "sim_linux C = \<lparr>epoll_create1 = (\<lambda>k. (3, k)), epoll_ctl = (\<lambda>_. sim_ctl), epoll_wait = (\<lambda>_ capacity _. sim_wait C capacity),
     close_fd = (\<lambda>_ k. (0, k)), os_error = (\<lambda>_. \<lparr>err_kind = OtherKind, err_os = Some 2\<rparr>)\<rparr>"

definition sim_regs :: "epoll_consts \<Rightarrow> sim_kernel \<Rightarrow> raw_fd \<Rightarrow> event option" where
  "sim_regs C k = (\<lambda>fd. map_option (epoll_decode C) (map_of (sk_regs k) fd))"

text \<open>A condition that a registration asks for, and that holds, is reported.\<close>

definition sim_holds :: "epoll_consts \<Rightarrow> sim_kernel \<Rightarrow> raw_fd \<Rightarrow> direction \<Rightarrow> bool" where
  "sim_holds C k fd d = (case map_of (sk_regs k) fd of
      Some e \<Rightarrow> ee_events e AND sim_ready k fd AND
        (case d of Read \<Rightarrow> EPOLLIN C OR EPOLLPRI C | Write \<Rightarrow> EPOLLOUT C) \<noteq> 0
    | None \<Rightarrow> False)"

lemma map_of_map_key: "map_of (map (\<lambda>(fd, e). (fd, g fd e)) xs) fd = map_option (g fd) (map_of xs fd)"
  by (induction xs) auto

lemma sim_ctl_result:
  "sim_ctl EPOLL_CTL_ADD fd (Some e) k =
     (if map_of (sk_regs k) fd = None then (0, k\<lparr>sk_regs := AList.update fd e (sk_regs k)\<rparr>) else (- 1, k))"
  "sim_ctl EPOLL_CTL_MOD fd (Some e) k =
     (if map_of (sk_regs k) fd = None then (- 1, k) else (0, k\<lparr>sk_regs := AList.update fd e (sk_regs k)\<rparr>))"
  "sim_ctl EPOLL_CTL_DEL fd ev k =
     (if map_of (sk_regs k) fd = None then (- 1, k) else (0, k\<lparr>sk_regs := AList.delete fd (sk_regs k)\<rparr>))"
  by (auto simp: sim_ctl_def split: option.splits)

context epoll_flags
begin

lemma sim_update_regs: "sim_regs C (k\<lparr>sk_regs := AList.update fd (epoll_encode C ev) (sk_regs k)\<rparr>) =
    (sim_regs C k)(fd \<mapsto> ev)"
  by (auto simp: sim_regs_def AList.update_conv' decode_encode)

lemma sim_wait_regs:
  assumes w: "sim_wait C n k = ((c, k'), es)" and u: "keys_unique (sim_regs C k)"
  shows "c = int (length es)" and "distinct (map ee_u64 es)"
    and "sim_regs C k' = disarm (ee_u64 ` set es) (sim_regs C k)"
proof -
  define fds where "fds = take n (filter (sim_active k) (remdups (map fst (sk_regs k))))"
  let ?e = "\<lambda>fd. (the (map_of (sk_regs k) fd))\<lparr>ee_events := ee_events (the (map_of (sk_regs k) fd)) AND sim_ready k fd\<rparr>"
  have es: "es = map ?e fds" and c: "c = int (length fds)"
    and k': "sk_regs k' = map (\<lambda>(fd, e). (fd, if fd \<in> set fds then e\<lparr>ee_events := EPOLLONESHOT C\<rparr> else e)) (sk_regs k)"
    using w by (auto simp: sim_wait_def Let_def fds_def)
  show "c = int (length es)" using es c by simp
  have reg: "\<exists>e. map_of (sk_regs k) fd = Some e" if "fd \<in> set fds" for fd
  proof -
    have "sim_active k fd" using that by (auto simp: fds_def dest!: in_set_takeD)
    then show ?thesis by (auto simp: sim_active_def split: option.splits)
  qed
  have key: "ee_u64 e = ee_u64 e' \<Longrightarrow> fd = fd'"
    if "map_of (sk_regs k) fd = Some e" "map_of (sk_regs k) fd' = Some e'" for fd fd' e e'
    using u [unfolded keys_unique_def, rule_format, of fd "epoll_decode C e" fd' "epoll_decode C e'"] that
    by (simp add: sim_regs_def epoll_decode_def)
  have "distinct fds" by (simp add: fds_def distinct_take)
  moreover have "inj_on (\<lambda>fd. ee_u64 (?e fd)) (set fds)"
  proof (rule inj_onI)
    fix a b
    assume a: "a \<in> set fds" and b: "b \<in> set fds" and ab: "ee_u64 (?e a) = ee_u64 (?e b)"
    obtain e where e: "map_of (sk_regs k) a = Some e" using reg [OF a] by blast
    obtain e' where e': "map_of (sk_regs k) b = Some e'" using reg [OF b] by blast
    have "ee_u64 e = ee_u64 e'" using ab unfolding e e' by simp
    then show "a = b" by (rule key [OF e e'])
  qed
  ultimately show "distinct (map ee_u64 es)" by (simp add: es distinct_map comp_def)
  have mem: "fd \<in> set fds \<longleftrightarrow> ee_u64 e \<in> ee_u64 ` set es" if e: "map_of (sk_regs k) fd = Some e" for fd e
  proof
    assume "fd \<in> set fds"
    then have "?e fd \<in> set es" by (auto simp: es)
    moreover have "ee_u64 (?e fd) = ee_u64 e" using e by simp
    ultimately show "ee_u64 e \<in> ee_u64 ` set es" by (metis imageI)
  next
    assume "ee_u64 e \<in> ee_u64 ` set es"
    then obtain fd' where f: "fd' \<in> set fds" "ee_u64 e = ee_u64 (?e fd')" by (auto simp: es)
    obtain e' where "map_of (sk_regs k) fd' = Some e'" using reg [OF f(1)] by blast
    with f(2) have "ee_u64 e = ee_u64 e'" by simp
    then have "fd = fd'" by (rule key [OF e \<open>map_of (sk_regs k) fd' = Some e'\<close>])
    with f(1) show "fd \<in> set fds" by simp
  qed
  show "sim_regs C k' = disarm (ee_u64 ` set es) (sim_regs C k)"
  proof
    fix fd
    show "sim_regs C k' fd = disarm (ee_u64 ` set es) (sim_regs C k) fd"
    proof (cases "map_of (sk_regs k) fd")
      case None
      then show ?thesis by (simp add: sim_regs_def disarm_def k' map_of_map_key)
    next
      case (Some e)
      with mem [OF Some] show ?thesis
        by (simp add: sim_regs_def disarm_def k' map_of_map_key decode_disarmed)
          (simp add: epoll_decode_def)
    qed
  qed
qed

lemma sim_oneshot: "oneshot_poller (epoll_poller (sim_linux C) C self_fd) (sim_regs C)"
proof
  fix n t q es q'
  assume p: "p_poll (epoll_poller (sim_linux C) C self_fd) n t q = (Inr es, q')" and u: "keys_unique (sim_regs C q)"
  obtain c k' es' where w: "sim_wait C n q = ((c, k'), es')" by (metis prod.exhaust)
  note S = sim_wait_regs [OF w u]
  have "es = es'" "q' = k'"
    using p w S(1) by (auto simp: epoll_poller_def epoll_poll_def sim_linux_def syscall_def map_ok_def)
  with S show "distinct (map (\<lambda>e. ev_key (p_event (epoll_poller (sim_linux C) C self_fd) e)) es) \<and>
      sim_regs C q' = disarm ((\<lambda>e. ev_key (p_event (epoll_poller (sim_linux C) C self_fd) e)) ` set es) (sim_regs C q)"
    by (simp add: epoll_poller_def epoll_decode_def)
next
  fix n t q err q'
  assume p: "p_poll (epoll_poller (sim_linux C) C self_fd) n t q = (Inl err, q')"
  then show "sim_regs C q' = sim_regs C q"
    by (auto simp: epoll_poller_def epoll_poll_def sim_linux_def sim_wait_def syscall_def map_ok_def Let_def)
next
  fix fd q r q'
  assume "p_delete (epoll_poller (sim_linux C) C self_fd) fd q = (r, q')"
  then show "sim_regs C q' = (sim_regs C q)(fd := None)"
    by (auto simp: epoll_poller_def epoll_delete_def sim_linux_def sim_ctl_result syscall_def map_ok_def
        sim_regs_def AList.delete_conv' split: if_splits)
next
  fix fd ev q u q'
  assume "p_add (epoll_poller (sim_linux C) C self_fd) fd ev q = (Inr u, q')"
  then show "sim_regs C q fd = None \<and> sim_regs C q' = (sim_regs C q)(fd \<mapsto> ev)"
    by (auto simp: epoll_poller_def epoll_add_def sim_linux_def sim_ctl_result syscall_def map_ok_def
        sim_update_regs sim_regs_def [of _ q] split: if_splits)
next
  fix fd ev q u q'
  assume "p_update (epoll_poller (sim_linux C) C self_fd) fd ev q = (Inr u, q')"
  then show "sim_regs C q' = (sim_regs C q)(fd \<mapsto> ev)"
    by (auto simp: epoll_poller_def epoll_update_def sim_linux_def sim_ctl_result syscall_def map_ok_def
        sim_update_regs split: if_splits)
qed (auto simp: epoll_poller_def epoll_add_def epoll_update_def sim_linux_def sim_ctl_result syscall_def
      map_ok_def split: if_splits)

text \<open>A poll changes no registration whose key it does not report.\<close>

lemma sim_poll_keeps:
  assumes p: "p_poll (epoll_poller (sim_linux C) C self_fd) n t q = (Inr es, q')"
    and r: "sim_regs C q fd = Some ev"
  shows "sim_regs C q' fd = Some ev \<or>
    ev_key ev \<in> (\<lambda>e. ev_key (p_event (epoll_poller (sim_linux C) C self_fd) e)) ` set es"
proof -
  define fds where "fds = take n (filter (sim_active q) (remdups (map fst (sk_regs q))))"
  let ?e = "\<lambda>fd. (the (map_of (sk_regs q) fd))\<lparr>ee_events := ee_events (the (map_of (sk_regs q) fd)) AND sim_ready q fd\<rparr>"
  have es: "es = map ?e fds"
    and q': "sk_regs q' = map (\<lambda>(fd, e). (fd, if fd \<in> set fds then e\<lparr>ee_events := EPOLLONESHOT C\<rparr> else e)) (sk_regs q)"
    using p by (auto simp: epoll_poller_def epoll_poll_def sim_linux_def syscall_def map_ok_def sim_wait_def Let_def fds_def)
  obtain e where e: "map_of (sk_regs q) fd = Some e" and ev: "ev = epoll_decode C e"
    using r by (auto simp: sim_regs_def)
  show ?thesis
  proof (cases "fd \<in> set fds")
    case True
    then have "?e fd \<in> set es" by (simp add: es)
    moreover have "ev_key (p_event (epoll_poller (sim_linux C) C self_fd) (?e fd)) = ev_key ev"
      using e ev by (simp add: epoll_poller_def epoll_decode_def)
    ultimately show ?thesis by (metis imageI)
  next
    case False
    with e ev show ?thesis by (simp add: sim_regs_def q' map_of_map_key)
  qed
qed

lemma sim_directions:
  "direction_poller (epoll_poller (sim_linux C) C self_fd) (armed_directions (sim_regs C))"
  by (rule oneshot_poller.armed_directions_poller [OF sim_oneshot sim_poll_keeps])

lemma sim_reporting:
  "reporting_poller (epoll_poller (sim_linux C) C self_fd) (armed_directions (sim_regs C)) (sim_holds C)"
proof (rule reporting_poller.intro [OF sim_directions], unfold_locales)
  fix n t q es q' fd d k
  assume p: "p_poll (epoll_poller (sim_linux C) C self_fd) n t q = (Inr es, q')" and room: "length es < n"
    and a: "armed_directions (sim_regs C) q fd d = Some k" and h: "sim_holds C q fd d"
  define fds where "fds = filter (sim_active q) (remdups (map fst (sk_regs q)))"
  let ?e = "\<lambda>fd. (the (map_of (sk_regs q) fd))\<lparr>ee_events := ee_events (the (map_of (sk_regs q) fd)) AND sim_ready q fd\<rparr>"
  have "es = map ?e (take n fds)"
    using p by (auto simp: epoll_poller_def epoll_poll_def sim_linux_def syscall_def map_ok_def sim_wait_def Let_def fds_def)
  with room have es: "es = map ?e fds" by simp
  obtain e where e: "map_of (sk_regs q) fd = Some e" and c: "ee_events e AND sim_ready q fd AND
      (case d of Read \<Rightarrow> EPOLLIN C OR EPOLLPRI C | Write \<Rightarrow> EPOLLOUT C) \<noteq> 0"
    using h by (auto simp: sim_holds_def split: option.splits)
  have "fd \<in> set (map fst (sk_regs q))" using map_of_SomeD [OF e] by force
  moreover have "sim_active q fd" using e c by (auto simp: sim_active_def and.assoc [symmetric])
  ultimately have "?e fd \<in> set es" by (simp add: es fds_def)
  moreover have "dir_ready d (epoll_decode C (?e fd))"
    using e c by (cases d) (simp_all add: dir_ready_def epoll_decode_def and.assoc)
  moreover have "ev_key (epoll_decode C (?e fd)) = k"
    using e a by (auto simp: armed_directions_def sim_regs_def epoll_decode_def split: if_splits)
  ultimately show "\<exists>e \<in> set es. ev_key (p_event (epoll_poller (sim_linux C) C self_fd) e) = k \<and>
      dir_ready d (p_event (epoll_poller (sim_linux C) C self_fd) e)"
    by (intro bexI [of _ "?e fd"] conjI) (simp_all add: epoll_poller_def)
qed

end

interpretation sim_reporting: reporting_env assoc_slab "epoll_poller (sim_linux linux_consts) linux_consts self_fd"
    "armed_directions (sim_regs linux_consts)" "sim_holds linux_consts" for self_fd
  by (intro reporting_env.intro waiting_env.intro sources.source_slab_axioms linux_flags.sim_directions
      linux_flags.sim_reporting)

interpretation sim: reactor_env assoc_slab "epoll_poller (sim_linux linux_consts) linux_consts self_fd" "sim_regs linux_consts"
  for self_fd
  by (intro reactor_env.intro sources.source_slab_axioms linux_flags.sim_oneshot)

end
