(* ===== verification/Kqueue.thy ===== *)
theory Kqueue
  imports Reactor_Waiting
begin

unbundle bit_operations_syntax

text \<open>
  The kqueue back end of \<open>Sys\<close>: what it relies on in the constants of \<open>libc\<close> (the locale
  \<open>kqueue_flags\<close>, interpreted on the values of FreeBSD), and a simulated kernel on which it
  fulfils the contract \<open>reporting_poller\<close>. A kqueue has one filter for each direction, which is
  armed and reported by itself, so that it does not fulfil \<open>oneshot_poller\<close>.
\<close>

section \<open>Flags\<close>

text \<open>9 is the error \<open>EBADF\<close> of a descriptor that is not open.\<close>

locale kqueue_flags =
  fixes C :: kqueue_consts
  assumes filters: "EVFILT_READ C \<noteq> EVFILT_WRITE C"
    and nonzero: "EV_ADD C \<noteq> 0" "EV_ERROR C \<noteq> 0"
    and disjoint: "EV_RECEIPT C AND EV_ADD C = 0" "EV_DELETE C AND EV_ADD C = 0"
    and errors: "ENOENT C \<noteq> 9" "EPIPE C \<noteq> 9"
begin

lemma kchange_adds: "ke_flags (kchange C fd interested filt key) AND EV_ADD C \<noteq> 0 \<longleftrightarrow> interested"
proof -
  have "(x OR (EV_ADD C OR y)) AND EV_ADD C = EV_ADD C" for x y :: "16 word"
    by (auto simp: bit_eq_iff bit_simps)
  moreover have "(EV_RECEIPT C OR EV_DELETE C) AND EV_ADD C = 0"
    using disjoint by (simp add: bit_eq_iff bit_simps) blast
  ultimately show ?thesis using nonzero by (simp add: kchange_def)
qed

end

text \<open>The values on FreeBSD.\<close>

definition bsd_consts :: kqueue_consts where
  "bsd_consts = \<lparr>EVFILT_READ = - 1, EVFILT_WRITE = - 2, EV_ADD = 0x0001, EV_DELETE = 0x0002, EV_EOF = 0x8000,
     EV_ERROR = 0x4000, EV_ONESHOT = 0x0010, EV_RECEIPT = 0x0040, ENOENT = 2, EPIPE = 32\<rparr>"

interpretation bsd_flags: kqueue_flags bsd_consts
  by unfold_locales (simp_all add: bsd_consts_def)

section \<open>A simulated kernel\<close>

text \<open>
  The one-shot filters of one queue with their data, the open descriptors, and what is ready,
  with the flags that are reported for it. Each change is answered by a receipt. A filter is
  removed when it is reported.
\<close>

record sim_bsd_kernel =
  bk_filters :: "((raw_fd \<times> int) \<times> usize) list"
  bk_open :: "raw_fd list"
  bk_ready :: "((raw_fd \<times> int) \<times> 16 word) list"

definition sim_change :: "kqueue_consts \<Rightarrow> kevent \<Rightarrow> sim_bsd_kernel \<Rightarrow> int \<times> sim_bsd_kernel" where
  "sim_change C ch k =
     (let f = (ke_ident ch, ke_filter ch) in
      if ke_ident ch \<notin> set (bk_open k) then (9, k)
      else if ke_flags ch AND EV_ADD C \<noteq> 0 then (0, k\<lparr>bk_filters := AList.update f (ke_udata ch) (bk_filters k)\<rparr>)
      else if map_of (bk_filters k) f = None then (ENOENT C, k)
      else (0, k\<lparr>bk_filters := AList.delete f (bk_filters k)\<rparr>))"

fun sim_changes :: "kqueue_consts \<Rightarrow> kevent list \<Rightarrow> sim_bsd_kernel \<Rightarrow> kevent list \<times> sim_bsd_kernel" where
  "sim_changes C [] k = ([], k)"
| "sim_changes C (ch # chs) k =
     (let (err, k) = sim_change C ch k; (receipts, k) = sim_changes C chs k
      in (ch\<lparr>ke_flags := EV_ERROR C, ke_data := err\<rparr> # receipts, k))"

definition sim_reported :: "nat \<Rightarrow> sim_bsd_kernel \<Rightarrow> (raw_fd \<times> int) list" where
  "sim_reported capacity k =
     take capacity (filter (\<lambda>f. map_of (bk_ready k) f \<noteq> None) (remdups (map fst (bk_filters k))))"

definition sim_report :: "sim_bsd_kernel \<Rightarrow> raw_fd \<times> int \<Rightarrow> kevent" where
  "sim_report k f = \<lparr>ke_ident = fst f, ke_filter = snd f, ke_flags = the (map_of (bk_ready k) f),
     ke_fflags = 0, ke_data = 0, ke_udata = the (map_of (bk_filters k) f)\<rparr>"

definition sim_kevent :: "kqueue_consts \<Rightarrow> kevent list \<Rightarrow> nat \<Rightarrow> sim_bsd_kernel \<Rightarrow> (int \<times> sim_bsd_kernel) \<times> kevent list" where
  "sim_kevent C changes capacity k =
     (if changes \<noteq> [] then
        (let (receipts, k) = sim_changes C changes k in ((int (length receipts), k), receipts))
      else
        (let fs = sim_reported capacity k in
         ((int (length fs), k\<lparr>bk_filters := filter (\<lambda>(f, _). f \<notin> set fs) (bk_filters k)\<rparr>), map (sim_report k) fs)))"

definition sim_bsd :: "kqueue_consts \<Rightarrow> sim_bsd_kernel bsd" where
  "sim_bsd C = \<lparr>kqueue_call = (\<lambda>k. (3, k)), fcntl_cloexec = (\<lambda>_ k. (0, k)),
     kevent_call = (\<lambda>_ changes capacity _. sim_kevent C changes capacity), bsd_close = (\<lambda>_ k. (0, k)),
     bsd_error = (\<lambda>_. \<lparr>err_kind = OtherKind, err_os = Some 9\<rparr>),
     from_raw_os_error = (\<lambda>e. \<lparr>err_kind = OtherKind, err_os = Some e\<rparr>)\<rparr>"

text \<open>The filter of a direction, what is armed and what is ready.\<close>

fun dir_filter :: "kqueue_consts \<Rightarrow> direction \<Rightarrow> int" where
  "dir_filter C Read = EVFILT_READ C"
| "dir_filter C Write = EVFILT_WRITE C"

definition filter_arm :: "kqueue_consts \<Rightarrow> sim_bsd_kernel \<Rightarrow> raw_fd \<Rightarrow> direction \<Rightarrow> usize option" where
  "filter_arm C k fd d = map_of (bk_filters k) (fd, dir_filter C d)"

definition filter_ready :: "kqueue_consts \<Rightarrow> sim_bsd_kernel \<Rightarrow> raw_fd \<Rightarrow> direction \<Rightarrow> bool" where
  "filter_ready C k fd d \<longleftrightarrow> map_of (bk_ready k) (fd, dir_filter C d) \<noteq> None"

abbreviation bsd_poller :: "kqueue_consts \<Rightarrow> raw_fd \<Rightarrow> (sim_bsd_kernel, kevent) poller_api" where
  "bsd_poller C self_fd \<equiv> kqueue_poller (sim_bsd C) C self_fd"

section \<open>The contract on the simulated kernel\<close>

context kqueue_flags
begin

text \<open>Two changes, one for each direction: what \<open>update\<close> asks for.\<close>

lemma sim_change_filters:
  assumes "sim_change C (kchange C fd interested filt key) k = (err, k')"
  shows "bk_open k' = bk_open k"
    and "map_of (bk_filters k') =
      (if fd \<in> set (bk_open k) then (map_of (bk_filters k))((fd, filt) := (if interested then Some key else None))
       else map_of (bk_filters k))"
    and "err = (if fd \<notin> set (bk_open k) then 9 else if interested \<or> map_of (bk_filters k) (fd, filt) \<noteq> None then 0
      else ENOENT C)"
proof -
  have c: "ke_ident (kchange C fd interested filt key) = fd" "ke_filter (kchange C fd interested filt key) = filt"
    "ke_udata (kchange C fd interested filt key) = key"
    by (simp_all add: kchange_def)
  note facts = assms [unfolded sim_change_def Let_def c kchange_adds]
  from facts show "bk_open k' = bk_open k" by (auto split: if_splits)
  from facts show "err = (if fd \<notin> set (bk_open k) then 9 else if interested \<or> map_of (bk_filters k) (fd, filt) \<noteq> None
      then 0 else ENOENT C)" by (auto split: if_splits)
  from facts show "map_of (bk_filters k') =
      (if fd \<in> set (bk_open k) then (map_of (bk_filters k))((fd, filt) := (if interested then Some key else None))
       else map_of (bk_filters k))"
    by (auto simp: AList.update_conv' AList.delete_conv' fun_eq_iff split: if_splits)
qed

lemma sim_update:
  assumes "kqueue_update (sim_bsd C) C self_fd fd ev k = (r, k')"
  shows "r = Inl e \<Longrightarrow> map_of (bk_filters k') = map_of (bk_filters k)"
    and "fd' \<noteq> fd \<Longrightarrow> filter_arm C k' fd' = filter_arm C k fd'"
    and "r = Inr u \<Longrightarrow> filter_arm C k' fd d = (if dir_ready d ev then Some (ev_key ev) else None)"
proof -
  let ?rd = "kchange C fd (ev_readable ev) (EVFILT_READ C) (ev_key ev)"
  let ?wr = "kchange C fd (ev_writable ev) (EVFILT_WRITE C) (ev_key ev)"
  obtain e1 k1 where 1: "sim_change C ?rd k = (e1, k1)" by fastforce
  obtain e2 k2 where 2: "sim_change C ?wr k1 = (e2, k2)" by fastforce
  note s1 = sim_change_filters [OF 1] and s2 = sim_change_filters [OF 2]
  have k': "k' = k2" using assms 1 2
    by (auto simp: kqueue_update_def sim_bsd_def sim_kevent_def Let_def syscall_def split: option.splits)
  have bad: "r = Inr u' \<longleftrightarrow> fd \<in> set (bk_open k)" for u'
    using assms 1 2 s1(1,3) s2(3) nonzero errors
    by (auto simp: kqueue_update_def sim_bsd_def sim_kevent_def Let_def syscall_def receipt_error_def split: if_splits)
  show "map_of (bk_filters k') = map_of (bk_filters k)" if "r = Inl e"
    using bad that s1(1,2) s2(2) k' by auto
  show "filter_arm C k' fd' = filter_arm C k fd'" if "fd' \<noteq> fd"
    using that s1(1,2) s2(2) k' by (auto simp: filter_arm_def fun_eq_iff)
  show "filter_arm C k' fd d = (if dir_ready d ev then Some (ev_key ev) else None)" if "r = Inr u"
    using bad that s1(1,2) s2(2) k' filters by (cases d) (auto simp: filter_arm_def dir_ready_def)
qed

lemma sim_poll:
  assumes "kqueue_poll (sim_bsd C) self_fd n t k = (r, k')"
  shows "r = Inr (map (sim_report k) (sim_reported n k))"
    and "map_of (bk_filters k') = (map_of (bk_filters k)) |` (- set (sim_reported n k))"
proof -
  have "map_of (filter (\<lambda>(f, _). f \<notin> S) xs) = map_of xs |` (- S)" for S and xs :: "((raw_fd \<times> int) \<times> usize) list"
    by (induction xs) (auto simp: restrict_map_def fun_eq_iff)
  with assms show "map_of (bk_filters k') = (map_of (bk_filters k)) |` (- set (sim_reported n k))"
    by (auto simp: kqueue_poll_def sim_bsd_def sim_kevent_def Let_def syscall_def map_ok_def)
  show "r = Inr (map (sim_report k) (sim_reported n k))"
    using assms by (auto simp: kqueue_poll_def sim_bsd_def sim_kevent_def Let_def syscall_def map_ok_def)
qed

lemma sim_report_key: "ev_key (kqueue_decode C (sim_report k f)) = the (map_of (bk_filters k) f)"
  by (simp add: kqueue_decode_def sim_report_def)

lemma sim_report_dir: "dir_ready d (kqueue_decode C (sim_report k (fd, dir_filter C d)))"
  by (cases d) (simp_all add: dir_ready_def kqueue_decode_def sim_report_def)

lemma sim_directions: "direction_poller (bsd_poller C self_fd) (filter_arm C)"
proof
  fix n t q es q' fd d k
  assume p: "p_poll (bsd_poller C self_fd) n t q = (Inr es, q')" and a: "filter_arm C q fd d = Some k"
  note s = sim_poll [OF p [unfolded kqueue_poller_def, simplified]]
  show "filter_arm C q' fd d = Some k \<or> k \<in> (\<lambda>e. ev_key (p_event (bsd_poller C self_fd) e)) ` set es"
  proof (cases "(fd, dir_filter C d) \<in> set (sim_reported n q)")
    case True
    then have "sim_report q (fd, dir_filter C d) \<in> set es" using s(1) by simp
    moreover have "ev_key (p_event (bsd_poller C self_fd) (sim_report q (fd, dir_filter C d))) = k"
      using a by (simp add: kqueue_poller_def sim_report_key filter_arm_def)
    ultimately show ?thesis by (metis imageI)
  next
    case False
    with a s(2) show ?thesis by (simp add: filter_arm_def)
  qed
next
  fix n t q err q'
  assume "p_poll (bsd_poller C self_fd) n t q = (Inl err, q')"
  then show "filter_arm C q' = filter_arm C q"
    using sim_poll(1) by (fastforce simp: kqueue_poller_def)
next
  fix fd ev q u q' d
  assume "p_update (bsd_poller C self_fd) fd ev q = (Inr u, q')"
  then show "filter_arm C q' fd d = (if dir_ready d ev then Some (ev_key ev) else None)"
    by (intro sim_update(3)) (auto simp: kqueue_poller_def)
next
  fix fd ev q err q'
  assume "p_add (bsd_poller C self_fd) fd ev q = (Inl err, q')"
  then have "kqueue_update (sim_bsd C) C self_fd fd ev q = (Inl err, q')" by (simp add: kqueue_poller_def kqueue_add_def)
  from sim_update(1) [OF this refl] show "filter_arm C q' = filter_arm C q"
    by (simp add: filter_arm_def fun_eq_iff)
qed (auto simp: kqueue_poller_def kqueue_add_def kqueue_delete_def dest: sim_update(2))

lemma sim_reporting: "reporting_poller (bsd_poller C self_fd) (filter_arm C) (filter_ready C)"
proof (rule reporting_poller.intro [OF sim_directions], unfold_locales)
  fix n t q es q' fd d k
  assume p: "p_poll (bsd_poller C self_fd) n t q = (Inr es, q')" and room: "length es < n"
    and a: "filter_arm C q fd d = Some k" and r: "filter_ready C q fd d"
  let ?f = "(fd, dir_filter C d)"
  note s = sim_poll [OF p [unfolded kqueue_poller_def, simplified]]
  have "?f \<in> set (map fst (bk_filters q))" using a map_of_SomeD by (force simp: filter_arm_def)
  then have "?f \<in> set (sim_reported n q)" using r room s(1) by (simp add: sim_reported_def filter_ready_def)
  then have "sim_report q ?f \<in> set es" using s(1) by simp
  then show "\<exists>e \<in> set es. ev_key (p_event (bsd_poller C self_fd) e) = k \<and> dir_ready d (p_event (bsd_poller C self_fd) e)"
    using a by (intro bexI [of _ "sim_report q ?f"])
      (simp_all add: kqueue_poller_def sim_report_key sim_report_dir filter_arm_def)
qed

end

interpretation sim_kqueue: reporting_env assoc_slab "bsd_poller bsd_consts self_fd" "filter_arm bsd_consts"
    "filter_ready bsd_consts" for self_fd
  by (intro reporting_env.intro waiting_env.intro sources.source_slab_axioms bsd_flags.sim_directions
      bsd_flags.sim_reporting)

end
