(* ===== verification/Reactor_Properties.thy ===== *)
theory Reactor_Properties
  imports Epoll Kqueue
begin

text \<open>
  What the epoll back end and the reactor guarantee: the encoding of interests, the timeouts
  the kernel gets, that the poller is armed exactly for the waiting wakers, that an event
  reaches its waker, and what goes wrong when a registered source is polled again.
\<close>

section \<open>epoll\<close>

text \<open>
  C35. The epoll encoding of an interest loses nothing: decoding the encoded event gives back
  its key and both directions. (The flags of \<open>libc\<close> only need to be distinct bits.)
\<close>

theorem epoll_roundtrip:
  assumes "epoll_flags C"
  shows "epoll_decode C (epoll_encode C e) = e"
  using assms by (rule epoll_flags.decode_encode)

theorem epoll_roundtrip_witness:
  "epoll_decode linux_consts (epoll_encode linux_consts \<lparr>ev_key = 9, ev_readable = True, ev_writable = False\<rparr>) =
     \<lparr>ev_key = 9, ev_readable = True, ev_writable = False\<rparr>"
  by (rule epoll_roundtrip [OF linux_flags.epoll_flags_axioms])

lemma sint_of_nat_32: "sint (of_nat n :: 32 word) = (int n + 2 ^ 31) mod 2 ^ 32 - 2 ^ 31"
  by (simp add: signed_of_nat signed_take_bit_eq_take_bit_shift take_bit_eq_mod)

text \<open>
  C36. The timeout that \<open>epoll_wait\<close> gets is the whole number of milliseconds, and never longer
  than the time asked for, only while that number is below \<open>2 ^ 31\<close>. Beyond, the cast to a
  32-bit integer wraps, and in every other range of \<open>2 ^ 31\<close> milliseconds (about 25 days) the
  result is negative, which makes the kernel wait without a limit.
\<close>

theorem epoll_timeout_range:
  "(as_millis d < 2 ^ 31 \<longrightarrow> sint (epoll_timeout (Some d)) = int (as_millis d) \<and>
      from_millis (nat (sint (epoll_timeout (Some d)))) \<le> d) \<and>
   (2 ^ 31 \<le> as_millis d mod 2 ^ 32 \<longrightarrow> sint (epoll_timeout (Some d)) < 0)"
proof (intro conjI impI)
  assume a: "as_millis d < 2 ^ 31"
  then have "(int (as_millis d) + 2 ^ 31) mod 2 ^ 32 = int (as_millis d) + 2 ^ 31"
    by (intro mod_pos_pos_trivial) auto
  then show s: "sint (epoll_timeout (Some d)) = int (as_millis d)"
    by (simp add: epoll_timeout_def sint_of_nat_32)
  show "from_millis (nat (sint (epoll_timeout (Some d)))) \<le> d"
    unfolding s by (simp add: from_millis_def as_millis_def)
next
  assume a: "2 ^ 31 \<le> as_millis d mod 2 ^ 32"
  define x r where "x = as_millis d mod 2 ^ 32" and "r = int x"
  have "2 ^ 31 \<le> x" "x < 2 ^ 32" using a by (simp_all add: x_def)
  then have r: "2 ^ 31 \<le> r" "r < 2 ^ 32" by (simp_all add: r_def)
  have "(int (as_millis d) + 2 ^ 31) mod 2 ^ 32 = (r + 2 ^ 31) mod 2 ^ 32"
    unfolding r_def x_def by (simp add: of_nat_mod mod_simps)
  also have "r + 2 ^ 31 = (r - 2 ^ 31) + 2 ^ 32" by simp
  also have "\<dots> mod 2 ^ 32 = (r - 2 ^ 31) mod 2 ^ 32" by (rule mod_add_self2)
  also have "\<dots> = r - 2 ^ 31" using r by (intro mod_pos_pos_trivial) auto
  finally show "sint (epoll_timeout (Some d)) < 0"
    using r by (simp add: epoll_timeout_def sint_of_nat_32)
qed

theorem epoll_timeout_range_witness: "sint (epoll_timeout (Some (from_millis (25 * 24 * 3600 * 1000)))) < 0"
  using epoll_timeout_range [of "from_millis (25 * 24 * 3600 * 1000)"]
  by (simp add: from_millis_def as_millis_def)

section \<open>The reactor\<close>

text \<open>
  A concrete run on the simulated kernel, where descriptor 5 is readable: the source is
  inserted, waker 7 waits to read, and the reactor parks.
\<close>

abbreviation sim_poller :: "(sim_kernel, epoll_event) poller_api" where
  "sim_poller \<equiv> epoll_poller (sim_linux linux_consts) linux_consts 3"

definition ex_reactor :: "(raw_fd \<times> epoll_event) list \<Rightarrow> epoll_event list \<Rightarrow> (nat \<times> nat source) list \<Rightarrow>
    (nat source assoc_slab, sim_kernel, epoll_event) reactor" where
  "ex_reactor regs events sources = \<lparr>rx_poller = \<lparr>sk_regs = regs, sk_ready = [(5, 1)]\<rparr>, rx_events = events, rx_sources = sources\<rparr>"

definition ex_source :: "nat option \<Rightarrow> bool \<Rightarrow> nat source" where
  "ex_source w woke = \<lparr>so_raw = 5, so_reader = \<lparr>in_poller = w, in_woke = woke\<rparr>, so_writer = interest_default\<rparr>"

definition ex_inserted :: "(nat source assoc_slab, sim_kernel, epoll_event) reactor" where
  "ex_inserted = ex_reactor [(5, \<lparr>ee_events = 0x40000000, ee_u64 = 0\<rparr>)] [] [(0, ex_source None False)]"

definition ex_armed :: "(nat source assoc_slab, sim_kernel, epoll_event) reactor" where
  "ex_armed = ex_reactor [(5, \<lparr>ee_events = 0x40002001, ee_u64 = 0\<rparr>)] [] [(0, ex_source (Some 7) False)]"

definition ex_ready :: "(nat source assoc_slab, sim_kernel, epoll_event) reactor" where
  "ex_ready = ex_reactor [(5, \<lparr>ee_events = 0x40000000, ee_u64 = 0\<rparr>)] [\<lparr>ee_events = 1, ee_u64 = 0\<rparr>] [(0, ex_source None True)]"

lemmas reactor_eval = reactor_new_def insert_source_def poll_ready_def reactor_poll_def update_interest_def
  ex_reactor_def ex_source_def interest_default_def has_poller_def take_ready_def interest_take_def
  epoll_poller_def epoll_add_def epoll_update_def epoll_poll_def sim_linux_def sim_ctl_result sim_wait_def
  sim_active_def sim_ready_def syscall_def map_ok_def epoll_encode_def epoll_decode_def linux_consts_def
  initial_events_def Let_def

lemma ex_insert: "insert_source assoc_slab sim_poller 5 (ex_reactor [] [] []) = (Inr 0, ex_inserted)"
  by (simp add: reactor_eval ex_inserted_def assoc_vacant_key_def)

lemma ex_poll: "poll_ready assoc_slab sim_poller 0 Read 7 ex_inserted = Ret (Pending, ex_armed, [])"
  by (simp add: reactor_eval ex_inserted_def ex_armed_def)

lemma ex_park: "reactor_poll assoc_slab sim_poller None ex_armed [] = (Inr (), [7], ex_ready)"
  by (simp add: reactor_eval ex_armed_def ex_ready_def)

lemma ex_armed_reach: "reactor_reach assoc_slab sim_poller (sim_regs linux_consts) ex_armed"
proof -
  let ?reach = "reactor_reach assoc_slab sim_poller (sim_regs linux_consts)"
  have "?reach (ex_reactor [] [] [])"
    by (rule reactor_reach.init [of _ "\<lparr>sk_regs = [], sk_ready = [(5, 1)]\<rparr>"])
      (simp_all add: reactor_new_def ex_reactor_def sim_regs_def fun_eq_iff)
  moreover have "reactor_step assoc_slab sim_poller (ex_reactor [] [] []) [] ex_inserted"
    by (rule reactor_step.insert [OF _ ex_insert]) (simp add: ex_reactor_def assoc_vacant_key_def)
  ultimately have "?reach ex_inserted" by (rule reactor_reach.step)
  moreover have "reactor_step assoc_slab sim_poller ex_inserted [] ex_armed"
    by (rule reactor_step.poll [OF ex_poll]) simp
  ultimately show ?thesis by (rule reactor_reach.step)
qed



text \<open>
  An event reaches its task: when a park is successful and the kernel reported a source
  ready in a direction in which a waker waits, the waker is among those to call, and the
  source remembers it, so that the next \<open>poll_ready\<close> in that direction is ready at once.
\<close>

theorem reactor_delivers:
  assumes "slab_crate A"
    and "p_poll Q initial_events t (rx_poller x) = (Inr events, q)"
    and "reactor_poll A Q t x ws = (Inr u, ws', x')"
    and "e \<in> set events" and "dir_ready d (p_event Q e)"
    and "slab_get A (rx_sources x) (unat (ev_key (p_event Q e))) = Some so"
    and "in_poller (source_interest d so) = Some w"
  shows "w \<in> set ws' \<and>
    (\<exists>x''. poll_ready A Q (unat (ev_key (p_event Q e))) d cx x' = Ret (Ready (Inr ()), x'', []))"
  by (rule source_slab.poll_delivers [OF source_slab.intro [OF assms(1)] assms(2-7)])

theorem reactor_delivers_witness: "7 \<in> set [7 :: nat] \<and>
    (\<exists>x''. poll_ready assoc_slab sim_poller 0 Read 7 ex_ready = Ret (Ready (Inr ()), x'', []))"
proof -
  have "p_poll sim_poller initial_events None (rx_poller ex_armed) =
      (Inr [\<lparr>ee_events = 1, ee_u64 = 0\<rparr>], rx_poller ex_ready)"
    by (simp add: reactor_eval ex_armed_def ex_ready_def)
  from reactor_delivers [OF assoc.slab_crate_axioms this ex_park, of "\<lparr>ee_events = 1, ee_u64 = 0\<rparr>" Read "ex_source (Some 7) False" 7 7]
  show ?thesis by (simp add: reactor_eval dir_ready_def ex_armed_def)
qed

text \<open>
  Polling a source again before it is ready wakes the waker that waited: no system call is
  made, and the replaced waker is called even if it is the waker of the very task that polls.
  So a task that is polled spuriously while it waits for I/O wakes itself in each of its polls.
\<close>

theorem repoll_wakes_itself:
  assumes "slab_crate A" and "slab_get A (rx_sources x) key = Some so"
    and "\<not> in_woke (source_interest d so)" and "in_poller (source_interest d so) = Some w"
  shows "\<exists>x'. poll_ready A Q key d w x = Ret (Pending, x', [w]) \<and> rx_poller x' = rx_poller x \<and>
    slab_get A (rx_sources x') key = Some so"
proof -
  have "set_interest d ((source_interest d so)\<lparr>in_poller := Some w\<rparr>) so = so"
    using assms(4) by (cases d) simp_all
  then show ?thesis
    using assms slab_crate.get_set [OF assms(1), of "rx_sources x" key] by (simp add: poll_ready_def Let_def)
qed

theorem repoll_wakes_itself_witness:
  "\<exists>x'. poll_ready assoc_slab sim_poller 0 Read 7 ex_armed = Ret (Pending, x', [7])"
  using repoll_wakes_itself [OF assoc.slab_crate_axioms, of ex_armed 0 "ex_source (Some 7) False" Read 7]
  by (auto simp: ex_armed_def ex_reactor_def ex_source_def)

text \<open>
  A failed arming is not repeated: when updating the poller fails, \<open>poll_ready\<close> reports the
  error but leaves the waker registered. The next \<open>poll_ready\<close> in that direction makes no
  system call and is pending, although the source is not armed.
\<close>

theorem failed_arming_sticks:
  assumes "slab_crate A" and "slab_get A (rx_sources x) key = Some so"
    and "\<not> in_woke (source_interest d so)" and "in_poller (source_interest d so) = None"
    and "update_interest Q key (set_interest d ((source_interest d so)\<lparr>in_poller := Some w\<rparr>) so) (rx_poller x) = (Inl err, q)"
  shows "\<exists>x1. poll_ready A Q key d w x = Ret (Ready (Inl err), x1, []) \<and> rx_poller x1 = q \<and>
    (\<exists>x2. poll_ready A Q key d cx x1 = Ret (Pending, x2, [w]) \<and> rx_poller x2 = q)"
proof -
  let ?so = "set_interest d ((source_interest d so)\<lparr>in_poller := Some w\<rparr>) so"
  let ?x1 = "x\<lparr>rx_sources := slab_set A (rx_sources x) key ?so, rx_poller := q\<rparr>"
  have p: "poll_ready A Q key d w x = Ret (Ready (Inl err), ?x1, [])"
    using assms by (simp add: poll_ready_def Let_def)
  have "slab_get A (rx_sources ?x1) key = Some ?so" "source_interest d ?so = (source_interest d so)\<lparr>in_poller := Some w\<rparr>"
    using assms(2) slab_crate.get_set [OF assms(1), of "rx_sources x" key] by (simp, cases d) simp_all
  then have "\<exists>x2. poll_ready A Q key d cx ?x1 = Ret (Pending, x2, [w]) \<and> rx_poller x2 = q"
    using assms(3) by (simp add: poll_ready_def Let_def)
  with p show ?thesis by (intro exI [of _ ?x1]) simp
qed

text \<open>Descriptor 5 was closed behind the reactor's back, so that the kernel no longer knows it.\<close>

theorem failed_arming_sticks_witness:
  "\<exists>x1 err. poll_ready assoc_slab sim_poller 0 Read 7 (ex_reactor [] [] [(0, ex_source None False)]) =
     Ret (Ready (Inl err), x1, []) \<and> (\<exists>x2. poll_ready assoc_slab sim_poller 0 Read 7 x1 = Ret (Pending, x2, [7]))"
proof -
  let ?x = "ex_reactor [] [] [(0, ex_source None False)]"
  let ?err = "\<lparr>err_kind = OtherKind, err_os = Some 2\<rparr>"
  have "update_interest sim_poller 0 (set_interest Read ((source_interest Read (ex_source None False))\<lparr>in_poller := Some 7\<rparr>) (ex_source None False))
      (rx_poller ?x) = (Inl ?err, rx_poller ?x)"
    by (simp add: reactor_eval)
  from failed_arming_sticks [OF assoc.slab_crate_axioms _ _ _ this, of 7] show ?thesis
    by (fastforce simp: ex_reactor_def ex_source_def)
qed

section \<open>Both back ends\<close>

text \<open>
  The same run on a kqueue: descriptor 5 is open and readable. Inserting the source asks to
  delete two filters that are not there, which \<open>update\<close> takes for success.
\<close>

definition ex_kreactor :: "((raw_fd \<times> int) \<times> usize) list \<Rightarrow> kevent list \<Rightarrow> (nat \<times> nat source) list \<Rightarrow>
    (nat source assoc_slab, sim_bsd_kernel, kevent) reactor" where
  "ex_kreactor filters events sources = \<lparr>rx_poller = \<lparr>bk_filters = filters, bk_open = [5],
     bk_ready = [((5, - 1), 0), ((5, - 2), 0)]\<rparr>, rx_events = events, rx_sources = sources\<rparr>"

definition ex_both :: "nat option \<Rightarrow> nat option \<Rightarrow> bool \<Rightarrow> nat source" where
  "ex_both rd wr woke = \<lparr>so_raw = 5, so_reader = \<lparr>in_poller = rd, in_woke = woke\<rparr>, so_writer = \<lparr>in_poller = wr, in_woke = woke\<rparr>\<rparr>"

abbreviation sim_kpoller :: "(sim_bsd_kernel, kevent) poller_api" where
  "sim_kpoller \<equiv> bsd_poller bsd_consts 3"

lemmas kqueue_eval = insert_source_def poll_ready_def reactor_poll_def update_interest_def ex_kreactor_def ex_both_def
  interest_default_def has_poller_def take_ready_def interest_take_def kqueue_poller_def kqueue_add_def kqueue_update_def
  kqueue_poll_def sim_bsd_def sim_kevent_def sim_change_def sim_reported_def sim_report_def kchange_def receipt_error_def
  kqueue_decode_def syscall_def map_ok_def bsd_consts_def initial_events_def Let_def

lemma ex_kinsert: "insert_source assoc_slab sim_kpoller 5 (ex_kreactor [] [] []) =
    (Inr 0, ex_kreactor [] [] [(0, ex_both None None False)])"
  by (simp add: kqueue_eval assoc_vacant_key_def)

lemma ex_kpoll: "poll_ready assoc_slab sim_kpoller 0 Read 7 (ex_kreactor [] [] [(0, ex_both None None False)]) =
    Ret (Pending, ex_kreactor [((5, - 1), 0)] [] [(0, ex_both (Some 7) None False)], [])"
  by (simp add: kqueue_eval)

lemma ex_kpoll_write: "poll_ready assoc_slab sim_kpoller 0 Write 8
      (ex_kreactor [((5, - 1), 0)] [] [(0, ex_both (Some 7) None False)]) =
    Ret (Pending, ex_kreactor [((5, - 1), 0), ((5, - 2), 0)] [] [(0, ex_both (Some 7) (Some 8) False)], [])"
  by (simp add: kqueue_eval)

definition ex_kevent :: "int \<Rightarrow> kevent" where
  "ex_kevent filt = \<lparr>ke_ident = 5, ke_filter = filt, ke_flags = 0, ke_fflags = 0, ke_data = 0, ke_udata = 0\<rparr>"

lemma ex_kpark: "reactor_poll assoc_slab sim_kpoller None
      (ex_kreactor [((5, - 1), 0), ((5, - 2), 0)] [] [(0, ex_both (Some 7) (Some 8) False)]) [] =
    (Inr (), [7, 8], ex_kreactor [((5, - 2), 0)] [ex_kevent (- 1), ex_kevent (- 2)] [(0, ex_both None None True)])"
  by (simp add: kqueue_eval ex_kevent_def)

text \<open>
  A kqueue reports the two directions of a source as two events. The update for the first one
  arms the direction of the second again, which stays armed although nobody waits for it: the
  converse of the next two properties, which holds for epoll, does not hold here.
\<close>

lemma kqueue_stays_armed:
  "\<exists>x x'. reactor_poll assoc_slab sim_kpoller None x [] = (Inr (), [7, 8], x') \<and>
     slab_get assoc_slab (rx_sources x') 0 = Some (ex_both None None True) \<and>
     filter_arm bsd_consts (rx_poller x') 5 Write = Some 0"
  by (intro exI conjI, rule ex_kpark) (simp_all add: ex_kreactor_def filter_arm_def bsd_consts_def)

definition ex_kwaiting :: "(nat source assoc_slab, sim_bsd_kernel, kevent) reactor" where
  "ex_kwaiting = ex_kreactor [((5, - 1), 0), ((5, - 2), 0)] [] [(0, ex_both (Some 7) (Some 8) False)]"

lemma ex_kwaiting_reach: "owned_reach assoc_slab sim_kpoller ex_kwaiting"
proof -
  let ?reach = "owned_reach assoc_slab sim_kpoller"
  have "distinct_raws (slab_get assoc_slab (rx_sources (ex_kreactor fs [] [(0, so)])))" for fs so
    by (auto simp: distinct_raws_def ex_kreactor_def split: if_splits)
  note step = owned_reach.step [OF _ _ this]
  have "?reach (ex_kreactor [] [] [])"
    by (rule owned_reach.init [of _ "rx_poller (ex_kreactor [] [] [])"]) (simp add: reactor_new_def ex_kreactor_def)
  moreover have "reactor_step assoc_slab sim_kpoller (ex_kreactor [] [] []) [] (ex_kreactor [] [] [(0, ex_both None None False)])"
    by (rule reactor_step.insert [OF _ ex_kinsert]) (simp add: ex_kreactor_def assoc_vacant_key_def)
  ultimately have "?reach (ex_kreactor [] [] [(0, ex_both None None False)])" by (rule step)
  moreover note reactor_step.poll [OF ex_kpoll]
  ultimately have "?reach (ex_kreactor [((5, - 1), 0)] [] [(0, ex_both (Some 7) None False)])" by (rule step) simp
  moreover note reactor_step.poll [OF ex_kpoll_write]
  ultimately show ?thesis unfolding ex_kwaiting_def by (rule step) simp
qed



text \<open>
  No readiness is missed, on either back end: if a waker waits in a direction in which its
  descriptor is ready, then the next successful park (with room left in the array of events)
  returns that waker, and the task's next \<open>poll_ready\<close> is ready at once.
\<close>

theorem ready_wakes_waiter:
  assumes "slab_crate A" and "reporting_poller Q arm ready" and "owned_reach A Q x"
    and "slab_get A (rx_sources x) k = Some so" and "in_poller (source_interest d so) = Some w"
    and "ready (rx_poller x) (so_raw so) d"
    and "p_poll Q initial_events t (rx_poller x) = (Inr es, q)" and "length es < initial_events"
    and "reactor_poll A Q t x ws = (Inr u, ws', x')"
  shows "w \<in> set ws' \<and> (\<exists>x''. poll_ready A Q k d cx x' = Ret (Ready (Inr ()), x'', []))"
proof -
  have "reporting_env A Q arm ready"
    using assms(1,2) by (intro reporting_env.intro waiting_env.intro source_slab.intro) (simp_all add: reporting_poller.axioms)
  from reporting_env.ready_wakes [OF this assms(3-9)] show ?thesis .
qed

theorem ready_wakes_waiter_witness:
  "8 \<in> set [7, 8 :: nat] \<and> (\<exists>x''. poll_ready assoc_slab sim_kpoller 0 Write 1
     (ex_kreactor [((5, - 2), 0)] [ex_kevent (- 1), ex_kevent (- 2)] [(0, ex_both None None True)]) = Ret (Ready (Inr ()), x'', []))"
proof -
  have "p_poll sim_kpoller initial_events None (rx_poller ex_kwaiting) =
      (Inr [ex_kevent (- 1), ex_kevent (- 2)], rx_poller (ex_kreactor [] [] []))"
    by (simp add: kqueue_eval ex_kwaiting_def ex_kevent_def)
  from ready_wakes_waiter [OF assoc.slab_crate_axioms bsd_flags.sim_reporting ex_kwaiting_reach _ _ _ this _
      ex_kpark [folded ex_kwaiting_def], of 0 "ex_both (Some 7) (Some 8) False" Write 8 1]
  show ?thesis by (simp add: ex_kwaiting_def ex_kreactor_def ex_both_def filter_ready_def bsd_consts_def initial_events_def)
qed

end
