(* ===== verification/Net.thy ===== *)
theory Net
  imports Reactor
begin

text \<open>
  \<open>src/net/mod.rs\<close> and \<open>src/net/tcp.rs\<close>: a socket registered with the reactor, and the loops
  that retry a non-blocking operation when its source is ready. The sockets of the standard
  library and of \<open>socket2\<close> are parameters: an operation on a socket is a function \<open>f\<close> on the
  state \<open>'n\<close> of the network, the trait \<open>AsRaw\<close> a function \<open>raw\<close>. The runtime handle that a
  socket carries is used for its reactor only, which the operations take and return.
\<close>

section \<open>Async\<close>

record 't async =
  as_id :: nat
  as_sys :: "'t option"

definition async_new ::
    "('s, 'w source) slab_api \<Rightarrow> ('q, 'e) poller_api \<Rightarrow> ('t \<Rightarrow> raw_fd) \<Rightarrow> 't \<Rightarrow> ('s, 'q, 'e) reactor \<Rightarrow>
     't async io_result \<times> ('s, 'q, 'e) reactor" where
  "async_new A Q raw sys x =
     (case insert_source A Q (raw sys) x of
        (Inl e, x) \<Rightarrow> (Inl e, x)
      | (Inr i, x) \<Rightarrow> (Inr \<lparr>as_id = i, as_sys = Some sys\<rparr>, x))"

definition async_drop ::
    "('s, 'w source) slab_api \<Rightarrow> ('q, 'e) poller_api \<Rightarrow> 't async \<Rightarrow> ('s, 'q, 'e) reactor \<Rightarrow> ('s, 'q, 'e) reactor m" where
  "async_drop A Q a x =
     (if as_sys a \<noteq> None then bindM (remove_source A Q (as_id a) x) (\<lambda>(_, x). Ret x) else Ret x)"

text \<open>\<open>into_sys\<close> takes the socket out; \<open>self\<close> is dropped at its end, with an error or not.\<close>

definition async_into_sys ::
    "('s, 'w source) slab_api \<Rightarrow> ('q, 'e) poller_api \<Rightarrow> 't async \<Rightarrow> ('s, 'q, 'e) reactor \<Rightarrow>
     ('t io_result \<times> ('s, 'q, 'e) reactor) m" where
  "async_into_sys A Q a x =
     bindM (expectM UnwrapNone (as_sys a)) (\<lambda>sys.
       let a = a\<lparr>as_sys := None\<rparr> in
       bindM (remove_source A Q (as_id a) x) (\<lambda>(r, x).
       bindM (async_drop A Q a x) (\<lambda>x.
         Ret (case r of Inl e \<Rightarrow> Inl e | Inr _ \<Rightarrow> Inr sys, x))))"

definition async_sys :: "'t async \<Rightarrow> 't m" where
  "async_sys a = expectM AssertFailed (as_sys a)"

definition would_block :: "'r io_result \<Rightarrow> bool" where
  "would_block r = (case r of Inl e \<Rightarrow> err_kind e = WouldBlock | Inr _ \<Rightarrow> False)"

text \<open>
  \<open>poll_io\<close>: try, and when the operation would block wait for readiness; if the source is
  already ready, try again. The wakers called by the reactor are collected in \<open>out\<close>.
\<close>

partial_function (option) poll_io_loop ::
    "('s, 'w source) slab_api \<Rightarrow> ('q, 'e) poller_api \<Rightarrow> nat \<Rightarrow> direction \<Rightarrow> ('n \<Rightarrow> 'r io_result \<times> 'n) \<Rightarrow> 'w \<Rightarrow>
     'n \<Rightarrow> ('s, 'q, 'e) reactor \<Rightarrow> 'w list \<Rightarrow> ('r io_result poll \<times> 'n \<times> ('s, 'q, 'e) reactor \<times> 'w list) m" where
  "poll_io_loop A Q i d f cx n x out =
     (case f n of (r, n) \<Rightarrow>
        if would_block r then
          (case poll_ready A Q i d cx x of
             None \<Rightarrow> None
           | Some (Inl p) \<Rightarrow> Panic p
           | Some (Inr (Pending, x, ws)) \<Rightarrow> Ret (Pending, n, x, out @ ws)
           | Some (Inr (Ready (Inl e), x, ws)) \<Rightarrow> Ret (Ready (Inl e), n, x, out @ ws)
           | Some (Inr (Ready (Inr _), x, ws)) \<Rightarrow> poll_io_loop A Q i d f cx n x (out @ ws))
        else Ret (Ready r, n, x, out))"

definition poll_io ::
    "('s, 'w source) slab_api \<Rightarrow> ('q, 'e) poller_api \<Rightarrow> direction \<Rightarrow> ('t \<Rightarrow> 'n \<Rightarrow> 'r io_result \<times> 'n) \<Rightarrow> 'w \<Rightarrow>
     't async \<Rightarrow> 'n \<Rightarrow> ('s, 'q, 'e) reactor \<Rightarrow> ('r io_result poll \<times> 'n \<times> ('s, 'q, 'e) reactor \<times> 'w list) m" where
  "poll_io A Q d f cx a n x =
     bindM (async_sys a) (\<lambda>sys. poll_io_loop A Q (as_id a) d (f sys) cx n x [])"

text \<open>
  \<open>do_io\<close> is an \<open>async fn\<close>: one poll of it starts at its beginning or resumes at the await.
\<close>

datatype io_state = IoStart | IoWaiting

partial_function (option) do_io_loop ::
    "('s, 'w source) slab_api \<Rightarrow> ('q, 'e) poller_api \<Rightarrow> nat \<Rightarrow> direction \<Rightarrow> ('n \<Rightarrow> 'r io_result \<times> 'n) \<Rightarrow> 'w \<Rightarrow>
     io_state \<Rightarrow> 'n \<Rightarrow> ('s, 'q, 'e) reactor \<Rightarrow> 'w list \<Rightarrow>
     ('r io_result poll \<times> io_state \<times> 'n \<times> ('s, 'q, 'e) reactor \<times> 'w list) m" where
  "do_io_loop A Q i d f cx st n x out =
     (case st of
        IoStart \<Rightarrow>
          (case f n of (r, n) \<Rightarrow>
             if would_block r then do_io_loop A Q i d f cx IoWaiting n x out
             else Ret (Ready r, IoStart, n, x, out))
      | IoWaiting \<Rightarrow>
          (case poll_ready A Q i d cx x of
             None \<Rightarrow> None
           | Some (Inl p) \<Rightarrow> Panic p
           | Some (Inr (Pending, x, ws)) \<Rightarrow> Ret (Pending, IoWaiting, n, x, out @ ws)
           | Some (Inr (Ready (Inl e), x, ws)) \<Rightarrow> Ret (Ready (Inl e), IoStart, n, x, out @ ws)
           | Some (Inr (Ready (Inr _), x, ws)) \<Rightarrow> do_io_loop A Q i d f cx IoStart n x (out @ ws)))"

definition do_io_poll ::
    "('s, 'w source) slab_api \<Rightarrow> ('q, 'e) poller_api \<Rightarrow> direction \<Rightarrow> ('t \<Rightarrow> 'n \<Rightarrow> 'r io_result \<times> 'n) \<Rightarrow> 'w \<Rightarrow>
     't async \<Rightarrow> io_state \<Rightarrow> 'n \<Rightarrow> ('s, 'q, 'e) reactor \<Rightarrow>
     ('r io_result poll \<times> io_state \<times> 'n \<times> ('s, 'q, 'e) reactor \<times> 'w list) m" where
  "do_io_poll A Q d f cx a st n x =
     bindM (async_sys a) (\<lambda>sys. do_io_loop A Q (as_id a) d (f sys) cx st n x [])"

section \<open>Sockets\<close>

text \<open>What the listener and the streams of the standard library do, for one type each.\<close>

record ('n, 'addr, 'l, 't) tcp_api =
  tcp_bind :: "'addr \<Rightarrow> 'n \<Rightarrow> 'l io_result \<times> 'n"
  tcp_listener_nonblocking :: "'l \<Rightarrow> 'n \<Rightarrow> unit io_result \<times> 'n"
  tcp_accept :: "'l \<Rightarrow> 'n \<Rightarrow> ('t \<times> 'addr) io_result \<times> 'n"
  tcp_nonblocking :: "'t \<Rightarrow> 'n \<Rightarrow> unit io_result \<times> 'n"
  tcp_take_error :: "'t \<Rightarrow> 'n \<Rightarrow> io_error option io_result \<times> 'n"
  tcp_listener_raw :: "'l \<Rightarrow> raw_fd"
  tcp_raw :: "'t \<Rightarrow> raw_fd"

definition listener_bind ::
    "('s, 'w source) slab_api \<Rightarrow> ('q, 'e) poller_api \<Rightarrow> ('n, 'addr, 'l, 't) tcp_api \<Rightarrow> bool \<Rightarrow> 'addr \<Rightarrow>
     'n \<Rightarrow> ('s, 'q, 'e) reactor \<Rightarrow> ('l async io_result \<times> 'n \<times> ('s, 'q, 'e) reactor) m" where
  "listener_bind A Q N entered addr n x =
     (case tcp_bind N addr n of
        (Inl e, n) \<Rightarrow> Ret (Inl e, n, x)
      | (Inr sys, n) \<Rightarrow>
          (case tcp_listener_nonblocking N sys n of
             (Inl e, n) \<Rightarrow> Ret (Inl e, n, x)
           | (Inr _, n) \<Rightarrow>
               if entered then
                 (let (r, x) = async_new A Q (tcp_listener_raw N) sys x in Ret (r, n, x))
               else Panic NoRuntime))"

text \<open>The rest of \<open>accept\<close> once a connection is there: both accepting functions share it.\<close>

definition accepted ::
    "('s, 'w source) slab_api \<Rightarrow> ('q, 'e) poller_api \<Rightarrow> ('n, 'addr, 'l, 't) tcp_api \<Rightarrow> ('t \<times> 'addr) io_result \<Rightarrow>
     'n \<Rightarrow> ('s, 'q, 'e) reactor \<Rightarrow> ('t async \<times> 'addr) io_result \<times> 'n \<times> ('s, 'q, 'e) reactor" where
  "accepted A Q N result n x =
     (case result of
        Inl e \<Rightarrow> (Inl e, n, x)
      | Inr (sys, addr) \<Rightarrow>
          (case tcp_nonblocking N sys n of
             (Inl e, n) \<Rightarrow> (Inl e, n, x)
           | (Inr _, n) \<Rightarrow>
               (let (r, x) = async_new A Q (tcp_raw N) sys x
                in (map_sum id (\<lambda>s. (s, addr)) r, n, x))))"

definition listener_accept ::
    "('s, 'w source) slab_api \<Rightarrow> ('q, 'e) poller_api \<Rightarrow> ('n, 'addr, 'l, 't) tcp_api \<Rightarrow> 'w \<Rightarrow> 'l async \<Rightarrow> io_state \<Rightarrow>
     'n \<Rightarrow> ('s, 'q, 'e) reactor \<Rightarrow>
     (('t async \<times> 'addr) io_result poll \<times> io_state \<times> 'n \<times> ('s, 'q, 'e) reactor \<times> 'w list) m" where
  "listener_accept A Q N cx a st n x =
     bindM (do_io_poll A Q Read (tcp_accept N) cx a st n x) (\<lambda>(p, st, n, x, out).
       case p of
         Pending \<Rightarrow> Ret (Pending, st, n, x, out)
       | Ready result \<Rightarrow> (let (r, n, x) = accepted A Q N result n x in Ret (Ready r, st, n, x, out)))"

definition listener_poll_accept ::
    "('s, 'w source) slab_api \<Rightarrow> ('q, 'e) poller_api \<Rightarrow> ('n, 'addr, 'l, 't) tcp_api \<Rightarrow> 'w \<Rightarrow> 'l async \<Rightarrow>
     'n \<Rightarrow> ('s, 'q, 'e) reactor \<Rightarrow>
     (('t async \<times> 'addr) io_result poll \<times> 'n \<times> ('s, 'q, 'e) reactor \<times> 'w list) m" where
  "listener_poll_accept A Q N cx a n x =
     bindM (poll_io A Q Read (tcp_accept N) cx a n x) (\<lambda>(p, n, x, out).
       case p of
         Pending \<Rightarrow> Ret (Pending, n, x, out)
       | Ready result \<Rightarrow> (let (r, n, x) = accepted A Q N result n x in Ret (Ready r, n, x, out)))"

text \<open>
  \<open>TcpStream::connect\<close>, an \<open>async fn\<close>: before the first poll it has its address, afterwards
  it waits for its stream to become writable. A stream that is not returned is dropped.
\<close>

datatype ('addr, 't) connecting = ConnectStart 'addr | ConnectWaiting "'t async"

definition connect_wait ::
    "('s, 'w source) slab_api \<Rightarrow> ('q, 'e) poller_api \<Rightarrow> ('n, 'addr, 'l, 't) tcp_api \<Rightarrow> 'w \<Rightarrow> 't async \<Rightarrow>
     'n \<Rightarrow> ('s, 'q, 'e) reactor \<Rightarrow>
     ('t async io_result poll \<times> ('addr, 't) connecting \<times> 'n \<times> ('s, 'q, 'e) reactor \<times> 'w list) m" where
  "connect_wait A Q N cx stream n x =
     bindM (poll_ready A Q (as_id stream) Write cx x) (\<lambda>(p, x, out).
       case p of
         Pending \<Rightarrow> Ret (Pending, ConnectWaiting stream, n, x, out)
       | Ready (Inl e) \<Rightarrow>
           bindM (async_drop A Q stream x) (\<lambda>x. Ret (Ready (Inl e), ConnectWaiting stream, n, x, out))
       | Ready (Inr _) \<Rightarrow>
           bindM (async_sys stream) (\<lambda>sys.
             case tcp_take_error N sys n of
               (Inr None, n) \<Rightarrow> Ret (Ready (Inr stream), ConnectWaiting stream, n, x, out)
             | (Inr (Some err), n) \<Rightarrow>
                 bindM (async_drop A Q stream x) (\<lambda>x. Ret (Ready (Inl err), ConnectWaiting stream, n, x, out))
             | (Inl e, n) \<Rightarrow>
                 bindM (async_drop A Q stream x) (\<lambda>x. Ret (Ready (Inl e), ConnectWaiting stream, n, x, out))))"

definition stream_connect ::
    "('s, 'w source) slab_api \<Rightarrow> ('q, 'e) poller_api \<Rightarrow> ('n, 'addr, 'l, 't) tcp_api \<Rightarrow>
     ('addr \<Rightarrow> 'n \<Rightarrow> 't io_result \<times> 'n) \<Rightarrow> bool \<Rightarrow> 'w \<Rightarrow> ('addr, 't) connecting \<Rightarrow>
     'n \<Rightarrow> ('s, 'q, 'e) reactor \<Rightarrow>
     ('t async io_result poll \<times> ('addr, 't) connecting \<times> 'n \<times> ('s, 'q, 'e) reactor \<times> 'w list) m" where
  "stream_connect A Q N sys_connect entered cx st n x =
     (case st of
        ConnectStart addr \<Rightarrow>
          (case sys_connect addr n of
             (Inl e, n) \<Rightarrow> Ret (Ready (Inl e), st, n, x, [])
           | (Inr socket, n) \<Rightarrow>
               if entered then
                 (case async_new A Q (tcp_raw N) socket x of
                    (Inl e, x) \<Rightarrow> Ret (Ready (Inl e), st, n, x, [])
                  | (Inr stream, x) \<Rightarrow> connect_wait A Q N cx stream n x)
               else Panic NoRuntime)
      | ConnectWaiting stream \<Rightarrow> connect_wait A Q N cx stream n x)"

text \<open>Dropping the future of \<open>connect\<close> drops the stream it holds.\<close>

fun connecting_drop ::
    "('s, 'w source) slab_api \<Rightarrow> ('q, 'e) poller_api \<Rightarrow> ('addr, 't) connecting \<Rightarrow> ('s, 'q, 'e) reactor \<Rightarrow>
     ('s, 'q, 'e) reactor m" where
  "connecting_drop A Q (ConnectStart addr) x = Ret x"
| "connecting_drop A Q (ConnectWaiting stream) x = async_drop A Q stream x"

text \<open>
  The getters and setters of socket options, the formatter and the raw descriptor only pass their
  call on to the socket of the standard library: \<open>S\<close> is its interface.
\<close>

definition with_sys :: "('t \<Rightarrow> 'n \<Rightarrow> 'r \<times> 'n) \<Rightarrow> 't async \<Rightarrow> 'n \<Rightarrow> ('r \<times> 'n) m" where
  "with_sys f a n = bindM (async_sys a) (\<lambda>sys. Ret (f sys n))"

record ('n, 'addr, 't) std_socket =
  std_local_addr :: "'t \<Rightarrow> 'n \<Rightarrow> 'addr io_result \<times> 'n"
  std_peer_addr :: "'t \<Rightarrow> 'n \<Rightarrow> 'addr io_result \<times> 'n"
  std_nodelay :: "'t \<Rightarrow> 'n \<Rightarrow> bool io_result \<times> 'n"
  std_set_nodelay :: "'t \<Rightarrow> bool \<Rightarrow> 'n \<Rightarrow> unit io_result \<times> 'n"
  std_ttl :: "'t \<Rightarrow> 'n \<Rightarrow> 32 word io_result \<times> 'n"
  std_set_ttl :: "'t \<Rightarrow> 32 word \<Rightarrow> 'n \<Rightarrow> unit io_result \<times> 'n"
  std_debug :: "'t \<Rightarrow> string"

definition listener_local_addr where "listener_local_addr S = with_sys (std_local_addr S)"
definition listener_ttl where "listener_ttl S = with_sys (std_ttl S)"
definition listener_set_ttl where "listener_set_ttl S ttl = with_sys (\<lambda>sys. std_set_ttl S sys ttl)"
definition listener_debug where "listener_debug S a = bindM (async_sys a) (\<lambda>sys. Ret (std_debug S sys))"
definition stream_local_addr where "stream_local_addr S = with_sys (std_local_addr S)"
definition stream_peer_addr where "stream_peer_addr S = with_sys (std_peer_addr S)"
definition stream_nodelay where "stream_nodelay S = with_sys (std_nodelay S)"
definition stream_set_nodelay where "stream_set_nodelay S nodelay = with_sys (\<lambda>sys. std_set_nodelay S sys nodelay)"
definition stream_ttl where "stream_ttl S = with_sys (std_ttl S)"
definition stream_set_ttl where "stream_set_ttl S ttl = with_sys (\<lambda>sys. std_set_ttl S sys ttl)"

definition as_raw_fd :: "('t \<Rightarrow> raw_fd) \<Rightarrow> 't async \<Rightarrow> raw_fd m" where
  "as_raw_fd raw a = bindM (async_sys a) (\<lambda>sys. Ret (raw sys))"

text \<open>Conversions from and to the sockets of the standard library.\<close>

definition from_std ::
    "('s, 'w source) slab_api \<Rightarrow> ('q, 'e) poller_api \<Rightarrow> ('t \<Rightarrow> raw_fd) \<Rightarrow> bool \<Rightarrow> 't \<Rightarrow> ('s, 'q, 'e) reactor \<Rightarrow>
     ('t async io_result \<times> ('s, 'q, 'e) reactor) m" where
  "from_std A Q raw entered sys x = (if entered then Ret (async_new A Q raw sys x) else Panic NoRuntime)"

definition into_std ::
    "('s, 'w source) slab_api \<Rightarrow> ('q, 'e) poller_api \<Rightarrow> 't async \<Rightarrow> ('s, 'q, 'e) reactor \<Rightarrow>
     ('t io_result \<times> ('s, 'q, 'e) reactor) m" where
  "into_std A Q a x = async_into_sys A Q a x"

text \<open>Reading and writing: the operation on the socket is the argument.\<close>

definition poll_read where "poll_read A Q rd = poll_io A Q Read rd"
definition poll_read_vectored where "poll_read_vectored A Q rd = poll_io A Q Read rd"
definition poll_write where "poll_write A Q wr = poll_io A Q Write wr"
definition poll_write_vectored where "poll_write_vectored A Q wr = poll_io A Q Write wr"
definition poll_flush where "poll_flush A Q fl = poll_io A Q Write fl"
definition poll_peek where "poll_peek A Q pk = poll_io A Q Read pk"
definition peek where "peek A Q pk = do_io_poll A Q Read pk"

definition poll_close :: "('t \<Rightarrow> 'n \<Rightarrow> unit io_result \<times> 'n) \<Rightarrow> 't async \<Rightarrow> 'n \<Rightarrow> (unit io_result poll \<times> 'n) m" where
  "poll_close shutdown_write a n =
     bindM (async_sys a) (\<lambda>sys. let (r, n) = shutdown_write sys n in Ret (Ready r, n))"

end
