(* ===== verification/Net_Properties.thy ===== *)
theory Net_Properties
  imports Net Reactor_Properties
begin

text \<open>
  The retry loop of asynchronous sockets ends, and registers the waker when it gives up; a
  socket is registered with the reactor for exactly as long as its \<open>Async\<close> lives.
\<close>

section \<open>poll_ready, case by case\<close>

context source_slab
begin

lemma poll_ready_woke:
  assumes "slab_get A (rx_sources x) key = Some so" and "in_woke (source_interest d so)"
  shows "\<exists>x'. poll_ready A Q key d cx x = Ret (Ready (Inr ()), x', []) \<and>
    slab_get A (rx_sources x') key = Some (set_interest d ((source_interest d so)\<lparr>in_woke := False\<rparr>) so)"
  using assms by (simp add: poll_ready_def Let_def get_set)

lemma poll_ready_idle:
  assumes so: "slab_get A (rx_sources x) key = Some so" and w: "\<not> in_woke (source_interest d so)"
  shows "\<exists>p x' ws. poll_ready A Q key d cx x = Ret (p, x', ws) \<and> (\<forall>u. p \<noteq> Ready (Inr u)) \<and>
    slab_get A (rx_sources x') key = Some (set_interest d ((source_interest d so)\<lparr>in_poller := Some cx\<rparr>) so)"
proof (cases "in_poller (source_interest d so)")
  case (Some v)
  with so w show ?thesis by (simp add: poll_ready_def Let_def get_set)
next
  case None
  let ?so = "set_interest d ((source_interest d so)\<lparr>in_poller := Some cx\<rparr>) so"
  obtain r q where "update_interest Q key ?so (rx_poller x) = (r, q)"
    by (cases "update_interest Q key ?so (rx_poller x)")
  with so w None show ?thesis by (cases r) (simp_all add: poll_ready_def Let_def get_set)
qed

text \<open>The loop from a source that is not flagged ready: at most one attempt.\<close>

lemma poll_io_loop_idle:
  assumes so: "slab_get A (rx_sources x) i = Some so" and w: "\<not> in_woke (source_interest d so)"
  shows "\<exists>p x' out'. poll_io_loop A Q i d f cx n x out = Ret (p, snd (f n), x', out') \<and>
    (p = Pending \<longrightarrow> would_block (fst (f n)) \<and>
       (\<exists>so'. slab_get A (rx_sources x') i = Some so' \<and> in_poller (source_interest d so') = Some cx \<and>
          \<not> in_woke (source_interest d so'))) \<and>
    (\<forall>v. p = Ready (Inr v) \<longrightarrow> fst (f n) = Inr v)"
proof (cases "would_block (fst (f n))")
  case False
  then show ?thesis by (auto simp: poll_io_loop.simps [of A Q i d f cx n x out] case_prod_unfold)
next
  case True
  obtain p x' ws where r: "poll_ready A Q i d cx x = Ret (p, x', ws)" and p: "\<forall>u. p \<noteq> Ready (Inr u)"
    and so': "slab_get A (rx_sources x') i = Some (set_interest d ((source_interest d so)\<lparr>in_poller := Some cx\<rparr>) so)"
    using poll_ready_idle [OF so w, of Q cx] by blast
  have i: "source_interest d (set_interest d ((source_interest d so)\<lparr>in_poller := Some cx\<rparr>) so) =
      (source_interest d so)\<lparr>in_poller := Some cx\<rparr>" by (cases d) simp_all
  show ?thesis
  proof (cases p)
    case Pending
    with True r so' i w show ?thesis
      by (simp add: poll_io_loop.simps [of A Q i d f cx n x out] case_prod_unfold)
  next
    case (Ready z)
    with p obtain e where "z = Inl e" by (cases z) auto
    with Ready True r show ?thesis
      by (simp add: poll_io_loop.simps [of A Q i d f cx n x out] case_prod_unfold)
  qed
qed

end

text \<open>At most two attempts, from any source.\<close>

lemma poll_io_ends:
  assumes "slab_crate A" and "as_sys a = Some sys" and "slab_get A (rx_sources x) (as_id a) = Some so"
  shows "\<exists>p n' x' out. poll_io A Q d f cx a n x = Ret (p, n', x', out) \<and>
    (\<exists>m. n' = snd (f sys m) \<and> (m = n \<or> m = snd (f sys n) \<and> would_block (fst (f sys n)) \<and> in_woke (source_interest d so)) \<and>
       (p = Pending \<longrightarrow> would_block (fst (f sys m)) \<and>
          (\<exists>so'. slab_get A (rx_sources x') (as_id a) = Some so' \<and> in_poller (source_interest d so') = Some cx \<and>
             \<not> in_woke (source_interest d so'))) \<and>
       (\<forall>v. p = Ready (Inr v) \<longrightarrow> fst (f sys m) = Inr v))"
proof -
  have A: "source_slab A" by (rule source_slab.intro [OF assms(1)])
  have io: "poll_io A Q d f cx a n x = poll_io_loop A Q (as_id a) d (f sys) cx n x []"
    using assms(2) by (simp add: poll_io_def async_sys_def)
  show ?thesis
  proof (cases "in_woke (source_interest d so) \<and> would_block (fst (f sys n))")
    case True
    obtain x1 where r: "poll_ready A Q (as_id a) d cx x = Ret (Ready (Inr ()), x1, [])"
      and s: "slab_get A (rx_sources x1) (as_id a) = Some (set_interest d ((source_interest d so)\<lparr>in_woke := False\<rparr>) so)"
      using source_slab.poll_ready_woke [OF A assms(3)] True by blast
    have "poll_io A Q d f cx a n x = poll_io_loop A Q (as_id a) d (f sys) cx (snd (f sys n)) x1 []"
      unfolding io using True r by (subst poll_io_loop.simps) (simp add: case_prod_unfold)
    moreover have "\<not> in_woke (source_interest d (set_interest d ((source_interest d so)\<lparr>in_woke := False\<rparr>) so))"
      by (cases d) simp_all
    ultimately show ?thesis
      using source_slab.poll_io_loop_idle [OF A s, of d Q "f sys" cx "snd (f sys n)" "[]"] True by fastforce
  next
    case False
    show ?thesis
    proof (cases "in_woke (source_interest d so)")
      case True
      with False have "\<not> would_block (fst (f sys n))" by simp
      then have "poll_io A Q d f cx a n x = Ret (Ready (fst (f sys n)), snd (f sys n), x, [])"
        unfolding io by (subst poll_io_loop.simps) (simp add: case_prod_unfold)
      then show ?thesis by auto
    next
      case no: False
      then show ?thesis unfolding io
        using source_slab.poll_io_loop_idle [OF A assms(3) no, of Q "f sys" cx n "[]"] by fastforce
    qed
  qed
qed

section \<open>Properties\<close>

text \<open>
  C37. One poll of an I/O operation ends after at most two attempts: the first, and, if it would
  block although the source is flagged ready, a second. It is pending only when the last attempt
  would have blocked and the waker of this poll is registered with the reactor; it succeeds only
  with the result of the last attempt.
\<close>

theorem poll_io_terminates:
  assumes "slab_crate A" and "as_sys a = Some sys" and "slab_get A (rx_sources x) (as_id a) = Some so"
  shows "\<exists>p n' x' out. poll_io A Q d f cx a n x = Ret (p, n', x', out) \<and>
    (\<exists>m. n' = snd (f sys m) \<and> (m = n \<or> m = snd (f sys n) \<and> would_block (fst (f sys n)) \<and> in_woke (source_interest d so)) \<and>
       (p = Pending \<longrightarrow> would_block (fst (f sys m)) \<and>
          (\<exists>so'. slab_get A (rx_sources x') (as_id a) = Some so' \<and> in_poller (source_interest d so') = Some cx \<and>
             \<not> in_woke (source_interest d so'))) \<and>
       (\<forall>v. p = Ready (Inr v) \<longrightarrow> fst (f sys m) = Inr v))"
  using assms by (rule poll_io_ends)

text \<open>Reading from a socket that has nothing to read, on the reactor of the earlier example.\<close>

theorem poll_io_terminates_witness:
  "\<exists>p n' x' out. poll_io assoc_slab sim_poller Read (\<lambda>_ n. (Inl \<lparr>err_kind = WouldBlock, err_os = None\<rparr> :: nat io_result, Suc n))
     8 \<lparr>as_id = 0, as_sys = Some ()\<rparr> (0 :: nat) ex_ready = Ret (p, n', x', out)"
  using poll_io_terminates [OF assoc.slab_crate_axioms, of "\<lparr>as_id = 0, as_sys = Some ()\<rparr>" "()" ex_ready "ex_source None True"
      sim_poller Read "\<lambda>_ n. (Inl \<lparr>err_kind = WouldBlock, err_os = None\<rparr> :: nat io_result, Suc n)" 8 0]
  by (fastforce simp: ex_ready_def ex_reactor_def)

text \<open>
  A socket is registered exactly while its \<open>Async\<close> owns it: creating it adds one source,
  dropping it removes that source again and no other, and taking the socket out removes it
  once, so that the drop that follows does nothing.
\<close>

theorem async_registered_once:
  assumes "slab_crate A" and "async_new A Q raw sys x = (Inr a, x1)"
  shows "as_sys a = Some sys \<and>
    slab_get A (rx_sources x) (as_id a) = None \<and>
    (\<exists>so. slab_get A (rx_sources x1) = (slab_get A (rx_sources x))(as_id a \<mapsto> so) \<and> so_raw so = raw sys) \<and>
    (\<exists>x2. async_drop A Q a x1 = Ret x2 \<and> slab_get A (rx_sources x2) = slab_get A (rx_sources x)) \<and>
    (\<exists>r x2. async_into_sys A Q a x1 = Ret (r, x2) \<and> slab_get A (rx_sources x2) = slab_get A (rx_sources x))"
proof -
  let ?S = "slab_get A (rx_sources x)" and ?k = "slab_vacant_key A (rx_sources x)"
  let ?so = "\<lparr>so_raw = raw sys, so_reader = interest_default, so_writer = interest_default\<rparr> :: 'b source"
  have vac: "?S ?k = None" by (rule slab_crate.vacant_key [OF assms(1)])
  have a: "a = \<lparr>as_id = ?k, as_sys = Some sys\<rparr>" and x1: "slab_get A (rx_sources x1) = ?S(?k \<mapsto> ?so)"
    using assms(2) slab_crate.get_insert [OF assms(1), of "rx_sources x" ?so]
    by (auto simp: async_new_def insert_source_def Let_def split: prod.splits sum.splits)
  obtain ss where rm: "slab_remove A (rx_sources x1) ?k = Some (?so, ss)" and ss: "slab_get A ss = (?S(?k \<mapsto> ?so))(?k := None)"
    using slab_crate.remove_eq [OF assms(1), of "rx_sources x1" ?k ?so] x1 by (metis fun_upd_same)
  have restored: "slab_get A ss = ?S" unfolding ss using vac by (simp add: fun_upd_idem)
  obtain r q where d: "p_delete Q (raw sys) (rx_poller x1) = (r, q)" by (cases "p_delete Q (raw sys) (rx_poller x1)")
  have "remove_source A Q ?k x1 = Ret (r, x1\<lparr>rx_sources := ss, rx_poller := q\<rparr>)"
    using rm d by (simp add: remove_source_def)
  with a x1 vac restored show ?thesis by (auto simp: async_drop_def async_into_sys_def)
qed

theorem async_registered_once_witness:
  "\<exists>x2. async_drop assoc_slab sim_poller \<lparr>as_id = 0, as_sys = Some ()\<rparr> ex_inserted = Ret x2 \<and>
     slab_get assoc_slab (rx_sources x2) = Map.empty"
proof -
  have "async_new assoc_slab sim_poller (\<lambda>_. 5) () (ex_reactor [] [] [] :: (nat source assoc_slab, sim_kernel, epoll_event) reactor) =
      (Inr \<lparr>as_id = 0, as_sys = Some ()\<rparr>, ex_inserted)"
    by (simp add: async_new_def ex_insert)
  from async_registered_once [OF assoc.slab_crate_axioms this] show ?thesis
    by (auto simp: ex_reactor_def fun_eq_iff)
qed

section \<open>Connecting and accepting\<close>

lemma io_result_poll_cases:
  obtains "p = Pending" | e where "p = Ready (Inl e)" | "p = Ready (Inr () :: unit io_result)"
  by (cases p) (simp, metis (full_types) old.sum.exhaust unit.exhaust)

text \<open>
  Which source a future of \<open>connect\<close> owns, over the sources \<open>S0\<close> of all others.
\<close>

definition connect_owns :: "(nat \<Rightarrow> 'w source option) \<Rightarrow> ('addr, 't) connecting \<Rightarrow> (nat \<Rightarrow> 'w source option) \<Rightarrow> bool" where
  "connect_owns S0 st S = (case st of
     ConnectStart _ \<Rightarrow> S = S0
   | ConnectWaiting stream \<Rightarrow> as_sys stream \<noteq> None \<and> S0 (as_id stream) = None \<and> (\<exists>so. S = S0(as_id stream \<mapsto> so)))"

context source_slab
begin

lemma poll_ready_sources:
  assumes "slab_get A (rx_sources x) key = Some so"
  obtains p x' ws so' where "poll_ready A Q key d cx x = Ret (p, x', ws)"
    and "slab_get A (rx_sources x') = (slab_get A (rx_sources x))(key \<mapsto> so')"
proof -
  let ?i = "source_interest d so" and ?new = "set_interest d ((source_interest d so)\<lparr>in_poller := Some cx\<rparr>) so"
  obtain r q where u: "update_interest Q key ?new (rx_poller x) = (r, q)" by fastforce
  have "\<exists>p x' ws so'. poll_ready A Q key d cx x = Ret (p, x', ws) \<and>
      slab_get A (rx_sources x') = (slab_get A (rx_sources x))(key \<mapsto> so')"
  proof (cases "in_woke ?i")
    case True
    with assms show ?thesis
      by (auto simp: poll_ready_def Let_def get_set intro!: exI [of _ "set_interest d (?i\<lparr>in_woke := False\<rparr>) so"])
  next
    case False
    with assms u show ?thesis
      by (auto simp: poll_ready_def Let_def get_set split: option.split sum.split intro!: exI [of _ ?new])
  qed
  with that show thesis by blast
qed

lemma async_drop_sources:
  assumes "as_sys a \<noteq> None" and "slab_get A (rx_sources x) = S0(as_id a \<mapsto> so)" and "S0 (as_id a) = None"
  obtains x' where "async_drop A Q a x = Ret x'" and "slab_get A (rx_sources x') = S0"
proof -
  obtain ss where rm: "slab_remove A (rx_sources x) (as_id a) = Some (so, ss)"
    and ss: "slab_get A ss = (S0(as_id a \<mapsto> so))(as_id a := None)"
    using remove_eq [of "rx_sources x" "as_id a" so] assms(2) by (metis fun_upd_same)
  obtain r q where d: "p_delete Q (so_raw so) (rx_poller x) = (r, q)" by fastforce
  show thesis
  proof (rule that)
    show "async_drop A Q a x = Ret (x\<lparr>rx_sources := ss, rx_poller := q\<rparr>)"
      using rm d assms(1) by (simp add: async_drop_def remove_source_def)
    show "slab_get A (rx_sources (x\<lparr>rx_sources := ss, rx_poller := q\<rparr>)) = S0"
      using ss assms(3) by (simp add: fun_upd_idem)
  qed
qed

lemma async_new_sources:
  assumes "async_new A Q raw sys x = (r, x')"
  shows "r = Inl e \<Longrightarrow> slab_get A (rx_sources x') = slab_get A (rx_sources x)"
    and "r = Inr a \<Longrightarrow> connect_owns (slab_get A (rx_sources x)) (ConnectWaiting a) (slab_get A (rx_sources x'))"
  using assms get_insert vacant_key
  by (auto simp: async_new_def insert_source_def connect_owns_def Let_def split: prod.splits sum.splits)

lemma connect_wait_owns:
  assumes "connect_owns S0 (ConnectWaiting stream :: ('addr, 't) connecting) (slab_get A (rx_sources x))"
  shows "\<exists>p st' n' x' out. connect_wait A Q N cx stream n x = Ret (p, st' :: ('addr, 't) connecting, n', x', out) \<and>
    (case p of Pending \<Rightarrow> connect_owns S0 st' (slab_get A (rx_sources x'))
     | Ready (Inr s) \<Rightarrow> connect_owns S0 (ConnectWaiting s :: ('addr, 't) connecting) (slab_get A (rx_sources x'))
     | Ready (Inl e) \<Rightarrow> slab_get A (rx_sources x') = S0)"
proof -
  obtain so where sys: "as_sys stream \<noteq> None" and free: "S0 (as_id stream) = None"
    and S: "slab_get A (rx_sources x) = S0(as_id stream \<mapsto> so)"
    using assms by (auto simp: connect_owns_def)
  obtain p x1 ws so1 where p: "poll_ready A Q (as_id stream) Write cx x = Ret (p, x1, ws)"
    and S1: "slab_get A (rx_sources x1) = S0(as_id stream \<mapsto> so1)"
  proof (rule poll_ready_sources [of x "as_id stream" so Q Write cx])
    show "slab_get A (rx_sources x) (as_id stream) = Some so" using S by simp
  next
    fix p x' ws so'
    assume "poll_ready A Q (as_id stream) Write cx x = Ret (p, x', ws)"
      and "slab_get A (rx_sources x') = (slab_get A (rx_sources x))(as_id stream \<mapsto> so')"
    with that [of p x' ws so'] S show thesis by simp
  qed
  obtain x2 where d: "async_drop A Q stream x1 = Ret x2" and S2: "slab_get A (rx_sources x2) = S0"
    using async_drop_sources [OF sys S1 free] .
  have owns: "connect_owns S0 (ConnectWaiting stream :: ('addr, 't) connecting) (slab_get A (rx_sources x1))"
    using sys free S1 by (auto simp: connect_owns_def)
  obtain t where t: "as_sys stream = Some t" using sys by blast
  obtain r n1 where e: "tcp_take_error N t n = (r, n1)" by fastforce
  show ?thesis
  proof (rule io_result_poll_cases [of p])
    assume "p = Ready (Inr ())"
    with p d S2 owns t e show ?thesis
      by (cases r) (auto simp: connect_wait_def async_sys_def split: option.split)
  qed (use p d S2 owns in \<open>auto simp: connect_wait_def\<close>)
qed

end

text \<open>
  C21. Connecting leaks no source. Polled inside a runtime, the future of \<open>connect\<close> returns. While
  it is pending it owns one source, which goes when the future is dropped; when it succeeds that
  source is the one of the stream; when it fails, in the poller, in the connection or in reading
  its error, every source is as before.
\<close>

theorem connect_never_leaks:
  assumes "slab_crate A" and "connect_owns S0 st (slab_get A (rx_sources x))"
  shows "\<exists>p st' n' x' out. stream_connect A Q N sys_connect True cx st n x = Ret (p, st', n', x', out) \<and>
    (case p of
       Pending \<Rightarrow> connect_owns S0 st' (slab_get A (rx_sources x')) \<and>
         (\<exists>x''. connecting_drop A Q st' x' = Ret x'' \<and> slab_get A (rx_sources x'') = S0)
     | Ready (Inr stream) \<Rightarrow> as_sys stream \<noteq> None \<and> S0 (as_id stream) = None \<and>
         (\<exists>so. slab_get A (rx_sources x') = S0(as_id stream \<mapsto> so))
     | Ready (Inl e) \<Rightarrow> slab_get A (rx_sources x') = S0)"
proof -
  have A: "source_slab A" by (rule source_slab.intro [OF assms(1)])
  have drop: "\<exists>x''. connecting_drop A Q st' x' = Ret x'' \<and> slab_get A (rx_sources x'') = S0"
    if "connect_owns S0 st' (slab_get A (rx_sources x'))" for st' x'
  proof (cases st')
    case (ConnectWaiting stream)
    with that obtain so where "as_sys stream \<noteq> None" "slab_get A (rx_sources x') = S0(as_id stream \<mapsto> so)" "S0 (as_id stream) = None"
      by (auto simp: connect_owns_def)
    from source_slab.async_drop_sources [OF A this] ConnectWaiting show ?thesis by auto
  qed (use that in \<open>simp add: connect_owns_def\<close>)
  have wait: ?thesis
    if "connect_owns S0 (ConnectWaiting stream :: ('c, 'd) connecting) (slab_get A (rx_sources x1))"
      "stream_connect A Q N sys_connect True cx st n x = connect_wait A Q N cx stream n1 x1" for stream x1 n1
  proof -
    note owns = that(1) and eq = that(2)
    obtain p st' n' x' out where w: "connect_wait A Q N cx stream n1 x1 = Ret (p, st' :: ('c, 'd) connecting, n', x', out)"
      and r: "case p of Pending \<Rightarrow> connect_owns S0 st' (slab_get A (rx_sources x'))
        | Ready (Inr s) \<Rightarrow> connect_owns S0 (ConnectWaiting s :: ('c, 'd) connecting) (slab_get A (rx_sources x'))
        | Ready (Inl e) \<Rightarrow> slab_get A (rx_sources x') = S0"
      using source_slab.connect_wait_owns [OF A owns, of Q N cx n1] by blast
    show ?thesis
      unfolding eq w using r drop [of st' x']
      by (intro exI [of _ p] exI [of _ st'] exI [of _ n'] exI [of _ x'] exI [of _ out])
        (simp add: connect_owns_def split: poll.splits sum.splits)
  qed
  show ?thesis
  proof (cases st)
    case (ConnectWaiting stream)
    with wait assms(2) show ?thesis by (simp add: stream_connect_def)
  next
    case (ConnectStart addr)
    with assms(2) have S: "slab_get A (rx_sources x) = S0" by (simp add: connect_owns_def)
    obtain r n1 where c: "sys_connect addr n = (r, n1)" by fastforce
    show ?thesis
    proof (cases r)
      case (Inl e)
      with ConnectStart c S show ?thesis by (simp add: stream_connect_def)
    next
      case (Inr socket)
      obtain r2 x1 where a: "async_new A Q (tcp_raw N) socket x = (r2, x1)" by fastforce
      note new = source_slab.async_new_sources [OF A a]
      show ?thesis
      proof (cases r2)
        case Inl2: (Inl e)
        with ConnectStart c Inr a S new(1) show ?thesis by (simp add: stream_connect_def)
      next
        case Inr2: (Inr stream)
        show ?thesis
          by (rule wait [of stream x1 n1])
            (use ConnectStart c Inr a Inr2 new(2) [OF Inr2] S in \<open>simp_all add: stream_connect_def connect_owns_def\<close>)
      qed
    qed
  qed
qed

text \<open>A connection that was refused, as the socket tells when it became writable.\<close>

definition ex_refused :: io_error where
  "ex_refused = \<lparr>err_kind = OtherKind, err_os = Some 111\<rparr>"

definition ex_tcp :: "(unit, unit, unit, unit) tcp_api" where
  "ex_tcp = \<lparr>tcp_bind = (\<lambda>_ n. (Inl ex_refused, n)), tcp_listener_nonblocking = (\<lambda>_ n. (Inr (), n)),
     tcp_accept = (\<lambda>_ n. (Inl ex_refused, n)), tcp_nonblocking = (\<lambda>_ n. (Inr (), n)),
     tcp_take_error = (\<lambda>_ n. (Inr (Some ex_refused), n)), tcp_listener_raw = (\<lambda>_. 5), tcp_raw = (\<lambda>_. 5)\<rparr>"

theorem connect_never_leaks_witness:
  "\<exists>st' x'. stream_connect assoc_slab sim_kpoller ex_tcp (\<lambda>_ n. (Inr (), n)) True (9 :: nat) (ConnectWaiting \<lparr>as_id = 0, as_sys = Some ()\<rparr>) ()
      (ex_kreactor [] [] [(0, ex_both None None True)]) = Ret (Ready (Inl ex_refused), st', (), x', []) \<and>
     slab_get assoc_slab (rx_sources x') = Map.empty"
proof -
  let ?st = "ConnectWaiting \<lparr>as_id = 0, as_sys = Some ()\<rparr> :: (unit, unit) connecting"
  let ?x = "ex_kreactor [] [] [(0, ex_both None None True)]"
  have c: "stream_connect assoc_slab sim_kpoller ex_tcp (\<lambda>_ n. (Inr (), n)) True 9 ?st () ?x =
      Ret (Ready (Inl ex_refused), ?st, (), ex_kreactor [] [] [], [])"
    by (simp add: stream_connect_def connect_wait_def ex_tcp_def async_sys_def async_drop_def remove_source_def
        kqueue_delete_def event_default_def kqueue_eval)
  have "connect_owns Map.empty ?st (slab_get assoc_slab (rx_sources ?x))"
    by (auto simp: connect_owns_def ex_kreactor_def fun_eq_iff intro!: exI [of _ "ex_both None None True"])
  from connect_never_leaks [OF assoc.slab_crate_axioms this, of sim_kpoller ex_tcp "\<lambda>_ n. (Inr (), n)" 9 "()"] c
  show ?thesis by simp
qed

section \<open>The two ways to do I/O\<close>

text \<open>
  The \<open>async fn\<close> remembers where it waits: the state after a poll that gave the result \<open>p\<close>.
\<close>

abbreviation with_state ::
    "'r io_result poll \<times> 'n \<times> 'x \<times> 'w list \<Rightarrow> ('r io_result poll \<times> io_state \<times> 'n \<times> 'x \<times> 'w list) m" where
  "with_state \<equiv> (\<lambda>(p, n, x, out). Ret (p, if p = Pending then IoWaiting else IoStart, n, x, out))"

lemmas poll_io_loop_induct = poll_io_loop.raw_induct [of _ "((((((((A, Q), i), d), f), cx), n), x), out)" y for A Q i d f cx n x out y,
  unfolded prod.case, rotated 1, consumes 1]

lemma poll_io_loop_do_io:
  "poll_io_loop A Q i d f cx n x out = Some y \<Longrightarrow>
     do_io_loop A Q i d f cx IoStart n x out = bindM (Some y) with_state"
proof (induction rule: poll_io_loop_induct)
  case (1 loop A Q i d f cx n x out y)
  obtain r n1 where f: "f n = (r, n1)" by (cases "f n")
  show ?case
  proof (cases "would_block r")
    case False
    with 1(2) f show ?thesis by (auto simp: do_io_loop.simps [of A Q i d f cx IoStart])
  next
    case True
    have start: "do_io_loop A Q i d f cx IoStart n x out = do_io_loop A Q i d f cx IoWaiting n1 x out"
      using f True by (simp add: do_io_loop.simps [of A Q i d f cx IoStart])
    show ?thesis
    proof (cases "poll_ready A Q i d cx x")
      case None
      with 1(2) f True show ?thesis by simp
    next
      case (Some z)
      show ?thesis
      proof (cases z)
        case (Inl p)
        with 1(2) f True Some show ?thesis unfolding start
          by (auto simp: do_io_loop.simps [of A Q i d f cx IoWaiting])
      next
        case (Inr v)
        obtain p x1 ws where v: "v = (p, x1, ws)" by (cases v)
        show ?thesis
        proof (rule io_result_poll_cases [of p])
          assume p: "p = Ready (Inr ())"
          from 1(2) f True Some Inr v p have "loop A Q i d f cx n1 x1 (out @ ws) = Some y" by simp
          from 1(1) [OF this] p v Inr Some show ?thesis unfolding start
            by (simp add: do_io_loop.simps [of A Q i d f cx IoWaiting])
        qed (use 1(2) f True Some Inr v start in \<open>auto simp: do_io_loop.simps [of A Q i d f cx IoWaiting]\<close>)
      qed
    qed
  qed
qed

lemmas do_io_loop_induct = do_io_loop.raw_induct [of _ "(((((((((A, Q), i), d), f), cx), st), n), x), out)" y for A Q i d f cx st n x out y,
  unfolded prod.case, rotated 1, consumes 1]

lemma do_io_loop_poll_io:
  "do_io_loop A Q i d f cx st n x out = Some y \<Longrightarrow>
     (st = IoStart \<longrightarrow> poll_io_loop A Q i d f cx n x out \<noteq> None) \<and>
     (st = IoWaiting \<longrightarrow> poll_ready A Q i d cx x \<noteq> None \<and> (\<forall>x1 ws. poll_ready A Q i d cx x = Ret (Ready (Inr ()), x1, ws) \<longrightarrow>
        poll_io_loop A Q i d f cx n x1 (out @ ws) \<noteq> None))"
proof (induction rule: do_io_loop_induct)
  case (1 loop A Q i d f cx st n x out y)
  obtain r n1 where f: "f n = (r, n1)" by (cases "f n")
  show ?case
  proof (intro conjI impI allI)
    fix x1 ws
    assume st: "st = IoWaiting" and p: "poll_ready A Q i d cx x = Ret (Ready (Inr ()), x1, ws)"
    with 1(2) have "loop A Q i d f cx IoStart n x1 (out @ ws) = Some y" by simp
    from 1(1) [OF this] show "poll_io_loop A Q i d f cx n x1 (out @ ws) \<noteq> None" by simp
  next
    assume "st = IoWaiting"
    with 1(2) show "poll_ready A Q i d cx x \<noteq> None" by (cases "poll_ready A Q i d cx x") simp_all
  next
    assume st: "st = IoStart"
    show "poll_io_loop A Q i d f cx n x out \<noteq> None"
    proof (cases "would_block r")
      case True
      with 1(2) st f have "loop A Q i d f cx IoWaiting n1 x out = Some y" by simp
      note IH = 1(1) [OF this]
      from f True show ?thesis using IH
        by (subst poll_io_loop.simps) (auto split: option.split sum.split poll.split prod.split)
    qed (simp add: f poll_io_loop.simps [of A Q i d f cx n])
  qed
qed

text \<open>
  The two ways to do I/O agree: the first poll of the future of \<open>do_io\<close> is \<open>poll_io\<close>, with
  the same result, socket, reactor and wakers, the same panics and the same endless loops; it
  stops at the await exactly when the poll is pending. So is the first poll of \<open>accept()\<close>
  \<open>poll_accept\<close>.
\<close>

theorem do_io_equals_poll_io:
  "do_io_poll A Q d f cx a IoStart n x = bindM (poll_io A Q d f cx a n x) with_state \<and>
   listener_accept A Q N cx l IoStart n x =
     bindM (listener_poll_accept A Q N cx l n x) with_state"
proof
  have eq: "do_io_poll A Q d f cx a IoStart n x = bindM (poll_io A Q d f cx a n x) with_state" for d f cx a n x
  proof (cases "as_sys a")
    case (Some sys)
    show ?thesis
    proof (cases "poll_io_loop A Q (as_id a) d (f sys) cx n x []")
      case None
      then have "do_io_loop A Q (as_id a) d (f sys) cx IoStart n x [] = None"
        using do_io_loop_poll_io [of A Q "as_id a" d "f sys" cx IoStart n x "[]"] by fastforce
      with Some None show ?thesis by (simp add: do_io_poll_def poll_io_def async_sys_def)
    next
      case (Some y)
      with poll_io_loop_do_io [OF this] \<open>as_sys a = _\<close> show ?thesis by (simp add: do_io_poll_def poll_io_def async_sys_def)
    qed
  qed (simp add: do_io_poll_def poll_io_def async_sys_def)
  show "do_io_poll A Q d f cx a IoStart n x = bindM (poll_io A Q d f cx a n x) with_state" by (rule eq)
  show "listener_accept A Q N cx l IoStart n x = bindM (listener_poll_accept A Q N cx l n x) with_state"
    unfolding listener_accept_def listener_poll_accept_def eq
    by (simp add: bindM_def split: option.split sum.split poll.split prod.split)
qed

end
