(* ===== verification/Runtime.thy ===== *)
theory Runtime
  imports Executor_Invariant Clock Reactor
begin

text \<open>
  \<open>src/runtime/mod.rs\<close>: the runtime puts the parts together. The executor's parker is the
  clock, the clock's parker is the reactor; the handles that the runtime keeps besides are
  reference-counted copies of these, so the whole state is the executor. The thread-local
  runtime is a cell that \<open>enter\<close> replaces and its guard restores.
\<close>

section \<open>Construction\<close>

type_synonym ('f, 'o, 's, 'q, 'e) runtime = "('f, 'o, (('s, 'q, 'e) reactor, waker) clock) executor"

definition runtime_new ::
    "('s, waker source) slab_api \<Rightarrow> ('k \<Rightarrow> 'q io_result) \<Rightarrow> nat \<Rightarrow> 'k \<Rightarrow> ('f, 'o, 's, 'q, 'e) runtime io_result" where
  "runtime_new A poller_new th k =
     (case reactor_new A poller_new k of
        Inl e \<Rightarrow> Inl e
      | Inr reactor \<Rightarrow> Inr (executor_new th (clock_new reactor)))"

definition runtime_clock :: "('f, 'o, 's, 'q, 'e) runtime \<Rightarrow> (('s, 'q, 'e) reactor, waker) clock" where
  "runtime_clock rt = ex_parker rt"

definition runtime_reactor :: "('f, 'o, 's, 'q, 'e) runtime \<Rightarrow> ('s, 'q, 'e) reactor" where
  "runtime_reactor rt = ck_parker (runtime_clock rt)"

text \<open>An operation on the reactor changes the runtime there, and nowhere else.\<close>

definition put_reactor :: "('s, 'q, 'e) reactor \<Rightarrow> ('f, 'o, 's, 'q, 'e) runtime \<Rightarrow> ('f, 'o, 's, 'q, 'e) runtime" where
  "put_reactor x rt = rt\<lparr>ex_parker := (ex_parker rt)\<lparr>ck_parker := x\<rparr>\<rparr>"

lemma put_reactor_simps [simp]:
  "runtime_reactor (put_reactor x rt) = x" "ex_queue (put_reactor x rt) = ex_queue rt"
  "ex_next (put_reactor x rt) = ex_next rt" "ex_tasks (put_reactor x rt) = ex_tasks rt"
  "ex_woke (put_reactor x rt) = ex_woke rt" "ex_created_on (put_reactor x rt) = ex_created_on rt"
  "ck_alarms (runtime_clock (put_reactor x rt)) = ck_alarms (runtime_clock rt)"
  by (simp_all add: put_reactor_def runtime_reactor_def runtime_clock_def)

text \<open>The parker of the runtime, at an instant, keeps the contract of parkers.\<close>

definition runtime_parker ::
    "('s, waker source) slab_api \<Rightarrow> ('q, 'e) poller_api \<Rightarrow> instant \<Rightarrow> ((('s, 'q, 'e) reactor, waker) clock, waker) park_api" where
  "runtime_parker A Q now = clock_as_park (reactor_as_park A Q) now"

interpretation runtime_park: park_trait "runtime_parker A Q now" for A Q now
  unfolding runtime_parker_def by (rule park_trait.clock_park_trait [OF reactor_park.park_trait_axioms])

text \<open>
  A running program reads the time at each park. \<open>Instant::now()\<close> is a function \<open>read_now\<close> on the
  state of the operating system, which the poller carries.
\<close>

definition read_clock ::
    "('q \<Rightarrow> instant \<times> 'q) \<Rightarrow> (('s, 'q, 'e) reactor, 'w) clock \<Rightarrow> instant \<times> (('s, 'q, 'e) reactor, 'w) clock" where
  "read_clock read_now c =
     (let (now, q) = read_now (rx_poller (ck_parker c))
      in (now, c\<lparr>ck_parker := (ck_parker c)\<lparr>rx_poller := q\<rparr>\<rparr>))"

definition timed_parker ::
    "('s, waker source) slab_api \<Rightarrow> ('q, 'e) poller_api \<Rightarrow> ('q \<Rightarrow> instant \<times> 'q) \<Rightarrow>
     ((('s, 'q, 'e) reactor, waker) clock, waker) park_api" where
  "timed_parker A Q read_now =
     \<lparr>pk_park = (\<lambda>c wakers. let (now, c) = read_clock read_now c in pk_park (runtime_parker A Q now) c wakers),
      pk_park_timeout = (\<lambda>c d wakers. let (now, c) = read_clock read_now c
        in pk_park_timeout (runtime_parker A Q now) c d wakers)\<rparr>"

interpretation timed_park: park_trait "timed_parker A Q read_now" for A Q read_now
  by unfold_locales (auto simp: timed_parker_def split: prod.splits
      dest: runtime_park.park_extends runtime_park.park_timeout_extends)

section \<open>The current runtime\<close>

text \<open>\<open>enter\<close> returns the guard, which holds the runtime that was current before.\<close>

definition enter :: "'r \<Rightarrow> 'r option \<Rightarrow> 'r option \<times> 'r option" where
  "enter rt current = (current, Some rt)"

definition guard_drop :: "'r option \<Rightarrow> 'r option \<Rightarrow> 'r option" where
  "guard_drop guard current = guard"

definition unwrap_current :: "'r option \<Rightarrow> 'r m" where
  "unwrap_current current = expectM NoRuntime current"

text \<open>\<open>Runtime::spawn\<close>, and the free function \<open>spawn\<close> of \<open>src/task.rs\<close> on the current runtime.\<close>

definition runtime_spawn :: "'f \<Rightarrow> ('f, 'o, 'p) executor \<Rightarrow> join_handle \<times> ('f, 'o, 'p) executor" where
  "runtime_spawn future e = (let (t, e) = spawn future e in (join_handle_new (Task t), e))"

definition spawn_current :: "'r option \<Rightarrow> 'f \<Rightarrow> ('f, 'o, 'p) executor \<Rightarrow> (join_handle \<times> ('f, 'o, 'p) executor) m" where
  "spawn_current current future e = bindM (unwrap_current current) (\<lambda>_. Ret (runtime_spawn future e))"

text \<open>
  The future that \<open>Runtime::block_on\<close> runs: its first poll enters the runtime, and when the
  inner future is ready the guard is dropped.
\<close>

datatype ('r, 'g) entering = EnterStart 'g | EnterRunning "'r option" 'g

definition entering_poll ::
    "'r \<Rightarrow> ('g \<Rightarrow> waker \<Rightarrow> 'r option \<Rightarrow> ('f, 'o, 'p) executor \<Rightarrow> ('a poll \<times> 'g \<times> 'r option \<times> ('f, 'o, 'p) executor) m) \<Rightarrow>
     ('r, 'g) entering \<Rightarrow> waker \<Rightarrow> 'r option \<Rightarrow> ('f, 'o, 'p) executor \<Rightarrow>
     ('a poll \<times> ('r, 'g) entering \<times> 'r option \<times> ('f, 'o, 'p) executor) m" where
  "entering_poll rt poll st cx current e =
     (let (guard, current, g) = (case st of
            EnterStart g \<Rightarrow> (case enter rt current of (guard, current) \<Rightarrow> (guard, current, g))
          | EnterRunning guard g \<Rightarrow> (guard, current, g))
      in bindM (poll g cx current e) (\<lambda>(r, g, current, e).
           case r of
             Pending \<Rightarrow> Ret (Pending, EnterRunning guard g, current, e)
           | Ready val \<Rightarrow> Ret (Ready val, EnterRunning guard g, guard_drop guard current, e)))"

text \<open>
  \<open>Runtime::block_on\<close>: the state of the main future and the current runtime of the thread are
  what the executor's loop carries along. The free function \<open>block_on\<close> does so on a new runtime.
\<close>

definition runtime_block_on ::
    "bool \<Rightarrow> nat \<Rightarrow> ('f, 'o, 'p) future_api \<Rightarrow> ('p, waker) park_api \<Rightarrow> 'r \<Rightarrow>
     ('g \<Rightarrow> waker \<Rightarrow> 'r option \<Rightarrow> ('f, 'o, 'p) executor \<Rightarrow> ('a poll \<times> 'g \<times> 'r option \<times> ('f, 'o, 'p) executor) m) \<Rightarrow>
     'g \<Rightarrow> 'r option \<Rightarrow> ('f, 'o, 'p) executor \<Rightarrow> ('a \<times> 'r option \<times> ('f, 'o, 'p) executor) m" where
  "runtime_block_on debug th X P rt poll g current e =
     bindM (block_on debug th X P
         (\<lambda>(st, current) cx e. bindM (entering_poll rt poll st cx current e) (\<lambda>(r, st, current, e).
            Ret (map_poll_value (\<lambda>val. (val, current)) r, (st, current), e)))
         (EnterStart g, current) e)
       (\<lambda>((val, current), e). Ret (val, current, e))"

definition block_on_fresh ::
    "bool \<Rightarrow> nat \<Rightarrow> ('s, waker source) slab_api \<Rightarrow> ('k \<Rightarrow> 'q io_result) \<Rightarrow> ('q, 'e) poller_api \<Rightarrow> ('q \<Rightarrow> instant \<times> 'q) \<Rightarrow>
     ('f, 'o, (('s, 'q, 'e) reactor, waker) clock) future_api \<Rightarrow> 'r \<Rightarrow>
     ('g \<Rightarrow> waker \<Rightarrow> 'r option \<Rightarrow> ('f, 'o, 's, 'q, 'e) runtime \<Rightarrow>
       ('a poll \<times> 'g \<times> 'r option \<times> ('f, 'o, 's, 'q, 'e) runtime) m) \<Rightarrow>
     'g \<Rightarrow> 'r option \<Rightarrow> 'k \<Rightarrow> ('a \<times> 'r option \<times> ('f, 'o, 's, 'q, 'e) runtime) m" where
  "block_on_fresh debug th A poller_new Q read_now X rt poll g current k =
     (case runtime_new A poller_new th k of
        Inl _ \<Rightarrow> Panic RuntimeFailed
      | Inr e \<Rightarrow> runtime_block_on debug th X (timed_parker A Q read_now) rt poll g current e)"

section \<open>Nesting\<close>

text \<open>
  Guards dropped in the reverse order of their creation restore the context; dropped in the
  order of their creation they leave the outer runtime current after both guards are gone.
\<close>

lemma enter_nested:
  assumes "enter a current = (g1, c1)" and "enter b c1 = (g2, c2)"
  shows "guard_drop g1 (guard_drop g2 c2) = current"
  using assms by (simp add: enter_def guard_drop_def)

lemma enter_out_of_order:
  assumes "enter a current = (g1, c1)" and "enter b c1 = (g2, c2)"
  shows "guard_drop g2 (guard_drop g1 c2) = Some a"
  using assms by (auto simp: enter_def guard_drop_def)

text \<open>
  The main future of \<open>block_on\<close> sees its runtime as the current one in its first poll, and
  restores the former one when it completes.
\<close>

lemma entering_poll_first:
  "entering_poll rt poll (EnterStart g) cx current e =
     bindM (poll g cx (Some rt) e) (\<lambda>(r, g, c, e). case r of
         Pending \<Rightarrow> Ret (Pending, EnterRunning current g, c, e)
       | Ready val \<Rightarrow> Ret (Ready val, EnterRunning current g, current, e))"
  by (auto simp: entering_poll_def enter_def guard_drop_def bindM_def split: option.splits sum.splits poll.splits)

lemma entering_poll_Ready:
  assumes "entering_poll rt poll (EnterRunning guard g) cx current e = Ret (Ready val, st, c, e')"
  shows "c = guard"
proof -
  obtain r g' c' e1 where p: "poll g cx current e = Ret (r, g', c', e1)"
    using assms by (auto simp: entering_poll_def bindM_Ret_conv)
  with assms show ?thesis by (cases r) (auto simp: entering_poll_def guard_drop_def)
qed

section \<open>The result of block_on\<close>

text \<open>
  A property of the main future's state that its polls keep holds for its last poll, the one that
  is ready, and after it nothing else happens.
\<close>

lemmas block_on_loop_induct = block_on_loop.raw_induct
  [of "\<lambda>((((((debug, th), X), P), main_poll), g), e) y. R debug th X P main_poll g e y" for R,
   unfolded prod.case, rotated 1, consumes 1]

lemma block_on_loop_ends:
  assumes "block_on_loop debug th X P main_poll g e = Ret (v, e')" and "I g"
    and step: "\<And>g e r g' e'. I g \<Longrightarrow> main_poll g MainWaker e = Ret (r, g', e') \<Longrightarrow> I g'"
  shows "\<exists>g1 e1 g2. I g1 \<and> main_poll g1 MainWaker e1 = Ret (Ready v, g2, e')"
proof -
  have "\<lbrakk>block_on_loop debug th X P main_poll g e = Some y; y = Inr (v, e'); I g;
      \<And>g e r g' e'. I g \<Longrightarrow> main_poll g MainWaker e = Ret (r, g', e') \<Longrightarrow> I g'\<rbrakk> \<Longrightarrow>
      \<exists>g1 e1 g2. I g1 \<and> main_poll g1 MainWaker e1 = Ret (Ready v, g2, e')" for y
  proof (induction rule: block_on_loop_induct)
    case (1 loop debug th X P main_poll g e y)
    have go: ?case if "loop debug th X P main_poll g1 e1 = Some y" "I g1" for g1 e1
      using 1(1) [OF that(1) 1(3) that(2) 1(5)] .
    have tick: ?case if t: "(case tick debug th X P polls_per_tick e1 of None \<Rightarrow> None
        | Some (Inl p) \<Rightarrow> Panic p | Some (Inr (_, e)) \<Rightarrow> loop debug th X P main_poll g1 e) = Some y"
        and g1: "I g1" for g1 e1
    proof -
      obtain ts e2 where "tick debug th X P polls_per_tick e1 = Ret (ts, e2)"
        using t 1(3) by (auto split: option.splits sum.splits)
      with t go [OF _ g1] show ?thesis by simp
    qed
    show ?case
    proof (cases "ex_woke e")
      case False
      with 1(2) tick [OF _ 1(4)] show ?thesis by simp
    next
      case True
      then obtain r g1 e1 where p: "main_poll g MainWaker (e\<lparr>ex_woke := False\<rparr>) = Ret (r, g1, e1)"
        using 1(2,3) by (auto split: option.splits sum.splits)
      show ?thesis
      proof (cases r)
        case Pending
        with True p 1(2) tick [OF _ 1(5) [OF 1(4) p]] show ?thesis by simp
      next
        case (Ready u)
        with True p 1(2,3) 1(4) show ?thesis by auto
      qed
    qed
  qed
  with assms show ?thesis by blast
qed

lemma entering_poll_step:
  assumes "entering_poll rt poll st cx c e = Ret (r, st', c', e')"
    and "(\<exists>g. st = EnterStart g \<and> c = current) \<or> (\<exists>g. st = EnterRunning current g)"
  shows "\<exists>g1 c1 g2 c2. poll g1 cx c1 e = Ret (r, g2, c2, e') \<and> st' = EnterRunning current g2 \<and>
    c' = (case r of Pending \<Rightarrow> c2 | Ready _ \<Rightarrow> current)"
proof -
  obtain g1 c1 where "(case st of
       EnterStart g \<Rightarrow> (case enter rt c of (guard, c) \<Rightarrow> (guard, c, g))
     | EnterRunning guard g \<Rightarrow> (guard, c, g)) = (current, c1, g1)"
    using assms(2) by (auto simp: enter_def)
  with assms(1) obtain r1 g2 c2 e2 where p: "poll g1 cx c1 e = Ret (r1, g2, c2, e2)"
    and "(case r1 of Pending \<Rightarrow> Ret (Pending, EnterRunning current g2, c2, e2)
      | Ready val \<Rightarrow> Ret (Ready val, EnterRunning current g2, guard_drop current c2, e2)) = Ret (r, st', c', e')"
    by (auto simp: entering_poll_def bindM_Ret_conv)
  with p show ?thesis
    by (intro exI [of _ g1] exI [of _ c1] exI [of _ g2] exI [of _ c2]) (cases r1, auto simp: guard_drop_def)
qed

end
