(* ===== verification/Runtime_Properties.thy ===== *)
theory Runtime_Properties
  imports Runtime Executor_Properties Timer Reactor_Properties
begin

text \<open>
  The runtime as a whole: what the executor, the clock and the reactor do together. A park of the
  runtime passes from the executor through the clock to the reactor and its poller; the wakers
  that come back put tasks into the executor's queue.
\<close>

section \<open>Wakers reach the queue\<close>

lemma future_not_done: "executor_inv e \<Longrightarrow> tk_payload (ex_tasks e t) = Future f \<Longrightarrow> tk_state (ex_tasks e t) \<noteq> Done"
  by (auto simp: executor_inv_def)

lemma rc_wake_queued:
  assumes "executor_inv e" and "tk_payload (ex_tasks e t) = Future f"
  shows "t \<in> set (ex_queue (rc_wake (TaskWaker t) e))"
proof (cases "tk_state (ex_tasks e t)")
  case Scheduled
  with assms(1) show ?thesis by (auto simp: executor_inv_def)
qed (use future_not_done [OF assms] in \<open>simp_all add: Let_def\<close>)

lemma wake_all_calls:
  assumes "executor_inv e" and "wake_all debug (ex_created_on e) ws e = Ret e'"
  shows "TaskWaker t \<in> set ws \<Longrightarrow> tk_payload (ex_tasks e t) = Future f \<Longrightarrow> t \<in> set (ex_queue e')"
    and "MainWaker \<in> set ws \<Longrightarrow> ex_woke e'"
    and "ex_parker e' = ex_parker e" and "tk_payload (ex_tasks e' t) = tk_payload (ex_tasks e t)"
proof -
  have "(TaskWaker t \<in> set ws \<longrightarrow> tk_payload (ex_tasks e t) = Future f \<longrightarrow> t \<in> set (ex_queue e')) \<and>
      (MainWaker \<in> set ws \<longrightarrow> ex_woke e') \<and> ex_parker e' = ex_parker e \<and>
      tk_payload (ex_tasks e' t) = tk_payload (ex_tasks e t)"
    using assms
  proof (induction ws arbitrary: e)
    case (Cons w ws)
    let ?e = "rc_wake w e"
    have w: "wake_all debug (ex_created_on ?e) ws ?e = Ret e'" using Cons.prems by (simp add: util_wake_same_thread)
    have inv: "executor_inv ?e" by (rule rc_wake_keeps [OF Cons.prems(1)])
    obtain new where new: "ex_queue e' = ex_queue ?e @ new" and woke: "ex_woke ?e \<longrightarrow> ex_woke e'"
      using wake_all_keeps [OF w inv] by (auto simp: keeps_def)
    have "t \<in> set (ex_queue e')" if "w = TaskWaker t" "tk_payload (ex_tasks e t) = Future f"
      using rc_wake_queued [OF Cons.prems(1) that(2)] that(1) new by simp
    moreover have "ex_woke e'" if "w = MainWaker" using woke that by simp
    ultimately show ?case using Cons.IH [OF inv w] by auto
  qed simp
  then show "TaskWaker t \<in> set ws \<Longrightarrow> tk_payload (ex_tasks e t) = Future f \<Longrightarrow> t \<in> set (ex_queue e')"
    and "MainWaker \<in> set ws \<Longrightarrow> ex_woke e'"
    and "ex_parker e' = ex_parker e" and "tk_payload (ex_tasks e' t) = tk_payload (ex_tasks e t)"
    by blast+
qed

lemma park_and_wake_calls:
  assumes "executor_inv e" and "park_and_wake debug (ex_created_on e) park e = Ret e'"
    and "park (ex_parker e) [] = (r, ws, p)"
  shows "TaskWaker t \<in> set ws \<Longrightarrow> tk_payload (ex_tasks e t) = Future f \<Longrightarrow> t \<in> set (ex_queue e')"
    and "MainWaker \<in> set ws \<Longrightarrow> ex_woke e'" and "ex_parker e' = p" and "r = Inr ()"
proof -
  let ?e = "e\<lparr>ex_parker := p\<rparr>"
  have inv: "executor_inv ?e" using assms(1) by (simp add: executor_inv_def)
  have w: "wake_all debug (ex_created_on ?e) ws ?e = Ret e'" and "r = Inr ()"
    using assms(2,3) by (auto simp: park_and_wake_def split: sum.splits)
  then show "r = Inr ()" by simp
  show "TaskWaker t \<in> set ws \<Longrightarrow> tk_payload (ex_tasks e t) = Future f \<Longrightarrow> t \<in> set (ex_queue e')"
    using wake_all_calls(1) [OF inv w] by simp
  show "MainWaker \<in> set ws \<Longrightarrow> ex_woke e'" by (rule wake_all_calls(2) [OF inv w])
  show "ex_parker e' = p" using wake_all_calls(3) [OF inv w] by simp
qed

text \<open>Reading the clock changes neither the alarms nor the sources.\<close>

lemma read_clock_alarms:
  assumes "read_clock read_now c = (now, c0)"
  shows "alarms c0 = alarms c" and "clock_ok c \<Longrightarrow> clock_ok c0"
  using assms by (auto simp: read_clock_def split: prod.splits)

lemma read_clock_sources:
  "read_clock read_now (runtime_clock rt) = (now, c0) \<Longrightarrow> rx_sources (ck_parker c0) = rx_sources (runtime_reactor rt)"
  by (auto simp: read_clock_def runtime_reactor_def split: prod.splits)

section \<open>A concrete runtime\<close>

text \<open>
  One task that never ends, idle, and a clock with one alarm for it at 1.5 ms, on a reactor with
  one source, descriptor 5, which is readable and for which that task waits.
\<close>

definition stuck_futures :: "(unit, unit, 'p) future_api" where
  "stuck_futures = \<lparr>f_poll = (\<lambda>f w e. Ret (Pending, f, e)), f_drop = (\<lambda>_ e. Ret e)\<rparr>"

lemma stuck_futures_ok: "futures stuck_futures"
  by unfold_locales (auto simp: stuck_futures_def intro: acts.act_none)

definition ex_idle :: "'p \<Rightarrow> (unit, unit, 'p) executor" where
  "ex_idle p = (executor_new 0 p)\<lparr>ex_next := 1, ex_tasks := (ex_tasks (executor_new 0 p :: (unit, unit, 'p) executor))(0 :=
     \<lparr>tk_awaiter = None, tk_state = Idle, tk_payload = Future (), tk_borrowed = False\<rparr>)\<rparr>"

lemma ex_idle_reach: "executor_reach debug 0 stuck_futures (ex_idle (p :: 'a))"
proof -
  obtain e :: "(unit, unit, 'a) executor" where e: "spawn () (executor_new 0 p) = (0, e)"
    by (simp add: spawn_def executor_new_def Let_def)
  have "executor_reach debug 0 stuck_futures e"
    by (rule executor_reach.acted [OF executor_reach.start acts.act_spawn [OF acts.act_none e]])
  then show ?thesis
    by (rule executor_reach.ran [of _ _ _ _ 0 "[]"])
      (use e in \<open>auto simp: ex_idle_def stuck_futures_def run_unfold executor_eval\<close>)
qed

definition ex_clock :: "((waker source assoc_slab, sim_kernel, epoll_event) reactor, waker) clock" where
  "ex_clock = \<lparr>ck_parker = \<lparr>rx_poller = \<lparr>sk_regs = [(5, \<lparr>ee_events = 0x40002001, ee_u64 = 0\<rparr>)], sk_ready = [(5, 1)]\<rparr>,
       rx_events = [], rx_sources = [(0, \<lparr>so_raw = 5, so_reader = \<lparr>in_poller = Some (TaskWaker 0), in_woke = False\<rparr>,
         so_writer = interest_default\<rparr>)]\<rparr>,
     ck_next_alarm = 1, ck_alarms = [((1500000, 0), TaskWaker 0)]\<rparr>"

text \<open>The reactor of this clock comes about by inserting the source and polling it.\<close>

lemma ex_clock_reach: "owned_reach assoc_slab sim_poller (ck_parker ex_clock)"
proof -
  let ?reach = "owned_reach assoc_slab sim_poller" and ?q = "\<lambda>regs. \<lparr>sk_regs = regs, sk_ready = [(5, 1)]\<rparr>"
  let ?so = "\<lambda>w. \<lparr>so_raw = 5, so_reader = \<lparr>in_poller = w, in_woke = False\<rparr>, so_writer = interest_default\<rparr> :: waker source"
  let ?x0 = "\<lparr>rx_poller = ?q [], rx_events = [], rx_sources = []\<rparr> :: (waker source assoc_slab, sim_kernel, epoll_event) reactor"
  let ?x1 = "\<lparr>rx_poller = ?q [(5, \<lparr>ee_events = 0x40000000, ee_u64 = 0\<rparr>)], rx_events = [], rx_sources = [(0, ?so None)]\<rparr>
    :: (waker source assoc_slab, sim_kernel, epoll_event) reactor"
  have own: "distinct_raws (slab_get assoc_slab [(0, so)])" for so :: "waker source"
    by (auto simp: distinct_raws_def split: if_splits)
  have "?reach ?x0" by (rule owned_reach.init [of _ "?q []"]) (simp add: reactor_new_def)
  moreover have "reactor_step assoc_slab sim_poller ?x0 [] ?x1"
    by (rule reactor_step.insert [of _ _ _ 5 "Inr 0"]) (simp_all add: reactor_eval assoc_vacant_key_def)
  ultimately have "?reach ?x1" by (rule owned_reach.step) (simp only: reactor.simps own)
  moreover have "reactor_step assoc_slab sim_poller ?x1 [] (ck_parker ex_clock)"
    by (rule reactor_step.poll [of _ _ 0 Read "TaskWaker 0" _ Pending]) (simp_all add: reactor_eval ex_clock_def)
  ultimately show ?thesis by (rule owned_reach.step) (simp add: ex_clock_def own del: assoc_slab_simps)
qed

definition so_of :: "((waker source assoc_slab, 'q, 'e) reactor, 'w) clock \<Rightarrow> waker source" where
  "so_of c = snd (hd (rx_sources (ck_parker c)))"

lemma ex_clock_park: "now \<in> {0, 2000000} \<Longrightarrow> fst (pk_park (timed_parker assoc_slab sim_poller (Pair now)) ex_clock []) = Inr ()"
  by (auto simp: timed_parker_def read_clock_def runtime_parker_def clock_park_def extend_with_expired_def bt_split_off_def bt_first_key_def bt_into_values_def
     reactor_as_park_def ex_clock_def reactor_eval less_prod_def)

section \<open>From the clock and the kernel to the queue\<close>

text \<open>
  C3. A timer reaches its task: when the runtime parks (without a limit, or with the zero timeout
  after a full tick) at or after the deadline of a sleep whose alarm carries the waker of a live
  task, then afterwards that task is in the queue, the alarm is gone from the clock, and from
  then on polling the sleep is ready with its deadline.
\<close>

theorem timer_reaches_task:
  assumes "futures X" and "executor_reach debug th X rt" and "clock_ok (runtime_clock rt)"
    and "alarms (runtime_clock rt) (sl_deadline sl, i) = Some (TaskWaker t)"
    and "tk_payload (ex_tasks rt t) = Future f"
    and "sl_deadline sl \<le> fst (read_clock read_now (runtime_clock rt))" and "sl_deadline sl \<le> later"
    and "park_and_wake debug th (pk_park (timed_parker A Q read_now)) rt = Ret rt' \<or>
      park_and_wake debug th (\<lambda>p. pk_park_timeout (timed_parker A Q read_now) p 0) rt = Ret rt'"
  shows "t \<in> set (ex_queue rt') \<and> alarms (runtime_clock rt') (sl_deadline sl, i) = None \<and>
    sleep_poll oc later cx sl (runtime_clock rt') = Ret (Ready (sl_deadline sl), sl, runtime_clock rt')"
proof -
  have inv: "executor_inv rt" and th: "th = ex_created_on rt"
    using futures.executor_reach_inv [OF assms(1,2)] by simp_all
  obtain now c0 where c0: "read_clock read_now (runtime_clock rt) = (now, c0)" by fastforce
  obtain park where p: "park_and_wake debug (ex_created_on rt) park rt = Ret rt'"
    and "park = pk_park (timed_parker A Q read_now) \<or> park = (\<lambda>p. pk_park_timeout (timed_parker A Q read_now) p 0)"
    using assms(8) by (auto simp: th)
  moreover obtain r ws c where c: "park (ex_parker rt) [] = (r, ws, c)" by (metis prod_cases3)
  ultimately have "clock_park (reactor_as_park A Q) now c0 [] = (r, ws, c) \<or>
      clock_park_timeout (reactor_as_park A Q) now c0 0 [] = (r, ws, c)"
    using c0 by (auto simp: runtime_clock_def timed_parker_def runtime_parker_def)
  note S = park_trait.clock_park_spec [OF reactor_park.park_trait_axioms read_clock_alarms(2) [OF c0 assms(3)] this]
  note P = park_and_wake_calls [OF inv p c]
  have due: "sl_deadline sl \<le> now" using assms(6) c0 by simp
  have "TaskWaker t \<in> set ws" by (rule S(4) [OF due]) (use assms(4) read_clock_alarms(1) [OF c0] in simp)
  then have "t \<in> set (ex_queue rt')" using P(1) assms(5) by blast
  moreover have "runtime_clock rt' = c" using P(3) by (simp add: runtime_clock_def)
  ultimately show ?thesis using S(1) due assms(7) by (simp add: sleep_poll_def)
qed

theorem timer_reaches_task_witness:
  "\<exists>rt'. park_and_wake True 0 (pk_park (timed_parker assoc_slab sim_poller (Pair 2000000))) (ex_idle ex_clock) = Ret rt' \<and>
     0 \<in> set (ex_queue rt')"
proof -
  have "returns (park_and_wake True 0 (pk_park (timed_parker assoc_slab sim_poller (Pair 2000000))) (ex_idle ex_clock))"
    by (rule park_and_wake_returns) (simp_all add: ex_clock_park ex_idle_def executor_new_def)
  then obtain rt' where r: "park_and_wake True 0 (pk_park (timed_parker assoc_slab sim_poller (Pair 2000000))) (ex_idle ex_clock) = Ret rt'"
    by (auto simp: returns_conv)
  have "runtime_clock (ex_idle ex_clock) = ex_clock" by (simp add: runtime_clock_def ex_idle_def executor_new_def)
  moreover have "clock_ok ex_clock" "alarms ex_clock (1500000, 0) = Some (TaskWaker 0)"
    by (simp_all add: clock_ok_def bt_ok_def alarms_def ex_clock_def)
  moreover have "tk_payload (ex_tasks (ex_idle ex_clock) 0) = Future ()" by (simp add: ex_idle_def)
  ultimately have "0 \<in> set (ex_queue rt')"
    using timer_reaches_task [OF stuck_futures_ok ex_idle_reach [of True ex_clock], of "\<lparr>sl_deadline = 1500000, sl_alarm = Some (0, TaskWaker 0)\<rparr>" 0 0 "()" "Pair 2000000" 2000000 assoc_slab sim_poller rt']
     r by (simp add: read_clock_def)
  with r show ?thesis by blast
qed

text \<open>One park of the runtime is one poll of the reactor, with some timeout.\<close>

lemma park_polls_reactor:
  assumes "executor_inv rt" and "read_clock read_now (runtime_clock rt) = (now, c0)"
    and "park_and_wake debug (ex_created_on rt) (pk_park (timed_parker A Q read_now)) rt = Ret rt' \<or>
      park_and_wake debug (ex_created_on rt) (\<lambda>p. pk_park_timeout (timed_parker A Q read_now) p 0) rt = Ret rt'"
  obtains tm ws1 ws where "reactor_poll A Q tm (ck_parker c0) ws1 = (Inr (), ws, runtime_reactor rt')"
    and "\<And>t f. TaskWaker t \<in> set ws \<Longrightarrow> tk_payload (ex_tasks rt t) = Future f \<Longrightarrow> t \<in> set (ex_queue rt')"
proof -
  obtain park where p: "park_and_wake debug (ex_created_on rt) park rt = Ret rt'"
    and "park = pk_park (timed_parker A Q read_now) \<or> park = (\<lambda>p. pk_park_timeout (timed_parker A Q read_now) p 0)"
    using assms(3) by auto
  moreover obtain r ws c where c: "park (ex_parker rt) [] = (r, ws, c)" by (metis prod_cases3)
  ultimately have park: "clock_park (reactor_as_park A Q) now c0 [] = (r, ws, c) \<or>
      clock_park_timeout (reactor_as_park A Q) now c0 0 [] = (r, ws, c)"
    using assms(2) by (auto simp: runtime_clock_def timed_parker_def runtime_parker_def)
  note P = park_and_wake_calls [OF assms(1) p c]
  obtain tm ws1 c1 x tm' where e: "extend_with_expired now [] c0 = (tm, ws1, c1)" and c': "c = c1\<lparr>ck_parker := x\<rparr>"
    and "reactor_poll A Q tm' (ck_parker c1) ws1 = (r, ws, x)"
    using park clock_park_result(1) [of "reactor_as_park A Q" now c0 "[]"]
      clock_park_result(2) [of "reactor_as_park A Q" now c0 0 "[]"]
    by (fastforce simp: reactor_as_park_def split: option.splits)
  moreover have "ck_parker c1 = ck_parker c0"
    using e by (auto simp: extend_with_expired_def Let_def split: prod.splits if_splits)
  moreover have "runtime_reactor rt' = x" using P(3) c' by (simp add: runtime_reactor_def runtime_clock_def)
  ultimately have "reactor_poll A Q tm' (ck_parker c0) ws1 = (Inr (), ws, runtime_reactor rt')"
    using P(4) by simp
  with P(1) that show thesis by blast
qed

text \<open>Reading the time does nothing to what the poller is armed for.\<close>

lemma waiting_at_park:
  assumes "reporting_env A Q arm ready" and "owned_reach A Q (runtime_reactor rt)"
    and "\<And>q. arm (snd (read_now q)) = arm q" and "read_clock read_now (runtime_clock rt) = (now, c0)"
  shows "waiting_inv {} (slab_get A (rx_sources (ck_parker c0))) (arm (rx_poller (ck_parker c0)))"
proof -
  have "waiting_env A Q arm" using assms(1) by (rule reporting_env.axioms)
  from waiting_env.owned_reach_waiting [OF this assms(2)] assms(3)
  have "waiting_inv {} (slab_get A (rx_sources (runtime_reactor rt))) (arm (snd (read_now (rx_poller (runtime_reactor rt)))))"
    by simp
  moreover have "rx_poller (ck_parker c0) = snd (read_now (rx_poller (runtime_reactor rt)))"
    using assms(4) by (auto simp: read_clock_def runtime_reactor_def split: prod.splits)
  ultimately show ?thesis using read_clock_sources [OF assms(4)] by simp
qed

text \<open>
  C2. Readiness reaches the task: when a live task waits in a direction of a source whose
  descriptor is ready in that direction, then after the next park of the runtime (without a
  limit, or with the zero timeout after a full tick) the task is in the queue, and its next
  \<open>poll_ready\<close> in that direction is ready. This holds on every poller that keeps the contract
  \<open>reporting_poller\<close>, epoll and kqueue, as long as polling it succeeds with room for all events.
\<close>

theorem event_reaches_task:
  assumes "futures X" and "slab_crate A" and "reporting_poller Q arm ready"
    and "executor_reach debug th X rt" and "owned_reach A Q (runtime_reactor rt)"
    and "slab_get A (rx_sources (runtime_reactor rt)) k = Some so"
    and "in_poller (source_interest d so) = Some (TaskWaker t)" and "tk_payload (ex_tasks rt t) = Future f"
    and "\<forall>q. arm (snd (read_now q)) = arm q"
    and "read_clock read_now (runtime_clock rt) = (now, c0)" and "ready (rx_poller (ck_parker c0)) (so_raw so) d"
    and "\<forall>tm. \<exists>es q. p_poll Q initial_events tm (rx_poller (ck_parker c0)) = (Inr es, q) \<and> length es < initial_events"
    and "park_and_wake debug th (pk_park (timed_parker A Q read_now)) rt = Ret rt' \<or>
      park_and_wake debug th (\<lambda>p. pk_park_timeout (timed_parker A Q read_now) p 0) rt = Ret rt'"
  shows "t \<in> set (ex_queue rt') \<and>
    (\<exists>x. poll_ready A Q k d cx (runtime_reactor rt') = Ret (Ready (Inr ()), x, []))"
proof -
  have inv: "executor_inv rt" and th: "th = ex_created_on rt"
    using futures.executor_reach_inv [OF assms(1,4)] by simp_all
  have env: "reporting_env A Q arm ready"
    using assms(2,3) by (intro reporting_env.intro waiting_env.intro source_slab.intro) (simp_all add: reporting_poller.axioms)
  obtain tm ws1 ws where poll: "reactor_poll A Q tm (ck_parker c0) ws1 = (Inr (), ws, runtime_reactor rt')"
    and queued: "\<And>t f. TaskWaker t \<in> set ws \<Longrightarrow> tk_payload (ex_tasks rt t) = Future f \<Longrightarrow> t \<in> set (ex_queue rt')"
    using park_polls_reactor [OF inv assms(10) assms(13) [unfolded th]] by blast
  obtain es q where es: "p_poll Q initial_events tm (rx_poller (ck_parker c0)) = (Inr es, q)" "length es < initial_events"
    using assms(12) by blast
  have so: "slab_get A (rx_sources (ck_parker c0)) k = Some so"
    using assms(6) read_clock_sources [OF assms(10)] by simp
  have "waiting_inv {} (slab_get A (rx_sources (ck_parker c0))) (arm (rx_poller (ck_parker c0)))"
    by (rule waiting_at_park [OF env assms(5) _ assms(10)]) (use assms(9) in blast)
  from reporting_env.ready_wakes_inv [OF env this so assms(7,11) es poll] queued [OF _ assms(8)]
  show ?thesis by blast
qed

theorem event_reaches_task_witness:
  "\<exists>rt'. park_and_wake True 0 (pk_park (timed_parker assoc_slab sim_poller (Pair 0))) (ex_idle ex_clock) = Ret rt' \<and>
     0 \<in> set (ex_queue rt')"
proof -
  have "returns (park_and_wake True 0 (pk_park (timed_parker assoc_slab sim_poller (Pair 0))) (ex_idle ex_clock))"
    by (rule park_and_wake_returns) (simp_all add: ex_clock_park ex_idle_def executor_new_def)
  then obtain rt' where r: "park_and_wake True 0 (pk_park (timed_parker assoc_slab sim_poller (Pair 0))) (ex_idle ex_clock) = Ret rt'"
    by (auto simp: returns_conv)
  have c: "runtime_clock (ex_idle ex_clock) = ex_clock" "runtime_reactor (ex_idle ex_clock) = ck_parker ex_clock"
    "tk_payload (ex_tasks (ex_idle ex_clock) 0) = Future ()"
    by (simp_all add: runtime_clock_def runtime_reactor_def ex_idle_def executor_new_def)
  have n: "read_clock (Pair 0) (runtime_clock (ex_idle ex_clock)) = (0, ex_clock)"
    by (simp add: c read_clock_def)
  have q: "\<forall>tm. \<exists>es q. p_poll sim_poller initial_events tm (rx_poller (ck_parker ex_clock)) = (Inr es, q) \<and> length es < initial_events"
    by (simp add: reactor_eval ex_clock_def)
  have reach: "owned_reach assoc_slab sim_poller (runtime_reactor (ex_idle ex_clock))"
    unfolding c by (rule ex_clock_reach)
  have "0 \<in> set (ex_queue rt')"
    by (rule conjunct1 [OF event_reaches_task [OF stuck_futures_ok assoc.slab_crate_axioms linux_flags.sim_reporting
       ex_idle_reach [of True ex_clock] reach _ _ _ _ n _ q disjI1 [OF r], of 0 "so_of ex_clock" Read 0 "()"]])
      (simp_all add: c so_of_def, simp_all add: ex_clock_def sim_holds_def sim_ready_def linux_consts_def)
  with r show ?thesis by blast
qed

section \<open>block_on\<close>

text \<open>
  C38. \<open>Runtime::block_on\<close> returns what the main future's last poll returned, with the executor just
  as that poll left it (no task runs and nothing parks afterwards), and with the current runtime
  of the thread restored to what it was, whatever the future and the tasks did to it.
\<close>

theorem block_on_result:
  assumes "runtime_block_on debug th X P rt poll g current e = Ret (val, current', e')"
  shows "current' = current \<and> (\<exists>g1 c1 e1 g2 c2. poll g1 MainWaker c1 e1 = Ret (Ready val, g2, c2, e'))"
proof -
  let ?main = "\<lambda>(st, current) cx e. bindM (entering_poll rt poll st cx current e) (\<lambda>(r, st, current, e).
      Ret (map_poll_value (\<lambda>val. (val, current)) r, (st, current), e))"
  let ?I = "\<lambda>(st, c). (\<exists>g. st = EnterStart g \<and> c = current) \<or> (\<exists>g. st = EnterRunning current g)"
  have b: "block_on_loop debug th X P ?main (EnterStart g, current) (e\<lparr>ex_woke := True\<rparr>) = Ret ((val, current'), e')"
    using assms by (auto simp: runtime_block_on_def block_on_def bindM_Ret_conv)
  have run: "?I x' \<and> (\<forall>v c. r = Ready (v, c) \<longrightarrow> c = current \<and>
      (\<exists>g1 c1 g2 c2. poll g1 MainWaker c1 e0 = Ret (Ready v, g2, c2, e1)))"
    if I: "?I x" and p: "?main x MainWaker e0 = Ret (r, x', e1)" for x e0 r x' e1
  proof -
    obtain st c where x: "x = (st, c)" by (cases x)
    obtain r1 st' c' where e: "entering_poll rt poll st MainWaker c e0 = Ret (r1, st', c', e1)"
      and x': "x' = (st', c')" and r: "r = map_poll_value (\<lambda>val. (val, c')) r1"
      using p unfolding x by (auto simp: bindM_Ret_conv)
    from entering_poll_step [OF e, of current] I x obtain g1 c1 g2 c2
      where "poll g1 MainWaker c1 e0 = Ret (r1, g2, c2, e1)" "st' = EnterRunning current g2"
        "c' = (case r1 of Pending \<Rightarrow> c2 | Ready _ \<Rightarrow> current)" by auto
    with x' r show ?thesis by (cases r1) auto
  qed
  have "\<exists>x e0 x'. ?I x \<and> ?main x MainWaker e0 = Ret (Ready (val, current'), x', e')"
    by (rule block_on_loop_ends [OF b, of ?I]) (simp, rule conjunct1 [OF run])
  then obtain x e0 x' where "?I x" "?main x MainWaker e0 = Ret (Ready (val, current'), x', e')" by (elim exE conjE)
  from run [OF this] show ?thesis by blast
qed

theorem block_on_result_witness:
  "\<exists>e'. runtime_block_on True 0 stuck_futures log_park (1 :: nat)
     (\<lambda>g cx c e. Ret (Ready (5 :: nat), g, Some 2, e)) () (Some 3) (executor_new 0 []) = Ret (5, Some 3, e')"
proof -
  let ?r = "runtime_block_on True 0 stuck_futures log_park (1 :: nat)
     (\<lambda>g cx c e. Ret (Ready (5 :: nat), g, Some 2, e)) () (Some 3) (executor_new 0 [])"
  obtain v c e' where r: "?r = Ret (v, c, e')"
    by (simp add: runtime_block_on_def block_on_def block_on_loop.simps entering_poll_def enter_def)
  from block_on_result [OF this] have "c = Some 3" "v = 5" by auto
  with r show ?thesis by blast
qed

end
