(* ===== verification/Reentrancy.thy ===== *)
theory Reentrancy
  imports Wakers Runtime Net Reactor_Properties
begin

text \<open>
  What \<open>Reactor\<close> leaves out: the reactor's \<open>RefCell\<close> stays borrowed while \<open>poll_ready\<close> calls the
  waker it replaced. The waker may be the last reference to its task, so that the call frees the
  task and drops its output. Here the reactor, the borrow flag and the memory of \<open>Wakers\<close> are one
  state. As long as the waker has another owner the reactor does what \<open>Reactor\<close> says; if it has
  none, and the output owns a socket, then its drop borrows the reactor a second time.
\<close>

section \<open>The code\<close>

text \<open>\<open>wo_borrowed\<close>: the \<open>RefCell\<close> of the reactor is mutably borrowed.\<close>

record ('f, 'o, 's, 'q, 'e) world =
  wo_memory :: "('f, 'o, (('s, 'q, 'e) reactor, waker) clock) memory"
  wo_borrowed :: bool

definition world_reactor :: "('f, 'o, 's, 'q, 'e) world \<Rightarrow> ('s, 'q, 'e) reactor" where
  "world_reactor w = runtime_reactor (me_exec (wo_memory w))"

definition set_reactor :: "('s, 'q, 'e) reactor \<Rightarrow> ('f, 'o, 's, 'q, 'e) world \<Rightarrow> ('f, 'o, 's, 'q, 'e) world" where
  "set_reactor x w =
     (let m = wo_memory w; e = me_exec m in
      w\<lparr>wo_memory := m\<lparr>me_exec := e\<lparr>ex_parker := (ex_parker e)\<lparr>ck_parker := x\<rparr>\<rparr>\<rparr>\<rparr>)"

text \<open>
  When a call leaves a task without references, the other fields of the task, its awaiter and its
  payload, are dropped: \<open>D\<close> is what this does, which is up to the future and its output.
\<close>

definition drop_fields ::
    "(('f, 'o) task_repr \<Rightarrow> ('f, 'o, 's, 'q, 'e) world \<Rightarrow> ('f, 'o, 's, 'q, 'e) world call) \<Rightarrow> waker \<Rightarrow>
     ('f, 'o, 's, 'q, 'e) world \<Rightarrow> ('f, 'o, 's, 'q, 'e) world call" where
  "drop_fields D wk w =
     (case wk of
        MainWaker \<Rightarrow> Returned w
      | TaskWaker t \<Rightarrow>
          if rc_alive wk (wo_memory w) then Returned w else D (ex_tasks (me_exec (wo_memory w)) t) w)"

definition with_memory ::
    "(('f, 'o) task_repr \<Rightarrow> ('f, 'o, 's, 'q, 'e) world \<Rightarrow> ('f, 'o, 's, 'q, 'e) world call) \<Rightarrow> waker \<Rightarrow>
     ('f, 'o, 's, 'q, 'e) world \<Rightarrow> ('f, 'o, (('s, 'q, 'e) reactor, waker) clock) memory call \<Rightarrow>
     ('f, 'o, 's, 'q, 'e) world call" where
  "with_memory D wk w c =
     (case c of
        UseAfterFree \<Rightarrow> UseAfterFree
      | Unwound m \<Rightarrow> (case drop_fields D wk (w\<lparr>wo_memory := m\<rparr>) of Returned w \<Rightarrow> Unwound w | r \<Rightarrow> r)
      | Returned m \<Rightarrow> drop_fields D wk (w\<lparr>wo_memory := m\<rparr>))"

text \<open>\<open>util::wake\<close>: a release build catches the panic.\<close>

definition wake_world ::
    "bool \<Rightarrow> nat \<Rightarrow> (('f, 'o) task_repr \<Rightarrow> ('f, 'o, 's, 'q, 'e) world \<Rightarrow> ('f, 'o, 's, 'q, 'e) world call) \<Rightarrow> waker \<Rightarrow>
     ('f, 'o, 's, 'q, 'e) world \<Rightarrow> ('f, 'o, 's, 'q, 'e) world call" where
  "wake_world debug th D wk w =
     (case with_memory D wk w (vt_wake th wk (wo_memory w)) of
        Unwound w \<Rightarrow> if debug then Unwound w else Returned w
      | r \<Rightarrow> r)"

text \<open>
  \<open>Async::drop\<close> in this state. Removing the source drops the wakers that wait in it while the
  reactor is still borrowed.
\<close>

fun drop_opt ::
    "nat \<Rightarrow> (('f, 'o) task_repr \<Rightarrow> ('f, 'o, 's, 'q, 'e) world \<Rightarrow> ('f, 'o, 's, 'q, 'e) world call) \<Rightarrow> waker option \<Rightarrow>
     ('f, 'o, 's, 'q, 'e) world \<Rightarrow> ('f, 'o, 's, 'q, 'e) world call" where
  "drop_opt th D None w = Returned w"
| "drop_opt th D (Some wk) w = with_memory D wk w (vt_drop th wk (wo_memory w))"

definition released :: "('f, 'o, 's, 'q, 'e) world call \<Rightarrow> ('f, 'o, 's, 'q, 'e) world call" where
  "released c = (case c of
       UseAfterFree \<Rightarrow> UseAfterFree
     | Unwound w \<Rightarrow> Unwound (w\<lparr>wo_borrowed := False\<rparr>)
     | Returned w \<Rightarrow> Returned (w\<lparr>wo_borrowed := False\<rparr>))"

definition async_drop_world ::
    "nat \<Rightarrow> (('f, 'o) task_repr \<Rightarrow> ('f, 'o, 's, 'q, 'e) world \<Rightarrow> ('f, 'o, 's, 'q, 'e) world call) \<Rightarrow>
     ('s, waker source) slab_api \<Rightarrow> ('q, 'e) poller_api \<Rightarrow> 't async \<Rightarrow>
     ('f, 'o, 's, 'q, 'e) world \<Rightarrow> ('f, 'o, 's, 'q, 'e) world call" where
  "async_drop_world th D A Q a w =
     (if as_sys a = None then Returned w
      else if wo_borrowed w then Unwound w
      else (case slab_remove A (rx_sources (world_reactor w)) (as_id a) of
          None \<Rightarrow> Unwound w
        | Some (source, ss) \<Rightarrow>
            (let (r, q) = p_delete Q (so_raw source) (rx_poller (world_reactor w));
                 w = (set_reactor ((world_reactor w)\<lparr>rx_sources := ss, rx_poller := q\<rparr>) w)\<lparr>wo_borrowed := True\<rparr>
             in released (case drop_opt th D (in_poller (so_reader source)) w of
                  Returned w \<Rightarrow> drop_opt th D (in_poller (so_writer source)) w
                | r \<Rightarrow> r))))"

text \<open>\<open>poll_ready\<close> in this state: a returned poll, or \<open>None\<close> when it unwinds.\<close>

definition poll_ready_world ::
    "bool \<Rightarrow> nat \<Rightarrow> (('f, 'o) task_repr \<Rightarrow> ('f, 'o, 's, 'q, 'e) world \<Rightarrow> ('f, 'o, 's, 'q, 'e) world call) \<Rightarrow>
     ('s, waker source) slab_api \<Rightarrow> ('q, 'e) poller_api \<Rightarrow> nat \<Rightarrow> direction \<Rightarrow> waker \<Rightarrow>
     ('f, 'o, 's, 'q, 'e) world \<Rightarrow> (unit io_result poll option \<times> ('f, 'o, 's, 'q, 'e) world) call" where
  "poll_ready_world debug th D A Q key d cx w =
     (let x = world_reactor w in
      if wo_borrowed w then Unwound (None, w)
      else (case slab_get A (rx_sources x) key of
          None \<Rightarrow> Unwound (None, w)
        | Some source \<Rightarrow>
            (let i = source_interest d source in
             if in_woke i then
               Returned (Some (Ready (Inr ())), set_reactor
                 (x\<lparr>rx_sources := slab_set A (rx_sources x) key (set_interest d (i\<lparr>in_woke := False\<rparr>) source)\<rparr>) w)
             else (case vt_clone th cx (wo_memory w) of
                 UseAfterFree \<Rightarrow> UseAfterFree
               | Unwound m \<Rightarrow> Unwound (None, w\<lparr>wo_memory := m\<rparr>)
               | Returned m \<Rightarrow>
                   (let source = set_interest d (i\<lparr>in_poller := Some cx\<rparr>) source;
                        x = x\<lparr>rx_sources := slab_set A (rx_sources x) key source\<rparr>;
                        w = w\<lparr>wo_memory := m\<rparr>
                    in case in_poller i of
                         Some waker \<Rightarrow>
                           (case released (wake_world debug th D waker ((set_reactor x w)\<lparr>wo_borrowed := True\<rparr>)) of
                              UseAfterFree \<Rightarrow> UseAfterFree
                            | Unwound w \<Rightarrow> Unwound (None, w)
                            | Returned w \<Rightarrow> Returned (Some Pending, w))
                       | None \<Rightarrow>
                           (let (r, q) = update_interest Q key source (rx_poller x)
                            in Returned (Some (case r of Inl e \<Rightarrow> Ready (Inl e) | Inr _ \<Rightarrow> Pending),
                                 set_reactor (x\<lparr>rx_poller := q\<rparr>) w)))))))"

section \<open>The state\<close>

lemma world_simps [simp]:
  "world_reactor (set_reactor x w) = x"
  "world_reactor (w\<lparr>wo_borrowed := b\<rparr>) = world_reactor w"
  "world_reactor (w\<lparr>wo_memory := m\<rparr>) = runtime_reactor (me_exec m)"
  "runtime_reactor (me_exec (wo_memory (set_reactor x w))) = x"
  "wo_borrowed (set_reactor x w) = wo_borrowed w"
  "me_count (wo_memory (set_reactor x w)) = me_count (wo_memory w)"
  "ex_tasks (me_exec (wo_memory (set_reactor x w))) = ex_tasks (me_exec (wo_memory w))"
  "ex_created_on (me_exec (wo_memory (set_reactor x w))) = ex_created_on (me_exec (wo_memory w))"
  by (simp_all add: world_reactor_def set_reactor_def runtime_reactor_def runtime_clock_def Let_def)

lemma runtime_reactor_parker: "ex_parker e = ex_parker e' \<Longrightarrow> runtime_reactor e = runtime_reactor e'"
  by (simp add: runtime_reactor_def runtime_clock_def)

lemma vt_clone_here:
  assumes "rc_alive cx m" and "rc_alive MainWaker m" and "ex_created_on (me_exec m) = th"
  shows "vt_clone th cx m = Returned (m\<lparr>me_count := (me_count m)(cx := me_count m cx + 1)\<rparr>)"
  using assms by (simp add: vt_clone_def vtable_guard_def rc_clone_def finish_def)

text \<open>Waking through a reference that is not the last one keeps the task and the parker.\<close>

lemma vt_wake_shared:
  assumes "2 \<le> me_count m wk" and "rc_alive MainWaker m" and "ex_created_on (me_exec m) = th"
  obtains m' where "vt_wake th wk m = Returned m'" and "wk \<noteq> MainWaker \<Longrightarrow> rc_alive wk m'"
    and "ex_parker (me_exec m') = ex_parker (me_exec m)"
proof (cases wk)
  case MainWaker
  with assms that show ?thesis
    by (auto simp: vt_wake_def vtable_guard_def finish_def rc_drop_def rc_release_def rc_alive_def)
next
  case (TaskWaker t)
  with assms that show ?thesis
    by (cases "tk_state (ex_tasks (me_exec m) t)")
      (auto simp: vt_wake_def vtable_guard_def finish_def rc_drop_def rc_release_def rc_clone_def rc_alive_def
        update_task_def Let_def)
qed

text \<open>Waking a completed task through its last reference frees it.\<close>

lemma vt_wake_last:
  assumes "me_count m (TaskWaker t) = 1" and "rc_alive MainWaker m" and "ex_created_on (me_exec m) = th"
    and "tk_state (ex_tasks (me_exec m) t) = Done"
  obtains m' where "vt_wake th (TaskWaker t) m = Returned m'" and "me_exec m' = me_exec m"
    and "me_count m' (TaskWaker t) = 0"
  using assms that
  by (auto simp: vt_wake_def vtable_guard_def finish_def rc_drop_def rc_release_def rc_alive_def)

section \<open>Properties\<close>

text \<open>
  As long as every waker that waits in the source has another owner, \<open>poll_ready\<close> does to the
  reactor what \<open>Reactor.poll_ready\<close> says, and gives its result.
\<close>

theorem poll_ready_not_reentrant:
  assumes "\<not> wo_borrowed w" and "poll_ready A Q key d cx (world_reactor w) = Ret (p, x', ws)"
    and "rc_alive cx (wo_memory w)" and "rc_alive MainWaker (wo_memory w)"
    and "ex_created_on (me_exec (wo_memory w)) = th"
    and "\<forall>wk \<in> set ws. 2 \<le> me_count (wo_memory w) wk"
  shows "\<exists>w'. poll_ready_world debug th D A Q key d cx w = Returned (Some p, w') \<and>
    world_reactor w' = x' \<and> \<not> wo_borrowed w'"
proof -
  let ?x = "world_reactor w" and ?m = "(wo_memory w)\<lparr>me_count := (me_count (wo_memory w))(cx := me_count (wo_memory w) cx + 1)\<rparr>"
  note clone = vt_clone_here [OF assms(3-5)]
  obtain so where so: "slab_get A (rx_sources ?x) key = Some so"
    using assms(2) by (auto simp: poll_ready_def bindM_Ret_conv)
  show ?thesis
  proof (cases "in_woke (source_interest d so)")
    case True
    with assms(1,2) so show ?thesis by (auto simp: poll_ready_def poll_ready_world_def Let_def)
  next
    case False
    let ?so = "set_interest d ((source_interest d so)\<lparr>in_poller := Some cx\<rparr>) so"
    let ?x1 = "?x\<lparr>rx_sources := slab_set A (rx_sources ?x) key ?so\<rparr>"
    show ?thesis
    proof (cases "in_poller (source_interest d so)")
      case None
      obtain r q where "update_interest Q key ?so (rx_poller ?x) = (r, q)" by fastforce
      with assms(1,2) so False None clone show ?thesis
        by (cases r) (auto simp: poll_ready_def poll_ready_world_def Let_def)
    next
      case (Some wk)
      let ?w1 = "(set_reactor ?x1 (w\<lparr>wo_memory := ?m\<rparr>))\<lparr>wo_borrowed := True\<rparr>"
      have r: "p = Pending" "x' = ?x1" "ws = [wk]"
        using assms(2) so False Some by (auto simp: poll_ready_def Let_def)
      have "2 \<le> me_count (wo_memory ?w1) wk" "rc_alive MainWaker (wo_memory ?w1)"
        "ex_created_on (me_exec (wo_memory ?w1)) = th"
        using assms(4-6) r(3) by (auto simp: rc_alive_def)
      then obtain m' where m': "vt_wake th wk (wo_memory ?w1) = Returned m'" "wk \<noteq> MainWaker \<Longrightarrow> rc_alive wk m'"
        "ex_parker (me_exec m') = ex_parker (me_exec (wo_memory ?w1))"
        using vt_wake_shared by blast
      have "wake_world debug th D wk ?w1 = Returned (?w1\<lparr>wo_memory := m'\<rparr>)"
        using m'(1,2) by (cases wk) (simp_all add: wake_world_def with_memory_def drop_fields_def)
      moreover have "runtime_reactor (me_exec m') = ?x1"
        using runtime_reactor_parker [OF m'(3)] by simp
      ultimately show ?thesis
        using assms(1) so False Some clone r by (simp add: poll_ready_world_def released_def Let_def)
    qed
  qed
qed

text \<open>
  C22. A second borrow of the reactor: a source holds the last reference to a task that completed
  with an open socket (nobody joined it). When another task polls that source in the same
  direction, the call of the old waker frees the task and drops the socket while the reactor is
  borrowed. A debug build panics; a release build catches the panic, and the socket's source is
  never removed.
\<close>

theorem reentrant_drop_panics:
  assumes "\<not> wo_borrowed w" and "slab_crate A"
    and "slab_get A (rx_sources (world_reactor w)) key = Some so" and "\<not> in_woke (source_interest d so)"
    and "in_poller (source_interest d so) = Some (TaskWaker t)" and "me_count (wo_memory w) (TaskWaker t) = 1"
    and "tk_state (ex_tasks (me_exec (wo_memory w)) t) = Done"
    and "D (ex_tasks (me_exec (wo_memory w)) t) = async_drop_world th D' A Q a" and "as_sys a \<noteq> None" and "as_id a \<noteq> key"
    and "rc_alive cx (wo_memory w)" and "cx \<noteq> TaskWaker t" and "rc_alive MainWaker (wo_memory w)"
    and "ex_created_on (me_exec (wo_memory w)) = th"
  shows "\<exists>w'. poll_ready_world True th D A Q key d cx w = Unwound (None, w') \<and>
    poll_ready_world False th D A Q key d cx w = Returned (Some Pending, w') \<and>
    me_count (wo_memory w') (TaskWaker t) = 0 \<and>
    slab_get A (rx_sources (world_reactor w')) (as_id a) = slab_get A (rx_sources (world_reactor w)) (as_id a)"
proof -
  let ?x = "world_reactor w" and ?m = "(wo_memory w)\<lparr>me_count := (me_count (wo_memory w))(cx := me_count (wo_memory w) cx + 1)\<rparr>"
  let ?so = "set_interest d ((source_interest d so)\<lparr>in_poller := Some cx\<rparr>) so"
  let ?x1 = "?x\<lparr>rx_sources := slab_set A (rx_sources ?x) key ?so\<rparr>"
  let ?w1 = "(set_reactor ?x1 (w\<lparr>wo_memory := ?m\<rparr>))\<lparr>wo_borrowed := True\<rparr>"
  note clone = vt_clone_here [OF assms(11,13,14)]
  obtain m' where m': "vt_wake th (TaskWaker t) (wo_memory ?w1) = Returned m'" "me_exec m' = me_exec (wo_memory ?w1)"
      "me_count m' (TaskWaker t) = 0"
  proof (rule vt_wake_last [of "wo_memory ?w1" t th])
    show "me_count (wo_memory ?w1) (TaskWaker t) = 1" using assms(6,12) by simp
    show "rc_alive MainWaker (wo_memory ?w1)" using assms(13) by (auto simp: rc_alive_def)
    show "tk_state (ex_tasks (me_exec (wo_memory ?w1)) t) = Done" using assms(7) by simp
    show "ex_created_on (me_exec (wo_memory ?w1)) = th" using assms(14) by simp
  qed
  have e: "ex_tasks (me_exec m') t = ex_tasks (me_exec (wo_memory w)) t" using m'(2) by simp
  have "with_memory D (TaskWaker t) ?w1 (Returned m') = Unwound (?w1\<lparr>wo_memory := m'\<rparr>)"
    using m'(3) e assms(8,9) by (simp add: with_memory_def drop_fields_def rc_alive_def async_drop_world_def)
  then have wake: "wake_world debug th D (TaskWaker t) ?w1 =
      (if debug then Unwound (?w1\<lparr>wo_memory := m'\<rparr>) else Returned (?w1\<lparr>wo_memory := m'\<rparr>))" for debug
    using m'(1) by (simp add: wake_world_def)
  let ?w' = "?w1\<lparr>wo_memory := m', wo_borrowed := False\<rparr>"
  have "runtime_reactor (me_exec m') = ?x1" using m'(2) by simp
  moreover have "slab_get A (rx_sources ?x1) (as_id a) = slab_get A (rx_sources ?x) (as_id a)"
    using slab_crate.get_set [OF assms(2), of "rx_sources ?x" key] assms(3,10) by simp
  moreover have "me_count (wo_memory ?w') (TaskWaker t) = 0" using m'(3) by simp
  ultimately show ?thesis
    using assms(1,3-5) clone wake
    by (intro exI [of _ ?w']) (simp add: poll_ready_world_def released_def Let_def)
qed

text \<open>
  Task 0 completed with the socket of source 1; its waker, from a read of source 0 that it gave up,
  is all that is left of it. Now the main future reads from source 0.
\<close>

definition ex_output_drop ::
    "(unit, unit async) task_repr \<Rightarrow> (unit, unit async, waker source assoc_slab, sim_kernel, epoll_event) world \<Rightarrow>
     (unit, unit async, waker source assoc_slab, sim_kernel, epoll_event) world call" where
  "ex_output_drop k w =
     (case tk_payload k of
        Output a \<Rightarrow> async_drop_world 0 (\<lambda>_ w. Returned w) assoc_slab sim_poller a w
      | _ \<Rightarrow> Returned w)"

definition ex_sources :: "(nat \<times> waker source) list" where
  "ex_sources = [(0, \<lparr>so_raw = 5, so_reader = \<lparr>in_poller = Some (TaskWaker 0), in_woke = False\<rparr>, so_writer = interest_default\<rparr>),
     (1, \<lparr>so_raw = 6, so_reader = interest_default, so_writer = interest_default\<rparr>)]"

definition ex_world :: "(unit, unit async, waker source assoc_slab, sim_kernel, epoll_event) world" where
  "ex_world = \<lparr>wo_memory = \<lparr>
       me_exec = (executor_new 0 (clock_new \<lparr>rx_poller = \<lparr>sk_regs = [], sk_ready = []\<rparr>, rx_events = [], rx_sources = ex_sources\<rparr>))
         \<lparr>ex_tasks := (\<lambda>_. \<lparr>tk_awaiter = None, tk_state = Done, tk_payload = Output \<lparr>as_id = 1, as_sys = Some ()\<rparr>, tk_borrowed = False\<rparr>),
          ex_next := 1\<rparr>,
       me_count = (\<lambda>_. 3)(TaskWaker 0 := 1)\<rparr>,
     wo_borrowed = False\<rparr>"

theorem reentrant_drop_panics_witness:
  "\<exists>w'. poll_ready_world True 0 ex_output_drop assoc_slab sim_poller 0 Read MainWaker ex_world = Unwound (None, w') \<and>
     slab_get assoc_slab (rx_sources (world_reactor w')) 1 \<noteq> None"
proof -
  have x: "rx_sources (world_reactor ex_world) = ex_sources"
    by (simp add: ex_world_def world_reactor_def runtime_reactor_def runtime_clock_def executor_new_def clock_new_def)
  have D: "ex_output_drop (ex_tasks (me_exec (wo_memory ex_world)) 0) =
      async_drop_world 0 (\<lambda>_ w. Returned w) assoc_slab sim_poller \<lparr>as_id = 1, as_sys = Some ()\<rparr>"
    by (rule ext) (simp add: ex_output_drop_def ex_world_def)
  have s: "slab_get assoc_slab (rx_sources (world_reactor ex_world)) 0 =
      Some \<lparr>so_raw = 5, so_reader = \<lparr>in_poller = Some (TaskWaker 0), in_woke = False\<rparr>, so_writer = interest_default\<rparr>"
    unfolding x by (simp add: ex_sources_def)
  show ?thesis
    using reentrant_drop_panics [OF _ assoc.slab_crate_axioms s, of Read 0 ex_output_drop 0 "\<lambda>_ w. Returned w" sim_poller
        "\<lparr>as_id = 1, as_sys = Some ()\<rparr>" MainWaker] D
    unfolding x by (auto simp: ex_world_def executor_new_def rc_alive_def ex_sources_def)
qed

end
