(* ===== verification/Main_Loop.thy ===== *)
theory Main_Loop
  imports Runtime Executor_Properties
begin

text \<open>
  The loop of \<open>block_on\<close>, one round at a time, for the theories that run whole programs.
\<close>

lemma loop_ready:
  "ex_woke e \<Longrightarrow> main_poll g MainWaker (e\<lparr>ex_woke := False\<rparr>) = Ret (Ready v, g', e') \<Longrightarrow>
     block_on_loop debug th X P main_poll g e = Ret (v, e')"
  by (subst block_on_loop.simps) simp

lemma loop_pending:
  assumes "ex_woke e" and "main_poll g MainWaker (e\<lparr>ex_woke := False\<rparr>) = Ret (Pending, g', e')" and "\<not> ex_woke e'"
  shows "block_on_loop debug th X P main_poll g e = block_on_loop debug th X P main_poll g' e'"
  using assms by (simp add: block_on_loop.simps [of debug th X P main_poll g e] block_on_loop.simps [of debug th X P main_poll g' e'])

lemma loop_ticks:
  "\<not> ex_woke e \<Longrightarrow> tick debug th X P polls_per_tick e = Ret (ts, e') \<Longrightarrow>
     block_on_loop debug th X P main_poll g e = block_on_loop debug th X P main_poll g e'"
  by (simp add: block_on_loop.simps [of debug th X P main_poll g e])

lemma loop_parks:
  assumes "\<not> ex_woke e" and "ex_queue e = []" and "park_and_wake debug th (pk_park P) e = Ret e'"
  shows "block_on_loop debug th X P main_poll g e = block_on_loop debug th X P main_poll g e'"
  by (rule loop_ticks [OF assms(1)]) (use assms(2,3) in \<open>simp add: tick_pos polls_per_tick_def\<close>)

lemma loop_pending_parks:
  assumes "ex_woke e" and "main_poll g MainWaker (e\<lparr>ex_woke := False\<rparr>) = Ret (Pending, g', e1)" and "ex_queue e1 = []"
  shows "block_on_loop debug th X P main_poll g e = bindM (park_and_wake debug th (pk_park P) e1) (block_on_loop debug th X P main_poll g')"
proof -
  have "tick debug th X P polls_per_tick e1 = bindM (park_and_wake debug th (pk_park P) e1) (\<lambda>e. Ret ([], e))"
    using assms(3) by (simp add: tick_pos polls_per_tick_def)
  with assms(1,2) show ?thesis
    by (simp add: block_on_loop.simps [of debug th X P main_poll g e] bindM_def split: option.split sum.split)
qed

lemma loop_pending_ticks:
  assumes "ex_woke e" and "main_poll g MainWaker (e\<lparr>ex_woke := False\<rparr>) = Ret (Pending, g', e1)"
    and "tick debug th X P polls_per_tick e1 = Ret (ts, e2)"
  shows "block_on_loop debug th X P main_poll g e = block_on_loop debug th X P main_poll g' e2"
  using assms by (simp add: block_on_loop.simps [of debug th X P main_poll g e])

section \<open>A main future that waits for a task\<close>

text \<open>
  Task 0, alone in the executor, still has to yield \<open>k\<close> times while the main future \<open>g\<close> waits for
  it (\<open>waiting k\<close>); when it is done (\<open>finished\<close>) it has woken the main future, whose next poll has
  the result \<open>v\<close>. Neither spurious wakeups nor parking disturb this.
\<close>

locale worker_program =
  fixes debug :: bool and th :: nat and X :: "('f, 'o, 'p) future_api" and P :: "('p, waker) park_api"
    and main_poll :: "'g \<Rightarrow> waker \<Rightarrow> ('f, 'o, 'p) executor \<Rightarrow> ('v poll \<times> 'g \<times> ('f, 'o, 'p) executor) m" and g :: 'g and v :: 'v
    and waiting :: "nat \<Rightarrow> ('f, 'o, 'p) executor \<Rightarrow> bool" and finished :: "('f, 'o, 'p) executor \<Rightarrow> bool"
  assumes alone: "waiting k e \<Longrightarrow> ex_queue e = [0] \<and> ex_created_on e = th"
    and woken: "waiting k e \<Longrightarrow> waiting k (rc_wake w e)"
    and parked: "waiting k e \<Longrightarrow> \<exists>ws p. pk_park_timeout P (ex_parker e) 0 [] = (Inr (), ws, p) \<and> waiting k (e\<lparr>ex_parker := p\<rparr>)"
    and works: "waiting k e \<Longrightarrow> \<exists>e'. run debug th X 0 (popped e) = Ret e' \<and>
          (case k of 0 \<Rightarrow> finished e' | Suc m \<Rightarrow> waiting m e' \<and> ex_woke e' = ex_woke e)"
    and calls: "finished e \<Longrightarrow> ex_woke e"
    and waits: "waiting k e \<Longrightarrow> \<exists>e'. main_poll g MainWaker (e\<lparr>ex_woke := False\<rparr>) = Ret (Pending, g, e') \<and> waiting k e' \<and> \<not> ex_woke e'"
    and ends: "finished e \<Longrightarrow> \<exists>g' e'. main_poll g MainWaker (e\<lparr>ex_woke := False\<rparr>) = Ret (Ready v, g', e')"
begin

lemma waiting_wake_all: "waiting k e \<Longrightarrow> \<exists>e'. wake_all debug th ws e = Ret e' \<and> waiting k e'"
proof (induction ws arbitrary: e)
  case (Cons w ws)
  from Cons.IH [OF woken [OF Cons.prems]] alone [OF Cons.prems] show ?case by (simp add: util_wake_same_thread)
qed simp

lemma waiting_park:
  assumes "waiting k e"
  shows "\<exists>e'. park_and_wake debug th (\<lambda>p. pk_park_timeout P p 0) e = Ret e' \<and> waiting k e'"
  using parked [OF assms] waiting_wake_all by (auto simp: park_and_wake_def)

lemma waiting_tick:
  "waiting k e \<Longrightarrow> \<not> ex_woke e \<Longrightarrow> \<exists>ts e'. tick debug th X P n e = Ret (ts, e') \<and>
     (finished e' \<or> (\<exists>m. waiting m e' \<and> m + n = k))"
proof (induction n arbitrary: k e)
  case 0
  from waiting_park [OF 0(1)] show ?case by auto
next
  case (Suc n)
  obtain e1 where r: "run debug th X 0 (popped e) = Ret e1"
    and e1: "case k of 0 \<Rightarrow> finished e1 | Suc m \<Rightarrow> waiting m e1 \<and> ex_woke e1 = ex_woke e"
    using works [OF Suc.prems(1)] by blast
  have q: "ex_queue e = [0]" using alone [OF Suc.prems(1)] ..
  show ?case
  proof (cases k)
    case 0
    with q r e1 calls [of e1] show ?thesis by (auto simp: popped_def)
  next
    case (Suc m)
    with e1 Suc.prems(2) have j: "waiting m e1" "\<not> ex_woke e1" by simp_all
    from Suc.IH [OF j] obtain ts e2 where "tick debug th X P n e1 = Ret (ts, e2)"
      and "finished e2 \<or> (\<exists>l. waiting l e2 \<and> l + n = m)" by blast
    with q r j(2) Suc show ?thesis by (auto simp: popped_def)
  qed
qed

lemma loop_ends: "waiting k e \<Longrightarrow> \<exists>e'. block_on_loop debug th X P main_poll g e = Ret (v, e')"
proof (induction k arbitrary: e rule: less_induct)
  case (less k)
  let ?loop = "block_on_loop debug th X P main_poll g"
  obtain e1 where j: "waiting k e1" "\<not> ex_woke e1" and same: "?loop e = ?loop e1"
  proof (cases "ex_woke e")
    case True
    from waits [OF less.prems] obtain e1
      where m: "main_poll g MainWaker (e\<lparr>ex_woke := False\<rparr>) = Ret (Pending, g, e1)" and e1: "waiting k e1" "\<not> ex_woke e1" by blast
    from loop_pending [where main_poll = main_poll, OF True m e1(2)] that e1 show thesis by blast
  qed (use that less.prems in blast)
  obtain ts e2 where t: "tick debug th X P polls_per_tick e1 = Ret (ts, e2)"
    and e2: "finished e2 \<or> (\<exists>m. waiting m e2 \<and> m + polls_per_tick = k)"
    using waiting_tick [OF j] by blast
  note step = loop_ticks [OF j(2) t, of main_poll g]
  from e2 show ?case
  proof
    assume d: "finished e2"
    from ends [OF d] obtain g' e3 where "main_poll g MainWaker (e2\<lparr>ex_woke := False\<rparr>) = Ret (Ready v, g', e3)" by blast
    from loop_ready [where main_poll = main_poll, OF calls [OF d] this] step same show ?thesis by auto
  next
    assume "\<exists>m. waiting m e2 \<and> m + polls_per_tick = k"
    then obtain m where m: "waiting m e2" "m < k" by (auto simp: polls_per_tick_def)
    from less.IH [OF m(2,1)] step same show ?thesis by simp
  qed
qed

end

end
