(* ===== verification/Sleep_Program.thy ===== *)
theory Sleep_Program
  imports Runtime_Properties Main_Loop
begin

text \<open>
  The smallest program of the documentation, \<open>block_on(async { sleep(d).await })\<close>, run on the whole
  runtime: executor, clock, reactor and poller together. It ends, with the deadline, and not early.
\<close>

section \<open>The program\<close>

text \<open>
  The main future before its first poll, and while it awaits the sleep. \<open>sleep\<close> reads the time for
  the deadline, each poll of the \<open>Sleep\<close> reads it again; the \<open>Sleep\<close> is dropped once it is ready.
\<close>

datatype sleeper = SleepFor duration | Sleeping "waker sleep"

definition await_sleep ::
    "bool \<Rightarrow> ('q \<Rightarrow> instant \<times> 'q) \<Rightarrow> waker sleep \<Rightarrow> waker \<Rightarrow> 'r option \<Rightarrow> ('f, 'o, 's, 'q, 'e) runtime \<Rightarrow>
     (instant poll \<times> sleeper \<times> 'r option \<times> ('f, 'o, 's, 'q, 'e) runtime) m" where
  "await_sleep oc read_now sl cx current rt =
     (let (now, c) = read_clock read_now (runtime_clock rt) in
      bindM (sleep_poll oc now cx sl c) (\<lambda>(r, sl, c).
        case r of
          Pending \<Rightarrow> Ret (Pending, Sleeping sl, current, rt\<lparr>ex_parker := c\<rparr>)
        | Ready at \<Rightarrow> Ret (Ready at, Sleeping sl, current, rt\<lparr>ex_parker := sleep_drop sl c\<rparr>)))"

fun sleep_main ::
    "bool \<Rightarrow> ('q \<Rightarrow> instant \<times> 'q) \<Rightarrow> sleeper \<Rightarrow> waker \<Rightarrow> 'r option \<Rightarrow> ('f, 'o, 's, 'q, 'e) runtime \<Rightarrow>
     (instant poll \<times> sleeper \<times> 'r option \<times> ('f, 'o, 's, 'q, 'e) runtime) m" where
  "sleep_main oc read_now (SleepFor d) cx current rt =
     (let (now, c) = read_clock read_now (runtime_clock rt) in
      bindM (sleep_for (current \<noteq> None) now d) (\<lambda>sl.
        await_sleep oc read_now sl cx current (rt\<lparr>ex_parker := c\<rparr>)))"
| "sleep_main oc read_now (Sleeping sl) cx current rt = await_sleep oc read_now sl cx current rt"

section \<open>Parking without sources\<close>

lemma handle_events_none: "slab_get A ss = Map.empty \<Longrightarrow> handle_events A Q es ws ss q = (Inr (), ws, ss, q)"
  by (induction es) simp_all

text \<open>
  A kernel whose time never goes back, goes on in every poll, and whose polls fail only when they
  are interrupted.
\<close>

locale ticking_kernel =
  fixes Q :: "('q, 'e) poller_api" and read_now :: "'q \<Rightarrow> instant \<times> 'q"
  assumes reading: "fst (read_now q) \<le> fst (read_now (snd (read_now q)))"
    and polling: "p_poll Q n t q = (r, q') \<Longrightarrow> fst (read_now q) < fst (read_now q')"
    and interrupted: "p_poll Q n t q = (Inl err, q') \<Longrightarrow> err_kind err = Interrupted"

locale sleeping_program = slab_crate A + ticking_kernel Q read_now
  for A :: "('s, waker source) slab_api" and Q :: "('q, 'e) poller_api" and read_now :: "'q \<Rightarrow> instant \<times> 'q"
begin

lemma reactor_poll_idle:
  assumes p: "p_poll Q initial_events t (rx_poller x) = (r, q)" and "slab_get A (rx_sources x) = Map.empty"
  shows "\<exists>x'. reactor_poll A Q t x ws = (Inr (), ws, x') \<and> rx_poller x' = q \<and> rx_sources x' = rx_sources x"
proof (cases r)
  case (Inl err)
  with p interrupted [OF p [unfolded Inl]] show ?thesis by (simp add: reactor_poll_def)
next
  case (Inr es)
  with p assms(2) show ?thesis by (simp add: reactor_poll_def handle_events_none)
qed

text \<open>The time, and the states in which the main future waits for its only alarm.\<close>

definition time :: "('f, 'o, 's, 'q, 'e) runtime \<Rightarrow> instant" where
  "time rt = fst (read_now (rx_poller (runtime_reactor rt)))"

definition idle :: "nat \<Rightarrow> ((instant \<times> usize) \<times> waker) list \<Rightarrow> ('f, 'o, 's, 'q, 'e) runtime \<Rightarrow> bool" where
  "idle th as rt \<longleftrightarrow> ex_queue rt = [] \<and> ex_created_on rt = th \<and> ck_alarms (runtime_clock rt) = as \<and>
     slab_get A (rx_sources (runtime_reactor rt)) = Map.empty"

lemma park_idle:
  assumes "idle th [((at, i), MainWaker)] rt" and "\<not> ex_woke rt"
  shows "\<exists>rt'. park_and_wake debug th (pk_park (timed_parker A Q read_now)) rt = Ret rt' \<and> time rt < time rt' \<and>
    (if at \<le> time rt then ex_woke rt' \<and> idle th [] rt' else \<not> ex_woke rt' \<and> idle th [((at, i), MainWaker)] rt')"
proof -
  let ?c = "runtime_clock rt"
  let ?read = "?c\<lparr>ck_parker := (ck_parker ?c)\<lparr>rx_poller := snd (read_now (rx_poller (ck_parker ?c)))\<rparr>\<rparr>"
  have c0: "read_clock read_now ?c = (time rt, ?read)"
    by (simp add: read_clock_def time_def runtime_reactor_def case_prod_unfold Let_def)
  have as: "ck_alarms ?c = [((at, i), MainWaker)]" and th: "ex_created_on rt = th" and q: "ex_queue rt = []"
    and ss: "slab_get A (rx_sources (ck_parker ?c)) = Map.empty"
    using assms(1) by (simp_all add: idle_def runtime_reactor_def)
  obtain d ws as' where e: "extend_with_expired (time rt) [] ?read = (Some d, ws, ?read\<lparr>ck_alarms := as'\<rparr>)"
    and w: "if at \<le> time rt then ws = [MainWaker] \<and> as' = [] else ws = [] \<and> as' = [((at, i), MainWaker)]"
    by (cases "at \<le> time rt")
      (auto simp: extend_with_expired_def bt_split_off_def bt_first_key_def bt_into_values_def expired_key pending_key as)
  obtain r k where p: "p_poll Q initial_events (Some d) (rx_poller (ck_parker ?read)) = (r, k)" by fastforce
  have "slab_get A (rx_sources (ck_parker ?read)) = Map.empty" using ss by simp
  from reactor_poll_idle [OF p this, of ws]
  obtain x where x: "reactor_poll A Q (Some d) (ck_parker ?read) ws = (Inr (), ws, x)" "rx_poller x = k"
    "rx_sources x = rx_sources (ck_parker ?c)" by auto
  let ?c1 = "?read\<lparr>ck_alarms := as', ck_parker := x\<rparr>"
  have park: "pk_park (timed_parker A Q read_now) ?c [] = (Inr (), ws, ?c1)"
    using c0 e x(1) by (simp add: timed_parker_def runtime_parker_def clock_park_def reactor_as_park_def)
  have later: "time rt < fst (read_now k)"
    using reading [of "rx_poller (ck_parker ?c)"] polling [OF p] by (simp add: time_def runtime_reactor_def)
  have "park_and_wake debug th (pk_park (timed_parker A Q read_now)) rt = wake_all debug th ws (rt\<lparr>ex_parker := ?c1\<rparr>)"
    using park by (simp add: park_and_wake_def runtime_clock_def)
  also have "\<dots> = Ret ((rt\<lparr>ex_parker := ?c1\<rparr>)\<lparr>ex_woke := ex_woke rt \<or> at \<le> time rt\<rparr>)"
    using w th assms(2) by (auto simp: util_wake_same_thread split: if_splits)
  finally show ?thesis
    using w later th q ss x(2,3) assms(2)
    by (intro exI conjI) (auto simp: time_def idle_def runtime_clock_def runtime_reactor_def split: if_splits)
qed

text \<open>One poll of the main future inside the runtime, as \<open>block_on\<close> makes it.\<close>

definition main_poll ::
    "bool \<Rightarrow> 'r \<Rightarrow> ('r, sleeper) entering \<times> 'r option \<Rightarrow> waker \<Rightarrow> ('f, 'o, 's, 'q, 'e) runtime \<Rightarrow>
     ((instant \<times> 'r option) poll \<times> (('r, sleeper) entering \<times> 'r option) \<times> ('f, 'o, 's, 'q, 'e) runtime) m" where
  "main_poll oc r = (\<lambda>(st, current) cx e. bindM (entering_poll r (sleep_main oc read_now) st cx current e)
     (\<lambda>(p, st, current, e). Ret (map_poll_value (\<lambda>val. (val, current)) p, (st, current), e)))"

lemma await_due:
  assumes "sl_deadline sl \<le> time rt"
  obtains rt' where "await_sleep oc read_now sl cx c rt = Ret (Ready (sl_deadline sl), Sleeping sl, c, rt')"
    and "sl_deadline sl \<le> time rt'"
proof -
  let ?read = "snd (read_clock read_now (runtime_clock rt))"
  have r: "read_clock read_now (runtime_clock rt) = (time rt, ?read)"
    by (simp add: read_clock_def time_def runtime_reactor_def case_prod_unfold Let_def)
  show thesis
  proof (rule that)
    show "await_sleep oc read_now sl cx c rt =
        Ret (Ready (sl_deadline sl), Sleeping sl, c, rt\<lparr>ex_parker := sleep_drop sl ?read\<rparr>)"
      using assms by (subst await_sleep_def, subst r) (simp add: sleep_poll_def)
    have "ck_parker (sleep_drop sl ?read) = ck_parker ?read"
      by (simp add: sleep_drop_def remove_alarm_def split: option.split)
    then have "time rt \<le> time (rt\<lparr>ex_parker := sleep_drop sl ?read\<rparr>)"
      using reading [of "rx_poller (runtime_reactor rt)"]
      by (simp add: time_def runtime_reactor_def runtime_clock_def read_clock_def case_prod_unfold Let_def)
    with assms show "sl_deadline sl \<le> time (rt\<lparr>ex_parker := sleep_drop sl ?read\<rparr>)" by simp
  qed
qed

lemma main_due:
  assumes "sl_deadline sl \<le> time rt"
  obtains g rt' where "main_poll oc r (EnterRunning current (Sleeping sl), c) cx rt = Ret (Ready (sl_deadline sl, current), g, rt')"
    and "sl_deadline sl \<le> time rt'"
proof -
  obtain rt' where a: "await_sleep oc read_now sl cx c rt = Ret (Ready (sl_deadline sl), Sleeping sl, c, rt')"
    and t: "sl_deadline sl \<le> time rt'" using await_due [OF assms] .
  show thesis by (rule that [OF _ t]) (simp add: main_poll_def entering_poll_def guard_drop_def a)
qed

text \<open>While the main future sleeps the loop only parks, and the time until the deadline gets shorter.\<close>

lemma loop_ends:
  assumes "idle th [((at, i), MainWaker)] rt" and "\<not> ex_woke rt" and "sl_deadline sl = at"
  shows "\<exists>rt'. block_on_loop debug th X (timed_parker A Q read_now) (main_poll oc r)
      (EnterRunning current (Sleeping sl), c) rt = Ret ((at, current), rt') \<and> at \<le> time rt'"
  using assms(1,2)
proof (induction "at - time rt" arbitrary: rt rule: less_induct)
  case less
  let ?loop = "block_on_loop debug th X (timed_parker A Q read_now) (main_poll oc r) (EnterRunning current (Sleeping sl), c)"
  obtain rt1 where p: "park_and_wake debug th (pk_park (timed_parker A Q read_now)) rt = Ret rt1" and later: "time rt < time rt1"
    and r1: "if at \<le> time rt then ex_woke rt1 \<and> idle th [] rt1 else \<not> ex_woke rt1 \<and> idle th [((at, i), MainWaker)] rt1"
    using park_idle [OF less.prems] by blast
  have step: "?loop rt = ?loop rt1"
    by (rule loop_parks [OF less.prems(2) _ p]) (use less.prems(1) in \<open>simp add: idle_def\<close>)
  show ?case
  proof (cases "at \<le> time rt")
    case True
    then have "sl_deadline sl \<le> time (rt1\<lparr>ex_woke := False\<rparr>)"
      using later assms(3) by (simp add: time_def runtime_reactor_def runtime_clock_def)
    then obtain g rt2
      where m: "main_poll oc r (EnterRunning current (Sleeping sl), c) MainWaker (rt1\<lparr>ex_woke := False\<rparr>) = Ret (Ready (at, current), g, rt2)"
        and t: "at \<le> time rt2" unfolding assms(3) [symmetric] by (rule main_due)
    have woke: "ex_woke rt1" using r1 True by simp
    have "?loop rt1 = Ret ((at, current), rt2)" using woke m by (rule loop_ready)
    with t show ?thesis unfolding step by blast
  next
    case False
    then have "at - time rt1 < at - time rt" using later by simp
    from less.hyps [OF this] r1 False show ?thesis unfolding step by simp
  qed
qed

lemma sleep_program:
  fixes current :: "'r option"
  assumes "idle th [] rt" and "ck_next_alarm (runtime_clock rt) = 0"
  shows "\<exists>rt'. runtime_block_on debug th X (timed_parker A Q read_now) r (sleep_main oc read_now) (SleepFor d) current rt =
      Ret (time rt + d, current, rt') \<and> time rt + d \<le> time rt'"
proof -
  let ?loop = "block_on_loop debug th X (timed_parker A Q read_now) (main_poll oc r)"
  let ?at = "time rt + d" and ?start = "(EnterStart (SleepFor d), current) :: ('r, sleeper) entering \<times> 'r option"
  let ?sl = "\<lparr>sl_deadline = time rt + d, sl_alarm = None\<rparr> :: waker sleep"
  let ?armed = "\<lparr>sl_deadline = time rt + d, sl_alarm = Some (0, MainWaker)\<rparr> :: waker sleep"
  define c1 where "c1 = snd (read_clock read_now (runtime_clock rt))"
  define rt1 where "rt1 = rt\<lparr>ex_woke := False, ex_parker := c1\<rparr>"
  have "read_clock read_now (runtime_clock (rt\<lparr>ex_woke := False\<rparr>)) = (time rt, c1)"
    by (simp add: c1_def read_clock_def time_def runtime_reactor_def runtime_clock_def case_prod_unfold Let_def)
  then have start: "sleep_main oc read_now (SleepFor d) MainWaker (Some r) (rt\<lparr>ex_woke := False\<rparr>) =
      await_sleep oc read_now ?sl MainWaker (Some r) rt1"
    by (simp add: sleep_for_def sleep_until_def rt1_def)
  have rt1: "idle th [] rt1" "ck_next_alarm (runtime_clock rt1) = 0" "time rt \<le> time rt1" "\<not> ex_woke rt1"
    using assms reading [of "rx_poller (runtime_reactor rt)"]
    by (simp_all add: rt1_def c1_def idle_def time_def runtime_reactor_def runtime_clock_def read_clock_def case_prod_unfold Let_def)
  have "\<exists>rt'. ?loop ?start (rt\<lparr>ex_woke := True\<rparr>) = Ret ((?at, current), rt') \<and> ?at \<le> time rt'"
  proof (cases "?at \<le> time rt1")
    case True
    then have "sl_deadline ?sl \<le> time rt1" by simp
    from await_due [OF this, of oc MainWaker "Some r"] obtain rt2
      where a: "await_sleep oc read_now ?sl MainWaker (Some r) rt1 = Ret (Ready ?at, Sleeping ?sl, Some r, rt2)"
        and t: "?at \<le> time rt2" by auto
    have "main_poll oc r ?start MainWaker (rt\<lparr>ex_woke := False\<rparr>) =
        Ret (Ready (?at, current), (EnterRunning current (Sleeping ?sl), current), rt2)"
      by (simp add: main_poll_def entering_poll_def enter_def guard_drop_def start a del: sleep_main.simps)
    from loop_ready [of "rt\<lparr>ex_woke := True\<rparr>" "main_poll oc r" ?start] this t show ?thesis by simp
  next
    case False
    define c2 where "c2 = snd (read_clock read_now (runtime_clock rt1))"
    define rt2 where "rt2 = rt1\<lparr>ex_parker := c2\<lparr>ck_alarms := [((?at, 0), MainWaker)], ck_next_alarm := 1\<rparr>\<rparr>"
    have rd: "read_clock read_now (runtime_clock rt1) = (time rt1, c2)"
      by (simp add: c2_def read_clock_def time_def runtime_reactor_def case_prod_unfold Let_def)
    have c2: "ck_alarms c2 = []" "ck_next_alarm c2 = 0" "rx_sources (ck_parker c2) = rx_sources (runtime_reactor rt1)"
      using rt1(1,2) by (simp_all add: c2_def read_clock_def idle_def runtime_reactor_def case_prod_unfold Let_def)
    have "insert_alarm oc ?at MainWaker c2 = Ret (0, c2\<lparr>ck_alarms := [((?at, 0), MainWaker)], ck_next_alarm := 1\<rparr>)"
      using c2 by (simp add: insert_alarm_def usize_add_def)
    then have a: "await_sleep oc read_now ?sl MainWaker (Some r) rt1 = Ret (Pending, Sleeping ?armed, Some r, rt2)"
      using False by (simp add: await_sleep_def rd sleep_poll_def rt2_def)
    have m: "main_poll oc r ?start MainWaker (rt\<lparr>ex_woke := False\<rparr>) =
        Ret (Pending, (EnterRunning current (Sleeping ?armed), Some r), rt2)"
      by (simp add: main_poll_def entering_poll_def enter_def guard_drop_def start a del: sleep_main.simps)
    have rt2: "idle th [((?at, 0), MainWaker)] rt2" "\<not> ex_woke rt2"
      using rt1(1,4) c2(3) by (simp_all add: rt2_def idle_def runtime_reactor_def runtime_clock_def)
    have "?loop ?start (rt\<lparr>ex_woke := True\<rparr>) = ?loop (EnterRunning current (Sleeping ?armed), Some r) rt2"
      by (rule loop_pending) (simp_all add: m rt2(2))
    with loop_ends [OF rt2, of ?armed] show ?thesis by simp
  qed
  then show ?thesis by (auto simp: runtime_block_on_def block_on_def main_poll_def)
qed

end

section \<open>The property\<close>


text \<open>
  A kernel that is nothing but the time, in nanoseconds: a poll waits as long as it was asked to,
  and takes a nanosecond itself.
\<close>

definition time_kernel :: "(nat, unit) poller_api" where
  "time_kernel = \<lparr>p_add = (\<lambda>_ _ k. (Inr (), k)), p_update = (\<lambda>_ _ k. (Inr (), k)), p_delete = (\<lambda>_ k. (Inr (), k)),
     p_poll = (\<lambda>_ t k. (Inr [], k + 1 + (case t of Some d \<Rightarrow> d | None \<Rightarrow> 0))),
     p_event = (\<lambda>_. event_default)\<rparr>"

interpretation time_kernel: ticking_kernel time_kernel "\<lambda>k. (k, k)"
  by unfold_locales (auto simp: time_kernel_def)


end
