(* ===== verification/Task_Programs.thy ===== *)
theory Task_Programs
  imports Main_Loop
begin

text \<open>
  Two programs on the executor alone: one that spawns a task and joins it, which ends whatever the
  number of polls the task needs, and one whose main future and task wake each other, which never
  parks, so that timers and I/O starve.
\<close>

section \<open>Waking each other\<close>

text \<open>The main future wakes task \<open>t\<close> in each poll, the task the main future.\<close>

definition ping_main ::
    "nat \<Rightarrow> nat \<Rightarrow> unit \<Rightarrow> waker \<Rightarrow> (unit, unit, 'p) executor \<Rightarrow> (unit poll \<times> unit \<times> (unit, unit, 'p) executor) m" where
  "ping_main th t g cx e = bindM (waker_wake th (TaskWaker t) e) (\<lambda>e. Ret (Pending, g, e))"

definition pong_futures :: "nat \<Rightarrow> (unit, unit, 'p) future_api" where
  "pong_futures th = \<lparr>f_poll = (\<lambda>f cx e. bindM (waker_wake th MainWaker e) (\<lambda>e. Ret (Pending, f, e))), f_drop = (\<lambda>_ e. Ret e)\<rparr>"

definition ping_state :: "nat \<Rightarrow> (unit, unit, 'p) executor \<Rightarrow> bool" where
  "ping_state th e \<longleftrightarrow> ex_created_on e = th \<and> ex_woke e \<and> tk_payload (ex_tasks e 0) = Future () \<and>
     \<not> tk_borrowed (ex_tasks e 0) \<and>
     (tk_state (ex_tasks e 0) = Idle \<and> ex_queue e = [] \<or> tk_state (ex_tasks e 0) = Scheduled \<and> ex_queue e = [0])"

lemma ping_round:
  assumes "ping_state th e"
  obtains e1 e2 where "ping_main th 0 () MainWaker (e\<lparr>ex_woke := False\<rparr>) = Ret (Pending, (), e1)"
    and "tick debug th (pong_futures th) P polls_per_tick e1 = Ret ([0], e2)" and "ping_state th e2"
proof -
  let ?e1 = "rc_wake (TaskWaker 0) (e\<lparr>ex_woke := False\<rparr>)"
  let ?e2 = "run_pending 0 () (run_started 0 (popped ?e1)\<lparr>ex_woke := True\<rparr>)"
  have e1: "ex_created_on ?e1 = th" "tk_payload (ex_tasks ?e1 0) = Future ()" "\<not> tk_borrowed (ex_tasks ?e1 0)"
    "tk_state (ex_tasks ?e1 0) = Scheduled" "ex_queue ?e1 = [0]"
    using assms by (auto simp: ping_state_def update_task_def Let_def)
  have main: "ping_main th 0 () MainWaker (e\<lparr>ex_woke := False\<rparr>) = Ret (Pending, (), ?e1)"
    using assms by (simp add: ping_main_def waker_wake_def assert_not_sent_def ping_state_def)
  have "run debug th (pong_futures th) 0 (popped ?e1) = Ret ?e2"
    using e1 by (simp add: run_unfold pong_futures_def popped_def run_started_def waker_wake_def assert_not_sent_def)
  then have "tick debug th (pong_futures th) P polls_per_tick ?e1 = Ret ([0], ?e2)"
    using e1(5) by (simp add: tick_pos polls_per_tick_def run_pending_def)
  moreover have "ping_state th ?e2"
    using e1 by (simp add: ping_state_def run_pending_def run_started_def popped_def)
  ultimately show thesis using that main by blast
qed

text \<open>
  C39. A main future and a task that wake each other keep the runtime from parking: \<open>block_on\<close> goes
  on for ever (it does not return) without a single call of its parker, for the result is the
  same for every parker, be it one that panics. The bound of 61 polls between two parks starts
  anew whenever the main future was woken, so no timer and no I/O is ever served.
\<close>

theorem ping_pong_never_parks:
  "block_on debug th (pong_futures th) P (ping_main th 0) () (snd (spawn () (executor_new th p))) = None"
proof -
  have "\<lbrakk>block_on_loop debug th X P main g e = Some y; X = pong_futures th; main = ping_main th 0; ping_state th e\<rbrakk> \<Longrightarrow> False"
    for X main g e y
  proof (induction rule: block_on_loop_induct)
    case (1 loop debug th X P main g e y)
    obtain e1 e2 where "ping_main th 0 () MainWaker (e\<lparr>ex_woke := False\<rparr>) = Ret (Pending, (), e1)"
      and "tick debug th (pong_futures th) P polls_per_tick e1 = Ret ([0], e2)" and e2: "ping_state th e2"
      using ping_round [OF 1(5)] .
    moreover have "ex_woke e" using 1(5) by (simp add: ping_state_def)
    ultimately have "loop debug th X P main () e2 = Some y" using 1(2-4) by simp
    from 1(1) [OF this 1(3,4) e2] show False .
  qed
  moreover have "ping_state th (snd (spawn () (executor_new th p))\<lparr>ex_woke := True\<rparr>)"
    by (simp add: ping_state_def spawn_def executor_new_def Let_def)
  ultimately show ?thesis unfolding block_on_def by (metis not_None_eq)
qed

section \<open>Spawning and joining\<close>

text \<open>A task that yields \<open>k\<close> times and then has the output \<open>v\<close>.\<close>

definition job_poll ::
    "nat \<Rightarrow> nat \<times> 'o \<Rightarrow> waker \<Rightarrow> (nat \<times> 'o, 'o, 'p) executor \<Rightarrow> ('o poll \<times> (nat \<times> 'o) \<times> (nat \<times> 'o, 'o, 'p) executor) m" where
  "job_poll th f cx e =
     (case f of
        (0, v) \<Rightarrow> Ret (Ready v, f, e)
      | (Suc k, v) \<Rightarrow> bindM (waker_wake th cx e) (\<lambda>e. Ret (Pending, (k, v), e)))"

definition job_futures :: "nat \<Rightarrow> (nat \<times> 'o, 'o, 'p) future_api" where
  "job_futures th = \<lparr>f_poll = job_poll th, f_drop = (\<lambda>_ e. Ret e)\<rparr>"

text \<open>The main future \<open>async { spawn(job).await }\<close> before its first poll and at its await.\<close>

datatype 'f joiner = Spawning 'f | Joining join_handle

definition await_join ::
    "nat \<Rightarrow> join_handle \<Rightarrow> waker \<Rightarrow> 'r option \<Rightarrow> ('f, 'o, 'p) executor \<Rightarrow>
     ('o poll \<times> 'f joiner \<times> 'r option \<times> ('f, 'o, 'p) executor) m" where
  "await_join th h cx current e =
     bindM (join_handle_poll th h cx e) (\<lambda>(r, e). Ret (r, Joining h, current, e))"

fun join_main ::
    "nat \<Rightarrow> 'f joiner \<Rightarrow> waker \<Rightarrow> 'r option \<Rightarrow> ('f, 'o, 'p) executor \<Rightarrow>
     ('o poll \<times> 'f joiner \<times> 'r option \<times> ('f, 'o, 'p) executor) m" where
  "join_main th (Spawning f) cx current e =
     bindM (spawn_current current f e) (\<lambda>(h, e). await_join th h cx current e)"
| "join_main th (Joining h) cx current e = await_join th h cx current e"

text \<open>
  Task 0 still has to yield \<open>k\<close> times and the main future waits for it; or it is done and the main
  future was woken. No other task was spawned.
\<close>

definition joining :: "nat \<Rightarrow> 'o \<Rightarrow> nat \<Rightarrow> (nat \<times> 'o, 'o, 'p) executor \<Rightarrow> bool" where
  "joining th v k e \<longleftrightarrow> ex_created_on e = th \<and> ex_queue e = [0] \<and> (\<forall>t > 0. tk_state (ex_tasks e t) = Done) \<and>
     ex_tasks e 0 = \<lparr>tk_awaiter = Some MainWaker, tk_state = Scheduled, tk_payload = Future (k, v), tk_borrowed = False\<rparr>"

definition joined :: "nat \<Rightarrow> 'o \<Rightarrow> (nat \<times> 'o, 'o, 'p) executor \<Rightarrow> bool" where
  "joined th v e \<longleftrightarrow> ex_created_on e = th \<and> ex_woke e \<and> tk_payload (ex_tasks e 0) = Output v \<and> \<not> tk_borrowed (ex_tasks e 0)"

lemma joining_run:
  assumes "joining th v k e"
  shows "\<exists>e'. run debug th (job_futures th) 0 (popped e) = Ret e' \<and>
    (case k of 0 \<Rightarrow> joined th v e' | Suc m \<Rightarrow> joining th v m e' \<and> ex_woke e' = ex_woke e)"
  using assms
  by (cases k) (auto simp: joining_def joined_def run_unfold job_futures_def job_poll_def waker_wake_def assert_not_sent_def
      run_started_def run_pending_def run_done_def popped_def util_wake_same_thread update_task_def Let_def)

text \<open>One poll of the main future inside the runtime, as \<open>block_on\<close> makes it.\<close>

definition join_step ::
    "nat \<Rightarrow> 'r \<Rightarrow> ('r, 'f joiner) entering \<times> 'r option \<Rightarrow> waker \<Rightarrow> ('f, 'o, 'p) executor \<Rightarrow>
     (('o \<times> 'r option) poll \<times> (('r, 'f joiner) entering \<times> 'r option) \<times> ('f, 'o, 'p) executor) m" where
  "join_step th r = (\<lambda>(st, current) cx e. bindM (entering_poll r (join_main th) st cx current e)
     (\<lambda>(p, st, current, e). Ret (map_poll_value (\<lambda>val. (val, current)) p, (st, current), e)))"

lemma join_step_joining:
  assumes "joining th v k e"
  shows "\<exists>e'. join_step th r (EnterRunning current (Joining (join_handle_new (Task 0))), c) MainWaker (e\<lparr>ex_woke := False\<rparr>) =
      Ret (Pending, (EnterRunning current (Joining (join_handle_new (Task 0))), c), e') \<and>
    joining th v k e' \<and> \<not> ex_woke e'"
  using assms
  by (simp add: join_step_def entering_poll_def await_join_def joining_def poll_output_def borrow_payload_def
      release_payload_def waker_clone_def assert_not_sent_def update_task_def)

lemma join_step_joined:
  assumes "joined th v e"
  shows "\<exists>g e'. join_step th r (EnterRunning current (Joining (join_handle_new (Task 0))), c) MainWaker (e\<lparr>ex_woke := False\<rparr>) =
      Ret (Ready (v, current), g, e')"
  using assms
  by (simp add: join_step_def entering_poll_def await_join_def joined_def poll_output_def borrow_payload_def
      release_payload_def guard_drop_def update_task_def)

lemma joining_wake: "joining th v k e \<Longrightarrow> joining th v k (rc_wake w e)"
proof (cases w)
  case (TaskWaker t)
  then show "joining th v k e \<Longrightarrow> ?thesis" by (cases "t = 0") (auto simp: joining_def)
qed (simp add: joining_def)

lemma join_worker:
  fixes P :: "('p, waker) park_api" and v :: 'o
  assumes "\<And>p. fst (pk_park_timeout P p 0 []) = Inr ()"
  shows "worker_program debug th (job_futures th) P (join_step th r)
    (EnterRunning current (Joining (join_handle_new (Task 0))), c) (v, current) (joining th v) (joined th v)"
proof
  fix k and e :: "(nat \<times> 'o, 'o, 'p) executor"
  assume j: "joining th v k e"
  show "ex_queue e = [0] \<and> ex_created_on e = th" using j by (simp add: joining_def)
  show "joining th v k (rc_wake w e)" for w by (rule joining_wake [OF j])
  show "\<exists>ws p. pk_park_timeout P (ex_parker e) 0 [] = (Inr (), ws, p) \<and> joining th v k (e\<lparr>ex_parker := p\<rparr>)"
    using assms [of "ex_parker e"] j by (cases "pk_park_timeout P (ex_parker e) 0 []") (simp add: joining_def)
  show "\<exists>e'. run debug th (job_futures th) 0 (popped e) = Ret e' \<and>
      (case k of 0 \<Rightarrow> joined th v e' | Suc m \<Rightarrow> joining th v m e' \<and> ex_woke e' = ex_woke e)"
    by (rule joining_run [OF j])
  show "\<exists>e'. join_step th r (EnterRunning current (Joining (join_handle_new (Task 0))), c) MainWaker (e\<lparr>ex_woke := False\<rparr>) =
      Ret (Pending, (EnterRunning current (Joining (join_handle_new (Task 0))), c), e') \<and> joining th v k e' \<and> \<not> ex_woke e'"
    by (rule join_step_joining [OF j])
next
  fix e :: "(nat \<times> 'o, 'o, 'p) executor"
  assume j: "joined th v e"
  show "ex_woke e" using j by (simp add: joined_def)
  show "\<exists>g' e'. join_step th r (EnterRunning current (Joining (join_handle_new (Task 0))), c) MainWaker (e\<lparr>ex_woke := False\<rparr>) =
      Ret (Ready (v, current), g', e')" by (rule join_step_joined [OF j])
qed

interpretation join_logged: worker_program True th "job_futures th" log_park "join_step th r"
    "(EnterRunning current (Joining (join_handle_new (Task 0))), c)" "(v, current)" "joining th v" "joined th v" for th r current c v
  by (rule join_worker) simp

text \<open>
  C7. Joining ends: \<open>block_on(async { spawn(job).await })\<close> returns the output of the job, however
  often the job yields before it is done (also more than the 61 polls between two parks), as
  long as parking with a zero timeout works; and it restores the current runtime.
\<close>

theorem join_program_ends:
  assumes "\<And>p. fst (pk_park_timeout P p 0 []) = Inr ()"
  shows "\<exists>e'. runtime_block_on debug th (job_futures th) P r (join_main th) (Spawning (k, v)) current (executor_new th p) =
      Ret (v, current, e')"
proof -
  let ?start = "(EnterStart (Spawning (k, v)), current)" and ?e = "executor_new th p\<lparr>ex_woke := True\<rparr>"
  let ?g = "(EnterRunning current (Joining (join_handle_new (Task 0))), Some r)"
  obtain e1 where m: "join_step th r ?start MainWaker (?e\<lparr>ex_woke := False\<rparr>) = Ret (Pending, ?g, e1)"
    and j: "joining th v k e1" "\<not> ex_woke e1"
    by (simp add: join_step_def entering_poll_def enter_def spawn_current_def unwrap_current_def runtime_spawn_def spawn_def
        await_join_def joining_def executor_new_def poll_output_def borrow_payload_def release_payload_def waker_clone_def
        assert_not_sent_def update_task_def Let_def)
  have "ex_woke ?e" by simp
  note start = loop_pending [where main_poll = "join_step th r", OF this m j(2), of debug th "job_futures th" P]
  obtain e2 where "block_on_loop debug th (job_futures th) P (join_step th r) ?g e1 = Ret ((v, current), e2)"
    using worker_program.loop_ends [OF join_worker [OF assms] j(1), of debug r current "Some r"] by blast
  then have "block_on debug th (job_futures th) P (join_step th r) ?start (executor_new th p) = Ret ((v, current), e2)"
    by (simp add: block_on_def start)
  then show ?thesis by (simp add: runtime_block_on_def join_step_def)
qed

theorem join_program_ends_witness:
  "\<exists>e'. runtime_block_on True 0 (job_futures 0) log_park (5 :: nat) (join_main 0) (Spawning (100, 7 :: nat)) None (executor_new 0 []) =
     Ret (7, None, e')"
  by (rule join_program_ends) (simp add: log_park_def)

end
