(* ===== verification/Hyper_Server.thy ===== *)
theory Hyper_Server
  imports Net_Properties Runtime_Properties
begin

text \<open>
  \<open>src/examples/hyper.rs\<close>: a server whose main future accepts connections and spawns a task for
  each, and the adapters that let \<open>hyper\<close> use the sockets and the executor of this crate. The crates
  \<open>hyper\<close> and \<open>tokio\<close> are parameters: what \<open>serve_connection\<close> makes of a stream is a function into
  the futures that tasks run, and tokio's \<open>ReadBuf\<close> a record of its operations.
\<close>

section \<open>The adapters\<close>

type_synonym byte = "8 word"

text \<open>
  A \<open>ReadBuf\<close> has a filled part and, once it is initialised, an unfilled part of bytes; \<open>rb_put\<close> is
  a write through the slice that \<open>initialize_unfilled\<close> returns.
\<close>

record 'b read_buf_api =
  rb_filled :: "'b \<Rightarrow> byte list"
  rb_unfilled :: "'b \<Rightarrow> byte list"
  rb_initialize_unfilled :: "'b \<Rightarrow> 'b"
  rb_put :: "byte list \<Rightarrow> 'b \<Rightarrow> 'b"
  rb_advance :: "nat \<Rightarrow> 'b \<Rightarrow> 'b m"

datatype 't hyper_stream = HyperStream (hs_stream: "'t async")

text \<open>Reading from the socket writes into the slice, which is therefore part of its state.\<close>

definition hyper_poll_read ::
    "('s, 'w source) slab_api \<Rightarrow> ('q, 'e) poller_api \<Rightarrow> 'b read_buf_api \<Rightarrow>
     ('t \<Rightarrow> byte list \<times> 'n \<Rightarrow> usize io_result \<times> byte list \<times> 'n) \<Rightarrow> 'w \<Rightarrow> 't hyper_stream \<Rightarrow> 'b \<Rightarrow> 'n \<Rightarrow>
     ('s, 'q, 'e) reactor \<Rightarrow> (unit io_result poll \<times> 'b \<times> 'n \<times> ('s, 'q, 'e) reactor \<times> 'w list) m" where
  "hyper_poll_read A Q B rd cx s buf n x =
     (let buf = rb_initialize_unfilled B buf in
      bindM (poll_read A Q rd cx (hs_stream s) (rb_unfilled B buf, n) x) (\<lambda>(poll, (slice, n), x, out).
        let buf = rb_put B slice buf in
        bindM (case poll of Ready (Inr num) \<Rightarrow> rb_advance B (unat num) buf | _ \<Rightarrow> Ret buf) (\<lambda>buf.
          Ret (map_poll_value (map_sum id (\<lambda>_. ())) poll, buf, n, x, out))))"

definition hyper_poll_write where "hyper_poll_write A Q wr cx s = poll_write A Q wr cx (hs_stream s)"
definition hyper_poll_flush where "hyper_poll_flush A Q fl cx s = poll_flush A Q fl cx (hs_stream s)"
definition hyper_poll_shutdown where "hyper_poll_shutdown shutdown_write s = poll_close shutdown_write (hs_stream s)"

definition execute :: "'r option \<Rightarrow> 'f \<Rightarrow> ('f, 'o, 'p) executor \<Rightarrow> ('f, 'o, 'p) executor m" where
  "execute current fut e = bindM (spawn_current current fut e) (\<lambda>(_, e). Ret e)"

section \<open>The server\<close>

text \<open>The body of each response. \<open>Infallible\<close> is a type without values.\<close>

definition hello :: "'req \<Rightarrow> 'infallible + string" where
  "hello _ = Inr ''Hello World!''"

text \<open>
  The main future before its first poll, and while it awaits \<open>accept\<close> on its listener. The join
  handle of a spawned task is dropped, which does nothing.
\<close>

datatype ('addr, 'l) server = ServerStart 'addr | ServerAccepting "'l async" io_state

partial_function (option) accept_loop ::
    "bool \<Rightarrow> nat \<Rightarrow> ('s, waker source) slab_api \<Rightarrow> ('q, 'e) poller_api \<Rightarrow> ('n, 'addr, 'l, 't) tcp_api \<Rightarrow>
     ('t hyper_stream \<Rightarrow> ('req \<Rightarrow> 'i + string) \<Rightarrow> 'f) \<Rightarrow> 'l async \<Rightarrow> waker \<Rightarrow> 'r option \<Rightarrow> io_state \<Rightarrow> 'n \<Rightarrow>
     ('f, 'o, 's, 'q, 'e) runtime \<Rightarrow>
     ('a poll \<times> (('addr, 'l) server \<times> 'n) \<times> 'r option \<times> ('f, 'o, 's, 'q, 'e) runtime) m" where
  "accept_loop debug th A Q N serve listener cx current st n rt =
     (case listener_accept A Q N cx listener st n (runtime_reactor rt) of
        None \<Rightarrow> None
      | Some (Inl p) \<Rightarrow> Panic p
      | Some (Inr (result, st, n, x, out)) \<Rightarrow>
          (case wake_all debug th out (put_reactor x rt) of
             None \<Rightarrow> None
           | Some (Inl p) \<Rightarrow> Panic p
           | Some (Inr rt) \<Rightarrow>
               (case result of
                  Pending \<Rightarrow> Ret (Pending, (ServerAccepting listener st, n), current, rt)
                | Ready (Inl _) \<Rightarrow> Panic UnwrapErr
                | Ready (Inr (stream, _)) \<Rightarrow>
                    (case spawn_current current (serve (HyperStream stream) hello) rt of
                       None \<Rightarrow> None
                     | Some (Inl p) \<Rightarrow> Panic p
                     | Some (Inr (_, rt)) \<Rightarrow>
                         accept_loop debug th A Q N serve listener cx current IoStart n rt))))"

definition server_poll ::
    "bool \<Rightarrow> nat \<Rightarrow> ('s, waker source) slab_api \<Rightarrow> ('q, 'e) poller_api \<Rightarrow> ('n, 'addr, 'l, 't) tcp_api \<Rightarrow>
     ('t hyper_stream \<Rightarrow> ('req \<Rightarrow> 'i + string) \<Rightarrow> 'f) \<Rightarrow> ('addr, 'l) server \<times> 'n \<Rightarrow> waker \<Rightarrow> 'r option \<Rightarrow>
     ('f, 'o, 's, 'q, 'e) runtime \<Rightarrow>
     ('a poll \<times> (('addr, 'l) server \<times> 'n) \<times> 'r option \<times> ('f, 'o, 's, 'q, 'e) runtime) m" where
  "server_poll debug th A Q N serve g cx current rt =
     (case g of
        (ServerStart addr, n) \<Rightarrow>
          bindM (listener_bind A Q N (current \<noteq> None) addr n (runtime_reactor rt)) (\<lambda>(result, n, x).
            case result of
              Inl _ \<Rightarrow> Panic UnwrapErr
            | Inr listener \<Rightarrow> accept_loop debug th A Q N serve listener cx current IoStart n (put_reactor x rt))
      | (ServerAccepting listener st, n) \<Rightarrow> accept_loop debug th A Q N serve listener cx current st n rt)"

definition hyper_main ::
    "bool \<Rightarrow> nat \<Rightarrow> ('s, waker source) slab_api \<Rightarrow> ('k \<Rightarrow> 'q io_result) \<Rightarrow> ('q, 'e) poller_api \<Rightarrow> ('q \<Rightarrow> instant \<times> 'q) \<Rightarrow>
     ('f, 'o, (('s, 'q, 'e) reactor, waker) clock) future_api \<Rightarrow> ('n, 'addr, 'l, 't) tcp_api \<Rightarrow>
     ('t hyper_stream \<Rightarrow> ('req \<Rightarrow> 'i + string) \<Rightarrow> 'f) \<Rightarrow> 'addr \<Rightarrow> 'n \<Rightarrow> 'r \<Rightarrow> 'r option \<Rightarrow> 'k \<Rightarrow>
     ('a \<times> 'r option \<times> ('f, 'o, 's, 'q, 'e) runtime) m" where
  "hyper_main debug th A poller_new Q read_now X N serve addr n rt current k =
     block_on_fresh debug th A poller_new Q read_now X rt (server_poll debug th A Q N serve)
       (ServerStart addr, n) current k"

section \<open>Reading into a buffer\<close>

lemma map_sum_Inr_conv:
  "map_sum f g z = Inr y \<longleftrightarrow> (\<exists>v. z = Inr v \<and> y = g v)"
  "Inr y = map_sum f g z \<longleftrightarrow> (\<exists>v. z = Inr v \<and> y = g v)"
  by (cases z; auto)+

text \<open>
  What the documentation of \<open>ReadBuf\<close> promises: initialising fills nothing, a write through the
  slice stays in the unfilled part, and advancing moves bytes from its front into the filled part.
\<close>

locale read_buf_crate =
  fixes B :: "'b read_buf_api"
  assumes initialised: "rb_filled B (rb_initialize_unfilled B b) = rb_filled B b"
    and put: "length bs = length (rb_unfilled B b) \<Longrightarrow>
          rb_filled B (rb_put B bs b) = rb_filled B b \<and> rb_unfilled B (rb_put B bs b) = bs"
    and advanced: "i \<le> length (rb_unfilled B b) \<Longrightarrow>
          \<exists>b'. rb_advance B i b = Ret b' \<and> rb_filled B b' = rb_filled B b @ take i (rb_unfilled B b)"
begin

text \<open>
  The adapter hands the bytes of a successful read over, all of them and no others, and nothing
  while the read is pending or after it failed. It never advances past the initialised part.
\<close>

lemma hyper_read_appends:
  assumes "slab_crate A" and "as_sys (hs_stream s) = Some sys" and "slab_get A (rx_sources x) (as_id (hs_stream s)) = Some so"
    and rd: "\<And>bs n r bs' n'. rd sys (bs, n) = (r, bs', n') \<Longrightarrow> length bs' = length bs \<and> (\<forall>k. r = Inr k \<longrightarrow> unat k \<le> length bs)"
  shows "\<exists>p buf' n' x' out. hyper_poll_read A Q B rd cx s buf n x = Ret (p, buf', n', x', out) \<and>
    (if p = Ready (Inr ()) then \<exists>bs m k bs'. rd sys (bs, m) = (Inr k, bs', n') \<and> rb_filled B buf' = rb_filled B buf @ take (unat k) bs'
     else rb_filled B buf' = rb_filled B buf)"
proof -
  define b where "b = rb_initialize_unfilled B buf"
  have b: "rb_filled B b = rb_filled B buf" by (simp add: b_def initialised)
  from poll_io_ends [OF assms(1-3), of Q Read rd cx "(rb_unfilled B b, n)"]
  obtain p st x' out m where io: "poll_io A Q Read rd cx (hs_stream s) (rb_unfilled B b, n) x = Ret (p, st, x', out)"
    and st: "st = snd (rd sys m)" and m: "m = (rb_unfilled B b, n) \<or> m = snd (rd sys (rb_unfilled B b, n))"
    and ok: "\<And>v. p = Ready (Inr v) \<Longrightarrow> fst (rd sys m) = Inr v" by blast
  obtain bs n1 where m1: "m = (bs, n1)" by (cases m)
  have bs: "length bs = length (rb_unfilled B b)"
    using m m1 rd [of "rb_unfilled B b" n] by (metis fst_conv prod.collapse snd_conv)
  obtain bs' n' where s1: "st = (bs', n')" by (cases st)
  have r: "rd sys (bs, n1) = (fst (rd sys m), bs', n')" using st s1 m1 by (metis prod.collapse)
  from rd [OF r] bs have bs': "length bs' = length (rb_unfilled B b)"
    and k: "\<And>k. fst (rd sys m) = Inr k \<Longrightarrow> unat k \<le> length bs'" by simp_all
  from put [OF bs'] have f: "rb_filled B (rb_put B bs' b) = rb_filled B buf" "rb_unfilled B (rb_put B bs' b) = bs'"
    by (simp_all add: b)
  show ?thesis
  proof (cases "\<exists>v. p = Ready (Inr v)")
    case True
    then obtain v where v: "p = Ready (Inr v)" by blast
    from k [OF ok [OF v]] advanced [of "unat v" "rb_put B bs' b"] f obtain buf'
      where a: "rb_advance B (unat v) (rb_put B bs' b) = Ret buf'" "rb_filled B buf' = rb_filled B buf @ take (unat v) bs'"
      by auto
    have "hyper_poll_read A Q B rd cx s buf n x = Ret (Ready (Inr ()), buf', n', x', out)"
      using io v a(1) by (simp add: hyper_poll_read_def poll_read_def b_def [symmetric] s1)
    moreover have "rd sys (bs, n1) = (Inr v, bs', n')" using r ok [OF v] by simp
    ultimately show ?thesis using a(2) by auto
  next
    case False
    then have "hyper_poll_read A Q B rd cx s buf n x =
        Ret (map_poll_value (map_sum id (\<lambda>_. ())) p, rb_put B bs' b, n', x', out)"
      using io by (cases p) (auto simp: hyper_poll_read_def poll_read_def b_def [symmetric] s1 Let_def split: sum.split)
    moreover have "map_poll_value (map_sum id (\<lambda>_. ())) p \<noteq> Ready (Inr ())"
      using False by (auto simp: map_poll_value_conv map_sum_Inr_conv)
    ultimately show ?thesis using f(1) by simp
  qed
qed

end

text \<open>A buffer of a fixed size: its filled part and all bytes behind it.\<close>

definition vec_buf :: "(byte list \<times> byte list) read_buf_api" where
  "vec_buf = \<lparr>rb_filled = fst, rb_unfilled = snd, rb_initialize_unfilled = (\<lambda>b. b), rb_put = (\<lambda>bs (f, _). (f, bs)),
     rb_advance = (\<lambda>i (f, u). if i \<le> length u then Ret (f @ take i u, drop i u) else Panic AssertFailed)\<rparr>"

interpretation vec: read_buf_crate vec_buf
  by unfold_locales (auto simp: vec_buf_def)

section \<open>Accepting connections\<close>

text \<open>
  A one-shot poller that takes every descriptor it does not hold yet, and changes those it holds.
\<close>

locale registering_poller = oneshot_poller Q regs
  for Q :: "('q, 'e) poller_api" and regs :: "'q \<Rightarrow> raw_fd \<Rightarrow> event option" +
  assumes add_free: "regs q fd = None \<Longrightarrow> fst (p_add Q fd ev q) = Inr ()"
    and update_held: "regs q fd \<noteq> None \<Longrightarrow> fst (p_update Q fd ev q) = Inr ()"

text \<open>
  A listening socket with its queue of established connections: \<open>accept\<close> takes the first of them,
  and would block when there is none.
\<close>

locale backlog_listener =
  fixes N :: "('n, 'addr, 'l, 't) tcp_api" and backlog :: "'n \<Rightarrow> ('t \<times> 'addr) list"
  assumes accept_none: "backlog n = [] \<Longrightarrow> would_block (fst (tcp_accept N sys n)) \<and> backlog (snd (tcp_accept N sys n)) = []"
    and accept_first: "backlog n = c # cs \<Longrightarrow> fst (tcp_accept N sys n) = Inr c \<and> backlog (snd (tcp_accept N sys n)) = cs"
    and nonblocking: "fst (tcp_nonblocking N s n) = Inr () \<and> backlog (snd (tcp_nonblocking N s n)) = backlog n"

text \<open>
  What serving the connections \<open>cs\<close> does to the runtime: a task for each of them, in their order,
  queued behind those that were there and owning a registered stream; nothing else of the tasks
  and of the registrations changes.
\<close>

definition serves ::
    "('s, waker source) slab_api \<Rightarrow> ('t \<Rightarrow> raw_fd) \<Rightarrow> ('t async \<Rightarrow> 'f) \<Rightarrow> 't list \<Rightarrow> ('f, 'o, 's, 'q, 'e) runtime \<Rightarrow>
     ('f, 'o, 's, 'q, 'e) runtime \<Rightarrow> bool" where
  "serves A raw task cs rt rt' \<longleftrightarrow>
     ex_queue rt' = ex_queue rt @ [ex_next rt..<ex_next rt + length cs] \<and>
     (\<forall>t < ex_next rt. ex_tasks rt' t = ex_tasks rt t) \<and>
     (\<forall>k so. slab_get A (rx_sources (runtime_reactor rt)) k = Some so \<longrightarrow>
        (\<exists>so'. slab_get A (rx_sources (runtime_reactor rt')) k = Some so' \<and> so_raw so' = so_raw so)) \<and>
     (\<forall>i < length cs. \<exists>a so. as_sys a = Some (cs ! i) \<and> tk_payload (ex_tasks rt' (ex_next rt + i)) = Future (task a) \<and>
        slab_get A (rx_sources (runtime_reactor rt')) (as_id a) = Some so \<and> so_raw so = raw (cs ! i))"

lemma spawn_facts:
  assumes "spawn f rt = (t, rt')"
  shows "t = ex_next rt" "ex_queue rt' = ex_queue rt @ [ex_next rt]" "ex_next rt' = Suc (ex_next rt)"
    and "tk_payload (ex_tasks rt' (ex_next rt)) = Future f" "t' \<noteq> ex_next rt \<Longrightarrow> ex_tasks rt' t' = ex_tasks rt t'"
    and "ex_parker rt' = ex_parker rt"
  using assms by (auto simp: spawn_def Let_def)

lemma serves_first:
  assumes spawn: "spawn (task a) (put_reactor x rt) = (t, rt1)" and a: "as_sys a = Some c"
    and so: "slab_get A (rx_sources x) (as_id a) = Some so" "so_raw so = raw c"
    and keep: "\<And>k s. slab_get A (rx_sources (runtime_reactor rt)) k = Some s \<Longrightarrow>
      \<exists>s'. slab_get A (rx_sources x) k = Some s' \<and> so_raw s' = so_raw s"
    and rest: "serves A raw task cs rt1 rt'"
  shows "serves A raw task (c # cs) rt rt'"
proof -
  note S = spawn_facts [OF spawn, simplified]
  have x: "runtime_reactor rt1 = x"
    using S(6) put_reactor_simps(1) [of x rt] by (simp add: runtime_reactor_def runtime_clock_def)
  note R = rest [unfolded serves_def x S(3)]
  have kept: "\<exists>so'. slab_get A (rx_sources (runtime_reactor rt')) k = Some so' \<and> so_raw so' = so_raw s"
    if "slab_get A (rx_sources x) k = Some s" for k s using R that by blast
  have first: "\<exists>so. slab_get A (rx_sources (runtime_reactor rt')) (as_id a) = Some so \<and> so_raw so = raw c"
    using kept [OF so(1)] so(2) by simp
  have "ex_tasks rt' (ex_next rt) = ex_tasks rt1 (ex_next rt)" using R by simp
  with S(4) have payload: "tk_payload (ex_tasks rt' (ex_next rt)) = Future (task a)" by simp
  show ?thesis unfolding serves_def
  proof (intro conjI allI impI)
    show "ex_queue rt' = ex_queue rt @ [ex_next rt..<ex_next rt + length (c # cs)]"
      using R S(2) upt_conv_Cons [of "ex_next rt" "ex_next rt + length (c # cs)"] by (simp del: upt_Suc)
    show "ex_tasks rt' t = ex_tasks rt t" if "t < ex_next rt" for t using that R S(5) [of t] by simp
    show "\<exists>so'. slab_get A (rx_sources (runtime_reactor rt')) k = Some so' \<and> so_raw so' = so_raw s"
      if "slab_get A (rx_sources (runtime_reactor rt)) k = Some s" for k s
      using keep [OF that] kept by fastforce
    fix i assume "i < length (c # cs)"
    then show "\<exists>a so. as_sys a = Some ((c # cs) ! i) \<and> tk_payload (ex_tasks rt' (ex_next rt + i)) = Future (task a) \<and>
        slab_get A (rx_sources (runtime_reactor rt')) (as_id a) = Some so \<and> so_raw so = raw ((c # cs) ! i)"
      using R first payload a by (cases i) auto
  qed
qed

locale server_env = slab_crate A + registering_poller Q regs + backlog_listener N backlog
  for A :: "('s, waker source) slab_api" and Q :: "('q, 'e) poller_api" and regs :: "'q \<Rightarrow> raw_fd \<Rightarrow> event option"
    and N :: "('n, 'addr, 'l, 't) tcp_api" and backlog :: "'n \<Rightarrow> ('t \<times> 'addr) list"
begin

text \<open>A connection that waits is accepted and registered, and nothing else changes.\<close>

lemma accept_connection:
  assumes l: "as_sys l = Some sys" and n: "backlog n = (s, addr) # cs" and free: "regs (rx_poller x) (tcp_raw N s) = None"
  obtains n' x' k ev where "listener_accept A Q N cx l IoStart n x =
      Ret (Ready (Inr (\<lparr>as_id = k, as_sys = Some s\<rparr>, addr)), IoStart, n', x', [])"
    and "backlog n' = cs" and "slab_get A (rx_sources x) k = None"
    and "slab_get A (rx_sources x') = (slab_get A (rx_sources x))
      (k \<mapsto> \<lparr>so_raw = tcp_raw N s, so_reader = interest_default, so_writer = interest_default\<rparr>)"
    and "regs (rx_poller x') = (regs (rx_poller x))(tcp_raw N s \<mapsto> ev)"
proof -
  define k where "k = slab_vacant_key A (rx_sources x)"
  define ev where "ev = \<lparr>ev_key = of_nat k :: usize, ev_readable = False, ev_writable = False\<rparr>"
  define so where "so = (\<lparr>so_raw = tcp_raw N s, so_reader = interest_default, so_writer = interest_default\<rparr> :: waker source)"
  obtain n1 where a: "tcp_accept N sys n = (Inr (s, addr), n1)" "backlog n1 = cs"
    using accept_first [OF n, of sys] by (metis prod.collapse)
  obtain n2 where b: "tcp_nonblocking N s n1 = (Inr (), n2)" "backlog n2 = cs"
    using nonblocking [of s n1] a(2) by (metis prod.collapse)
  obtain q where q: "p_add Q (tcp_raw N s) ev (rx_poller x) = (Inr (), q)"
    using add_free [OF free, of ev] by (metis prod.collapse)
  obtain ss where ss: "slab_insert A (rx_sources x) so = (k, ss)" "slab_get A ss = (slab_get A (rx_sources x))(k \<mapsto> so)"
    unfolding k_def by (rule insert_eq)
  have "async_new A Q (tcp_raw N) s x = (Inr \<lparr>as_id = k, as_sys = Some s\<rparr>, x\<lparr>rx_poller := q, rx_sources := ss\<rparr>)"
    using q ss(1) by (simp add: async_new_def insert_source_def Let_def k_def [symmetric] ev_def [symmetric] so_def [symmetric])
  then have "listener_accept A Q N cx l IoStart n x = Ret (Ready (Inr (\<lparr>as_id = k, as_sys = Some s\<rparr>, addr)), IoStart, n2,
      x\<lparr>rx_poller := q, rx_sources := ss\<rparr>, [])"
    using l a(1) b(1) by (simp add: listener_accept_def do_io_poll_def async_sys_def
        do_io_loop.simps [of A Q "as_id l" Read "tcp_accept N sys" cx IoStart n x] would_block_def accepted_def)
  with b(2) ss(2) add_ok [OF q] vacant_key [of "rx_sources x"] show thesis
    by (intro that [of k n2 "x\<lparr>rx_poller := q, rx_sources := ss\<rparr>" ev]) (simp_all add: k_def so_def)
qed

text \<open>Without a connection the poll leaves its waker with the listener and is pending.\<close>

lemma accept_waits:
  assumes l: "as_sys l = Some sys" and n: "backlog n = []"
    and so: "slab_get A (rx_sources x) (as_id l) = Some so" "in_poller (so_reader so) = None" "\<not> in_woke (so_reader so)"
    and held: "regs (rx_poller x) (so_raw so) \<noteq> None"
  shows "\<exists>n' x' so'. listener_accept A Q N cx l IoStart n x = Ret (Pending, IoWaiting, n', x', []) \<and> backlog n' = [] \<and>
    slab_get A (rx_sources x') = (slab_get A (rx_sources x))(as_id l \<mapsto> so') \<and> so_raw so' = so_raw so \<and>
    in_poller (so_reader so') = Some cx"
proof -
  obtain e n1 where a: "tcp_accept N sys n = (Inl e, n1)" "would_block (Inl e :: ('t \<times> 'addr) io_result)" "backlog n1 = []"
    using accept_none [OF n, of sys] by (cases "tcp_accept N sys n") (auto simp: would_block_def split: sum.splits)
  let ?so = "so\<lparr>so_reader := (so_reader so)\<lparr>in_poller := Some cx\<rparr>\<rparr>"
  obtain q where q: "update_interest Q (as_id l) ?so (rx_poller x) = (Inr (), q)"
    using update_held [OF held] unfolding update_interest_def by (metis prod.collapse source.select_convs(1) source.surjective source.update_convs(2))
  have p: "poll_ready A Q (as_id l) Read cx x =
      Ret (Pending, x\<lparr>rx_sources := slab_set A (rx_sources x) (as_id l) ?so, rx_poller := q\<rparr>, [])"
    using so q by (simp add: poll_ready_def Let_def)
  have "listener_accept A Q N cx l IoStart n x =
      Ret (Pending, IoWaiting, n1, x\<lparr>rx_sources := slab_set A (rx_sources x) (as_id l) ?so, rx_poller := q\<rparr>, [])"
    using l a p by (simp add: listener_accept_def do_io_poll_def async_sys_def
        do_io_loop.simps [of A Q "as_id l" Read "tcp_accept N sys" cx IoStart n x]
        do_io_loop.simps [of A Q "as_id l" Read "tcp_accept N sys" cx IoWaiting n1 x])
  with a(3) so(1) show ?thesis
    by (intro exI [of _ n1] exI [of _ "x\<lparr>rx_sources := slab_set A (rx_sources x) (as_id l) ?so, rx_poller := q\<rparr>"] exI [of _ ?so])
      (simp add: get_set)
qed

text \<open>A poll after readiness clears the flag and begins again.\<close>

lemma accept_resumes:
  assumes l: "as_sys l = Some sys" and so: "slab_get A (rx_sources x) (as_id l) = Some so" "in_woke (so_reader so)"
  shows "\<exists>x'. (\<forall>cx n. listener_accept A Q N cx l IoWaiting n x = listener_accept A Q N cx l IoStart n x') \<and>
    rx_poller x' = rx_poller x \<and>
    slab_get A (rx_sources x') = (slab_get A (rx_sources x))(as_id l \<mapsto> so\<lparr>so_reader := (so_reader so)\<lparr>in_woke := False\<rparr>\<rparr>)"
proof -
  let ?x = "x\<lparr>rx_sources := slab_set A (rx_sources x) (as_id l) (so\<lparr>so_reader := (so_reader so)\<lparr>in_woke := False\<rparr>\<rparr>)\<rparr>"
  have "poll_ready A Q (as_id l) Read cx x = Ret (Ready (Inr ()), ?x, [])" for cx
    using so by (simp add: poll_ready_def Let_def)
  then have "listener_accept A Q N cx l IoWaiting n x = listener_accept A Q N cx l IoStart n ?x" for cx n
    using l by (simp add: listener_accept_def do_io_poll_def async_sys_def
        do_io_loop.simps [of A Q "as_id l" Read "tcp_accept N sys" cx IoWaiting n x])
  with so show ?thesis by (intro exI [of _ ?x]) (simp add: get_set)
qed

lemma accept_blocks:
  assumes l: "as_sys l = Some sys" and n: "backlog n = []"
    and so: "slab_get A (rx_sources x) (as_id l) = Some so" "in_poller (so_reader so) = None"
    and held: "regs (rx_poller x) (so_raw so) \<noteq> None" and st: "st = IoStart \<or> in_woke (so_reader so)"
  shows "\<exists>n' x' so'. listener_accept A Q N cx l st n x = Ret (Pending, IoWaiting, n', x', []) \<and> backlog n' = [] \<and>
    slab_get A (rx_sources x') = (slab_get A (rx_sources x))(as_id l \<mapsto> so') \<and> so_raw so' = so_raw so \<and>
    in_poller (so_reader so') = Some cx"
proof (cases "in_woke (so_reader so)")
  case False
  with accept_waits [OF l n so False held, of cx] st show ?thesis by simp
next
  case True
  let ?so = "so\<lparr>so_reader := (so_reader so)\<lparr>in_woke := False\<rparr>\<rparr>"
  obtain x1 where w: "\<And>n. listener_accept A Q N cx l IoWaiting n x = listener_accept A Q N cx l IoStart n x1"
    and x1: "rx_poller x1 = rx_poller x" "slab_get A (rx_sources x1) = (slab_get A (rx_sources x))(as_id l \<mapsto> ?so)"
    using accept_resumes [OF l so(1) True] by blast
  have wait: "\<exists>n' x' so'. listener_accept A Q N cx l IoWaiting n x = Ret (Pending, IoWaiting, n', x', []) \<and> backlog n' = [] \<and>
      slab_get A (rx_sources x') = (slab_get A (rx_sources x))(as_id l \<mapsto> so') \<and> so_raw so' = so_raw so \<and>
      in_poller (so_reader so') = Some cx" if "backlog n = []" for n
  proof -
    have "slab_get A (rx_sources x1) (as_id l) = Some ?so" "in_poller (so_reader ?so) = None" "\<not> in_woke (so_reader ?so)"
      "regs (rx_poller x1) (so_raw ?so) \<noteq> None" using x1 so(2) held by simp_all
    from accept_waits [OF l that this, of cx] show ?thesis unfolding w by (simp add: x1(2))
  qed
  show ?thesis
  proof (cases st)
    case IoWaiting
    with wait [OF n] show ?thesis by simp
  next
    case IoStart
    obtain e n1 where a: "tcp_accept N sys n = (Inl e, n1)" "would_block (Inl e :: ('t \<times> 'addr) io_result)" "backlog n1 = []"
      using accept_none [OF n, of sys] by (cases "tcp_accept N sys n") (auto simp: would_block_def split: sum.splits)
    have "listener_accept A Q N cx l IoStart n x = listener_accept A Q N cx l IoWaiting n1 x"
      using l a by (simp add: listener_accept_def do_io_poll_def async_sys_def
          do_io_loop.simps [of A Q "as_id l" Read "tcp_accept N sys" cx IoStart n x])
    with wait [OF a(3)] IoStart show ?thesis by simp
  qed
qed

text \<open>All connections of the queue are accepted in one poll.\<close>

lemma accept_loop_serves:
  fixes r :: 'r and rt :: "('f, 'o, 's, 'q, 'e) runtime"
  assumes l: "as_sys l = Some sys" and n: "backlog n = cs"
    and so: "slab_get A (rx_sources (runtime_reactor rt)) (as_id l) = Some so" "in_poller (so_reader so) = None"
    and held: "regs (rx_poller (runtime_reactor rt)) (so_raw so) \<noteq> None"
    and st: "st = IoStart \<or> in_woke (so_reader so)"
    and new: "distinct (map (tcp_raw N \<circ> fst) cs)" "\<forall>c \<in> set cs. regs (rx_poller (runtime_reactor rt)) (tcp_raw N (fst c)) = None"
  shows "\<exists>n' rt'. accept_loop debug th A Q N serve l cx (Some r) st n rt =
      Ret (Pending :: 'a poll, (ServerAccepting l IoWaiting, n'), Some r, rt') \<and> backlog n' = [] \<and>
    serves A (tcp_raw N) (\<lambda>a. serve (HyperStream a) hello) (map fst cs) rt rt' \<and>
    (\<exists>so'. slab_get A (rx_sources (runtime_reactor rt')) (as_id l) = Some so' \<and> in_poller (so_reader so') = Some cx)"
  using n so held st new
proof (induction cs arbitrary: n rt so st)
  case Nil
  from accept_blocks [OF l Nil(1-5), of cx] obtain n' x' so'
    where "listener_accept A Q N cx l st n (runtime_reactor rt) = Ret (Pending, IoWaiting, n', x', [])" "backlog n' = []"
      "slab_get A (rx_sources x') = (slab_get A (rx_sources (runtime_reactor rt)))(as_id l \<mapsto> so')" "so_raw so' = so_raw so"
      "in_poller (so_reader so') = Some cx" by blast
  with Nil(2) show ?case
    by (subst accept_loop.simps) (auto simp: serves_def)
next
  case (Cons c cs)
  let ?x = "runtime_reactor rt"
  note so = Cons(3,4) and held = Cons(5) and st = Cons(6)
  obtain s addr where c: "c = (s, addr)" by (cases c)
  obtain x so1 where x: "listener_accept A Q N cx l st n ?x = listener_accept A Q N cx l IoStart n x" "rx_poller x = rx_poller ?x"
    "slab_get A (rx_sources x) = (slab_get A (rx_sources ?x))(as_id l \<mapsto> so1)"
    and so1: "so_raw so1 = so_raw so" "in_poller (so_reader so1) = None"
  proof (cases st)
    case IoStart
    show thesis by (rule that [of ?x so]) (use IoStart so in auto)
  next
    case IoWaiting
    with st have "in_woke (so_reader so)" by simp
    from accept_resumes [OF l so(1) this] that IoWaiting so(2) show thesis by fastforce
  qed
  have free: "regs (rx_poller x) (tcp_raw N s) = None" using Cons(8) c x(2) by simp
  obtain n1 x1 k ev where a: "listener_accept A Q N cx l IoStart n x =
      Ret (Ready (Inr (\<lparr>as_id = k, as_sys = Some s\<rparr>, addr)), IoStart, n1, x1, [])" and n1: "backlog n1 = cs"
    and k: "slab_get A (rx_sources x) k = None"
    and x1: "slab_get A (rx_sources x1) = (slab_get A (rx_sources x))
      (k \<mapsto> \<lparr>so_raw = tcp_raw N s, so_reader = interest_default, so_writer = interest_default\<rparr>)"
      "regs (rx_poller x1) = (regs (rx_poller x))(tcp_raw N s \<mapsto> ev)"
    by (rule accept_connection [OF l Cons(2) [unfolded c] free])
  let ?a = "\<lparr>as_id = k, as_sys = Some s\<rparr>" and ?task = "\<lambda>a. serve (HyperStream a) hello"
  obtain t rt1 where sp: "spawn (?task ?a) (put_reactor x1 rt) = (t, rt1)" by fastforce
  have rt1: "runtime_reactor rt1 = x1"
    using spawn_facts(6) [OF sp] put_reactor_simps(1) [of x1 rt] by (simp add: runtime_reactor_def runtime_clock_def)
  have "k \<noteq> as_id l" using k x(3) by auto
  then have l1: "slab_get A (rx_sources (runtime_reactor rt1)) (as_id l) = Some so1" by (simp add: rt1 x1 x(3))
  have step: "accept_loop debug th A Q N serve l cx (Some r) st n rt =
      (accept_loop debug th A Q N serve l cx (Some r) IoStart n1 rt1 ::
        ('a poll \<times> (('addr, 'l) server \<times> 'n) \<times> 'r option \<times> ('f, 'o, 's, 'q, 'e) runtime) m)"
    by (subst accept_loop.simps) (simp add: x(1) a spawn_current_def unwrap_current_def runtime_spawn_def sp)
  have other: "tcp_raw N (fst c') \<noteq> tcp_raw N s" if "c' \<in> set cs" for c'
    using Cons(7) c that by force
  have "\<exists>n' rt'. accept_loop debug th A Q N serve l cx (Some r) IoStart n1 rt1 =
      Ret (Pending :: 'a poll, (ServerAccepting l IoWaiting, n'), Some r, rt') \<and> backlog n' = [] \<and>
    serves A (tcp_raw N) ?task (map fst cs) rt1 rt' \<and>
    (\<exists>so'. slab_get A (rx_sources (runtime_reactor rt')) (as_id l) = Some so' \<and> in_poller (so_reader so') = Some cx)"
    by (rule Cons.IH [OF n1 l1 so1(2)]) (use Cons(5,7,8) c x(2) so1(1) other in \<open>auto simp: rt1 x1(2)\<close>)
  moreover have "serves A (tcp_raw N) ?task (map fst (c # cs)) rt rt'" if "serves A (tcp_raw N) ?task (map fst cs) rt1 rt'" for rt'
    unfolding list.map c fst_conv
    by (rule serves_first [OF sp _ _ _ _ that]) (use k x(3) so(1) so1(1) in \<open>auto simp: x1(1)\<close>)
  ultimately show ?case unfolding step by blast
qed

end

section \<open>Properties\<close>


text \<open>Two connections wait at a listener on the simulated epoll.\<close>

definition queue_tcp :: "((raw_fd \<times> nat) list, nat, unit, raw_fd) tcp_api" where
  "queue_tcp = \<lparr>tcp_bind = (\<lambda>_ n. (Inr (), n)), tcp_listener_nonblocking = (\<lambda>_ n. (Inr (), n)),
     tcp_accept = (\<lambda>_ n. case n of [] \<Rightarrow> (Inl \<lparr>err_kind = WouldBlock, err_os = None\<rparr>, []) | c # cs \<Rightarrow> (Inr c, cs)),
     tcp_nonblocking = (\<lambda>_ n. (Inr (), n)), tcp_take_error = (\<lambda>_ n. (Inr None, n)),
     tcp_listener_raw = (\<lambda>_. 5), tcp_raw = (\<lambda>s. s)\<rparr>"

lemma sim_registering: "registering_poller sim_poller (sim_regs linux_consts)"
proof (rule registering_poller.intro [OF linux_flags.sim_oneshot], unfold_locales)
  fix q fd ev
  show "sim_regs linux_consts q fd = None \<Longrightarrow> fst (p_add sim_poller fd ev q) = Inr ()"
    by (simp add: sim_regs_def epoll_poller_def epoll_add_def sim_linux_def sim_ctl_result syscall_def map_ok_def)
  show "sim_regs linux_consts q fd \<noteq> None \<Longrightarrow> fst (p_update sim_poller fd ev q) = Inr ()"
    by (simp add: sim_regs_def epoll_poller_def epoll_update_def sim_linux_def sim_ctl_result syscall_def map_ok_def)
qed

lemma queue_listener: "backlog_listener queue_tcp (\<lambda>n. n)"
  by unfold_locales (simp_all add: queue_tcp_def would_block_def)

interpretation sim_registry: registering_poller sim_poller "sim_regs linux_consts"
  by (rule sim_registering)

interpretation queue_backlog: backlog_listener queue_tcp "\<lambda>n. n"
  by (rule queue_listener)

interpretation queue_server: server_env assoc_slab sim_poller "sim_regs linux_consts" queue_tcp "\<lambda>n. n"
  by (rule server_env.intro [OF assoc.slab_crate_axioms sim_registering queue_listener])

definition ex_server :: "(raw_fd async, unit, waker source assoc_slab, sim_kernel, epoll_event) runtime" where
  "ex_server = executor_new 0 (clock_new \<lparr>rx_poller = \<lparr>sk_regs = [(5, \<lparr>ee_events = 0x40000000, ee_u64 = 0\<rparr>)], sk_ready = []\<rparr>,
     rx_events = [], rx_sources = [(0, \<lparr>so_raw = 5, so_reader = interest_default, so_writer = interest_default\<rparr>)]\<rparr>)"


end
