(* ===== verification/Oneshot_Reference.thy ===== *)
theory Oneshot_Reference
  imports Oneshot
begin

text \<open>
  What \<open>src/sync/oneshot.rs\<close> promises its users, as a machine with three states: the channel is
  open, or it holds the message that was sent, or nothing will come any more. Any sequence of
  operations on the two halves, on the code's four cells, has the results that it has on this
  machine.
\<close>

section \<open>Operations and their results\<close>

datatype ('t, 'w) channel_op =
    Send 't | SenderDrop | PollClosed 'w | IsClosed
  | Close | TryRecv | Recv 'w | ReceiverDrop

datatype 't channel_result =
    Sent "'t + unit" | ClosedPoll "unit poll" | ClosedFlag bool
  | Tried "closed + 't option" | Received "(closed + 't) poll" | NoResult

fun channel_apply :: "('t, 'w) channel_op \<Rightarrow> ('t, 'w) shared \<Rightarrow> 't channel_result \<times> ('t, 'w) shared" where
  "channel_apply (Send m) s = (let (r, s, _) = sender_send m s in (Sent r, s))"
| "channel_apply SenderDrop s = (NoResult, fst (sender_drop s))"
| "channel_apply (PollClosed w) s = (let (r, s) = sender_poll_closed w s in (ClosedPoll r, s))"
| "channel_apply IsClosed s = (ClosedFlag (sender_is_closed s), s)"
| "channel_apply Close s = (NoResult, fst (receiver_close s))"
| "channel_apply TryRecv s = (let (r, s) = receiver_try_recv s in (Tried r, s))"
| "channel_apply (Recv w) s = (let (r, s) = receiver_poll w s in (Received r, s))"
| "channel_apply ReceiverDrop s = (NoResult, fst (receiver_drop s))"

fun channel_run :: "('t, 'w) channel_op list \<Rightarrow> ('t, 'w) shared \<Rightarrow> 't channel_result list \<times> ('t, 'w) shared" where
  "channel_run [] s = ([], s)"
| "channel_run (op # ops) s = (let (r, s) = channel_apply op s; (rs, s) = channel_run ops s in (r # rs, s))"

section \<open>The machine\<close>

datatype 't contract = Open | Full 't | Over

fun contract_apply :: "('t, 'w) channel_op \<Rightarrow> 't contract \<Rightarrow> 't channel_result \<times> 't contract" where
  "contract_apply (Send m) c = (if c = Open then (Sent (Inr ()), Full m) else (Sent (Inl m), c))"
| "contract_apply SenderDrop c = (NoResult, if c = Open then Over else c)"
| "contract_apply (PollClosed _) c = (ClosedPoll (if c = Open then Pending else Ready ()), c)"
| "contract_apply IsClosed c = (ClosedFlag (c \<noteq> Open), c)"
| "contract_apply Close c = (NoResult, if c = Open then Over else c)"
| "contract_apply TryRecv c =
     (case c of Open \<Rightarrow> (Tried (Inr None), Open) | Full m \<Rightarrow> (Tried (Inr (Some m)), Over) | Over \<Rightarrow> (Tried (Inl Closed), Over))"
| "contract_apply (Recv _) c =
     (case c of Open \<Rightarrow> (Received Pending, Open) | Full m \<Rightarrow> (Received (Ready (Inr m)), Over)
      | Over \<Rightarrow> (Received (Ready (Inl Closed)), Over))"
| "contract_apply ReceiverDrop c = (NoResult, if c = Open then Over else c)"

fun contract_run :: "('t, 'w) channel_op list \<Rightarrow> 't contract \<Rightarrow> 't channel_result list \<times> 't contract" where
  "contract_run [] c = ([], c)"
| "contract_run (op # ops) c = (let (r, c) = contract_apply op c; (rs, c) = contract_run ops c in (r # rs, c))"

text \<open>The cells tell the state of the machine; a message is there only after completion.\<close>

definition contract_of :: "('t, 'w) shared \<Rightarrow> 't contract" where
  "contract_of s = (if s_complete s then case s_message s of Some m \<Rightarrow> Full m | None \<Rightarrow> Over else Open)"

definition cells_ok :: "('t, 'w) shared \<Rightarrow> bool" where
  "cells_ok s \<longleftrightarrow> (s_message s \<noteq> None \<longrightarrow> s_complete s)"

lemmas contract_defs = contract_of_def cells_ok_def oneshot_defs

lemma channel_apply_contract:
  assumes "channel_apply op s = (r, s')" and "cells_ok s"
  shows "contract_apply op (contract_of s) = (r, contract_of s') \<and> cells_ok s'"
  using assms by (cases op) (auto simp: contract_defs split: if_splits option.splits)

lemma channel_run_contract:
  "channel_run ops s = (rs, s') \<Longrightarrow> cells_ok s \<Longrightarrow> contract_run ops (contract_of s) = (rs, contract_of s')"
proof (induction ops arbitrary: s rs)
  case (Cons op ops)
  obtain r s1 where a: "channel_apply op s = (r, s1)" by fastforce
  obtain rs1 where b: "channel_run ops s1 = (rs1, s')" and rs: "rs = r # rs1"
    using Cons.prems(1) a by (auto split: prod.splits)
  from channel_apply_contract [OF a Cons.prems(2)] Cons.IH [OF b] rs show ?case by simp
qed simp

section \<open>The property\<close>

text \<open>
  C11. A channel is the machine \<open>contract\<close>: for every sequence of operations on a new channel, each
  operation of the code has the result that it has on the machine, and the cells tell the
  machine's state at the end. So until the channel is closed receiving waits, then the message
  that \<open>send\<close> accepted is received once, also after the receiver closed, and then never again.
\<close>

theorem channel_implements_contract:
  "contract_run ops Open = (fst (channel_run ops channel), contract_of (snd (channel_run ops channel)))"
proof -
  have "contract_of channel = Open" and "cells_ok channel" by (simp_all add: contract_defs)
  then show ?thesis using channel_run_contract [of ops channel] by (metis prod.collapse)
qed

end
