(* ===== verification/Channel_Program.thy ===== *)
theory Channel_Program
  imports Main_Loop Oneshot
begin

text \<open>
  A program that uses a channel across tasks, \<open>block_on(async { let (tx, rx) = channel(); spawn(job(tx));
  rx.await })\<close>: the code of \<open>src/sync/oneshot.rs\<close> and of \<open>src/runtime/executor.rs\<close> together. The task
  yields some times and then sends a message, or drops its sender. The main future gets the
  message or learns that there will be none.
\<close>

section \<open>The program\<close>

text \<open>
  The cells of the channel are memory that the futures share. They are carried beside the parker,
  which does not touch them.
\<close>

definition with_memory :: "('p, 'w) park_api \<Rightarrow> ('p \<times> 'mem, 'w) park_api" where
  "with_memory P =
     \<lparr>pk_park = (\<lambda>(p, mem) ws. let (r, ws, p) = pk_park P p ws in (r, ws, p, mem)),
      pk_park_timeout = (\<lambda>(p, mem) d ws. let (r, ws, p) = pk_park_timeout P p d ws in (r, ws, p, mem))\<rparr>"

lemma with_memory_trait: "park_trait P \<Longrightarrow> park_trait (with_memory P)"
  by unfold_locales (auto simp: with_memory_def split: prod.splits dest: park_trait.park_extends park_trait.park_timeout_extends)

interpretation logged_memory: park_trait "with_memory log_park"
  by (rule with_memory_trait [OF logging.park_trait_axioms])

definition cells :: "('f, 'o, 'p \<times> 'mem) executor \<Rightarrow> 'mem" where
  "cells e = snd (ex_parker e)"

definition put_cells :: "'mem \<Rightarrow> ('f, 'o, 'p \<times> 'mem) executor \<Rightarrow> ('f, 'o, 'p \<times> 'mem) executor" where
  "put_cells s e = e\<lparr>ex_parker := (fst (ex_parker e), s)\<rparr>"

text \<open>
  The task yields \<open>k\<close> times; then it sends its message, or ends without one, which drops the sender.
  A task that is dropped before drops the sender as well.
\<close>

datatype 't producer = Producing nat "'t option" | Produced

fun producer_poll ::
    "bool \<Rightarrow> nat \<Rightarrow> 't producer \<Rightarrow> waker \<Rightarrow> ('t producer, unit, 'p \<times> ('t, waker) shared) executor \<Rightarrow>
     (unit poll \<times> 't producer \<times> ('t producer, unit, 'p \<times> ('t, waker) shared) executor) m" where
  "producer_poll debug th (Producing (Suc k) m) cx e = bindM (waker_wake th cx e) (\<lambda>e. Ret (Pending, Producing k m, e))"
| "producer_poll debug th (Producing 0 m) cx e =
     (let (s, out) = (case m of Some message \<Rightarrow> snd (sender_send message (cells e)) | None \<Rightarrow> sender_drop (cells e)) in
      bindM (wake_all debug th out (put_cells s e)) (\<lambda>e. Ret (Ready (), Produced, e)))"
| "producer_poll debug th Produced cx e = Panic PolledAfterCompletion"

fun producer_drop ::
    "bool \<Rightarrow> nat \<Rightarrow> 't producer \<Rightarrow> ('t producer, unit, 'p \<times> ('t, waker) shared) executor \<Rightarrow>
     ('t producer, unit, 'p \<times> ('t, waker) shared) executor m" where
  "producer_drop debug th (Producing k m) e =
     (let (s, out) = sender_drop (cells e) in wake_all debug th out (put_cells s e))"
| "producer_drop debug th Produced e = Ret e"

definition producers :: "bool \<Rightarrow> nat \<Rightarrow> ('t producer, unit, 'p \<times> ('t, waker) shared) future_api" where
  "producers debug th = \<lparr>f_poll = producer_poll debug th, f_drop = producer_drop debug th\<rparr>"

text \<open>The main future before its first poll and at its await; the receiver is dropped at the end.\<close>

datatype 't consumer = ConsumerStart nat "'t option" | Receiving

definition await_message ::
    "bool \<Rightarrow> nat \<Rightarrow> waker \<Rightarrow> 'r option \<Rightarrow> ('t producer, unit, 'p \<times> ('t, waker) shared) executor \<Rightarrow>
     ((closed + 't) poll \<times> 't consumer \<times> 'r option \<times> ('t producer, unit, 'p \<times> ('t, waker) shared) executor) m" where
  "await_message debug th cx current e =
     bindM (waker_clone th cx e) (\<lambda>cx.
       let (r, s) = receiver_poll cx (cells e); e = put_cells s e in
       case r of
         Pending \<Rightarrow> Ret (Pending, Receiving, current, e)
       | Ready v \<Rightarrow>
           (let (s, out) = receiver_drop (cells e) in
            bindM (wake_all debug th out (put_cells s e)) (\<lambda>e. Ret (Ready v, Receiving, current, e))))"

fun consumer_main ::
    "bool \<Rightarrow> nat \<Rightarrow> 't consumer \<Rightarrow> waker \<Rightarrow> 'r option \<Rightarrow> ('t producer, unit, 'p \<times> ('t, waker) shared) executor \<Rightarrow>
     ((closed + 't) poll \<times> 't consumer \<times> 'r option \<times> ('t producer, unit, 'p \<times> ('t, waker) shared) executor) m" where
  "consumer_main debug th (ConsumerStart k m) cx current e =
     bindM (spawn_current current (Producing k m) (put_cells channel e)) (\<lambda>(_, e). await_message debug th cx current e)"
| "consumer_main debug th Receiving cx current e = await_message debug th cx current e"

section \<open>Its run\<close>

definition consuming :: "nat \<Rightarrow> 't option \<Rightarrow> nat \<Rightarrow> ('t producer, unit, 'p \<times> ('t, waker) shared) executor \<Rightarrow> bool" where
  "consuming th m k e \<longleftrightarrow> ex_created_on e = th \<and> ex_queue e = [0] \<and> (\<forall>t > 0. tk_state (ex_tasks e t) = Done) \<and>
     ex_tasks e 0 = \<lparr>tk_awaiter = None, tk_state = Scheduled, tk_payload = Future (Producing k m), tk_borrowed = False\<rparr> \<and>
     cells e = channel\<lparr>s_receiver := Some MainWaker\<rparr>"

definition consumed :: "nat \<Rightarrow> 't option \<Rightarrow> ('t producer, unit, 'p \<times> ('t, waker) shared) executor \<Rightarrow> bool" where
  "consumed th m e \<longleftrightarrow> ex_created_on e = th \<and> ex_woke e \<and> cells e = channel\<lparr>s_complete := True, s_message := m\<rparr>"

definition delivery :: "'t option \<Rightarrow> closed + 't" where
  "delivery m = (case m of Some v \<Rightarrow> Inr v | None \<Rightarrow> Inl Closed)"

lemma consuming_wake: "consuming th m k e \<Longrightarrow> consuming th m k (rc_wake w e)"
proof (cases w)
  case (TaskWaker t)
  then show "consuming th m k e \<Longrightarrow> ?thesis" by (cases "t = 0") (auto simp: consuming_def cells_def)
qed (simp add: consuming_def cells_def)

lemma consuming_run:
  assumes "consuming th m k e"
  shows "\<exists>e'. run debug th (producers debug th) 0 (popped e) = Ret e' \<and>
    (case k of 0 \<Rightarrow> consumed th m e' | Suc l \<Rightarrow> consuming th m l e' \<and> ex_woke e' = ex_woke e)"
  using assms
  by (cases k; cases m) (auto simp: consuming_def consumed_def run_unfold producers_def waker_wake_def assert_not_sent_def
      run_started_def run_pending_def run_done_def popped_def util_wake_same_thread update_task_def cells_def put_cells_def
      sender_send_def sender_drop_def channel_def Let_def)

text \<open>One poll of the main future inside the runtime, as \<open>block_on\<close> makes it.\<close>

definition consumer_step ::
    "bool \<Rightarrow> nat \<Rightarrow> 'r \<Rightarrow> ('r, 't consumer) entering \<times> 'r option \<Rightarrow> waker \<Rightarrow> ('t producer, unit, 'p \<times> ('t, waker) shared) executor \<Rightarrow>
     (((closed + 't) \<times> 'r option) poll \<times> (('r, 't consumer) entering \<times> 'r option) \<times>
       ('t producer, unit, 'p \<times> ('t, waker) shared) executor) m" where
  "consumer_step debug th r = (\<lambda>(st, current) cx e. bindM (entering_poll r (consumer_main debug th) st cx current e)
     (\<lambda>(p, st, current, e). Ret (map_poll_value (\<lambda>val. (val, current)) p, (st, current), e)))"

lemma consumer_waits:
  "consuming th m k e \<Longrightarrow> \<exists>e'. consumer_step debug th r (EnterRunning current Receiving, c) MainWaker (e\<lparr>ex_woke := False\<rparr>) =
     Ret (Pending, (EnterRunning current Receiving, c), e') \<and> consuming th m k e' \<and> \<not> ex_woke e'"
  by (simp add: consumer_step_def entering_poll_def await_message_def consuming_def receiver_poll_def cells_def put_cells_def
      waker_clone_def assert_not_sent_def channel_def)

lemma consumer_ends:
  "consumed th m e \<Longrightarrow> \<exists>g e'. consumer_step debug th r (EnterRunning current Receiving, c) MainWaker (e\<lparr>ex_woke := False\<rparr>) =
     Ret (Ready (delivery m, current), g, e')"
  by (cases m) (simp_all add: consumer_step_def entering_poll_def guard_drop_def await_message_def consumed_def receiver_poll_def
      receiver_drop_def cells_def put_cells_def waker_clone_def assert_not_sent_def channel_def delivery_def Let_def)

lemma channel_worker:
  fixes P :: "('p, waker) park_api" and m :: "'t option"
  assumes "\<And>p. fst (pk_park_timeout P p 0 []) = Inr ()"
  shows "worker_program debug th (producers debug th) (with_memory P) (consumer_step debug th r)
    (EnterRunning current Receiving, c) (delivery m, current) (consuming th m) (consumed th m)"
proof
  fix k and e :: "('t producer, unit, 'p \<times> ('t, waker) shared) executor"
  assume j: "consuming th m k e"
  show "ex_queue e = [0] \<and> ex_created_on e = th" using j by (simp add: consuming_def)
  show "consuming th m k (rc_wake w e)" for w by (rule consuming_wake [OF j])
  show "\<exists>ws p. pk_park_timeout (with_memory P) (ex_parker e) 0 [] = (Inr (), ws, p) \<and> consuming th m k (e\<lparr>ex_parker := p\<rparr>)"
    using assms [of "fst (ex_parker e)"] j
    by (cases "ex_parker e"; cases "pk_park_timeout P (fst (ex_parker e)) 0 []") (simp add: with_memory_def consuming_def cells_def)
  show "\<exists>e'. run debug th (producers debug th) 0 (popped e) = Ret e' \<and>
      (case k of 0 \<Rightarrow> consumed th m e' | Suc l \<Rightarrow> consuming th m l e' \<and> ex_woke e' = ex_woke e)"
    by (rule consuming_run [OF j])
  show "\<exists>e'. consumer_step debug th r (EnterRunning current Receiving, c) MainWaker (e\<lparr>ex_woke := False\<rparr>) =
      Ret (Pending, (EnterRunning current Receiving, c), e') \<and> consuming th m k e' \<and> \<not> ex_woke e'"
    by (rule consumer_waits [OF j])
next
  fix e :: "('t producer, unit, 'p \<times> ('t, waker) shared) executor"
  assume j: "consumed th m e"
  show "ex_woke e" using j by (simp add: consumed_def)
  show "\<exists>g' e'. consumer_step debug th r (EnterRunning current Receiving, c) MainWaker (e\<lparr>ex_woke := False\<rparr>) =
      Ret (Ready (delivery m, current), g', e')" by (rule consumer_ends [OF j])
qed

interpretation channel_logged: worker_program True th "producers True th" "with_memory log_park" "consumer_step True th r"
    "(EnterRunning current Receiving, c)" "(delivery m, current)" "consuming th m" "consumed th m" for th r current c m
  by (rule channel_worker) simp

section \<open>The property\<close>

text \<open>
  C6. A channel connects tasks: \<open>block_on\<close> of a main future that spawns a task with the sender and
  awaits the receiver returns, with the message if the task sends one and with \<open>Closed\<close> if it ends
  without, however often the task yields before, as long as parking with a zero timeout works.
\<close>

theorem channel_program_ends:
  assumes "\<And>p. fst (pk_park_timeout P p 0 []) = Inr ()"
  shows "\<exists>e'. runtime_block_on debug th (producers debug th) (with_memory P) r (consumer_main debug th) (ConsumerStart k m) current
      (executor_new th (p, mem)) = Ret (case m of Some v \<Rightarrow> Inr v | None \<Rightarrow> Inl Closed, current, e')"
proof -
  let ?start = "(EnterStart (ConsumerStart k m), current)" and ?e = "executor_new th (p, mem)\<lparr>ex_woke := True\<rparr>"
  let ?g = "(EnterRunning current Receiving, Some r)"
  obtain e1 where m: "consumer_step debug th r ?start MainWaker (?e\<lparr>ex_woke := False\<rparr>) = Ret (Pending, ?g, e1)"
    and j: "consuming th m k e1" "\<not> ex_woke e1"
    by (simp add: consumer_step_def entering_poll_def enter_def spawn_current_def unwrap_current_def runtime_spawn_def spawn_def
        await_message_def consuming_def executor_new_def receiver_poll_def cells_def put_cells_def waker_clone_def
        assert_not_sent_def channel_def Let_def)
  have "ex_woke ?e" by simp
  note start = loop_pending [where main_poll = "consumer_step debug th r", OF this m j(2), of debug th "producers debug th" "with_memory P"]
  obtain e2 where "block_on_loop debug th (producers debug th) (with_memory P) (consumer_step debug th r) ?g e1 =
      Ret ((delivery m, current), e2)"
    using worker_program.loop_ends [OF channel_worker [OF assms] j(1), of debug r current "Some r"] by blast
  then have "block_on debug th (producers debug th) (with_memory P) (consumer_step debug th r) ?start (executor_new th (p, mem)) =
      Ret ((delivery m, current), e2)"
    by (simp add: block_on_def start)
  then show ?thesis by (simp add: runtime_block_on_def consumer_step_def delivery_def)
qed

theorem channel_program_ends_witness:
  "\<exists>e'. runtime_block_on True 0 (producers True 0) (with_memory log_park) (5 :: nat) (consumer_main True 0)
     (ConsumerStart 100 (Some (7 :: nat))) None (executor_new 0 ([], channel)) = Ret (Inr 7, None, e')"
  using channel_program_ends [of log_park True 0 5 100 "Some 7" None "[]" channel] by simp

end
