(* ===== verification/Read_Program.thy ===== *)
theory Read_Program
  imports Main_Loop Net_Properties Runtime_Properties
begin

text \<open>
  A program that does I/O, \<open>block_on(async { TcpStream::from_std(s)?.read(buf).await })\<close>, run on the
  whole runtime: executor, clock, reactor, poller and the retry loop of the socket together. It
  ends when something arrives, with what the read returned, on epoll as well as on kqueue.
\<close>

section \<open>The program\<close>

text \<open>
  The network is a part of the state of the operating system beside the poller, so its state is a
  pair; a poll of the reactor lets data arrive. The main future before its first poll, and while it
  awaits the read; the stream is dropped once the read is ready.
\<close>

datatype 't reader = ReadFrom 't | Reading "'t async"

definition await_read ::
    "bool \<Rightarrow> nat \<Rightarrow> ('s, waker source) slab_api \<Rightarrow> ('n \<times> 'k, 'e) poller_api \<Rightarrow> ('t \<Rightarrow> 'n \<Rightarrow> 'v io_result \<times> 'n) \<Rightarrow>
     't async \<Rightarrow> waker \<Rightarrow> 'r option \<Rightarrow> ('f, 'o, 's, 'n \<times> 'k, 'e) runtime \<Rightarrow>
     ('v io_result poll \<times> 't reader \<times> 'r option \<times> ('f, 'o, 's, 'n \<times> 'k, 'e) runtime) m" where
  "await_read debug th A Q read a cx current rt =
     (let x = runtime_reactor rt in
      bindM (poll_read A Q read cx a (fst (rx_poller x)) x) (\<lambda>(p, n, x, out).
      bindM (wake_all debug th out (put_reactor (x\<lparr>rx_poller := (n, snd (rx_poller x))\<rparr>) rt)) (\<lambda>rt.
        case p of
          Pending \<Rightarrow> Ret (Pending, Reading a, current, rt)
        | Ready r \<Rightarrow>
            bindM (async_drop A Q a (runtime_reactor rt)) (\<lambda>x.
              Ret (Ready r, Reading a, current, put_reactor x rt)))))"

fun read_main ::
    "bool \<Rightarrow> nat \<Rightarrow> ('s, waker source) slab_api \<Rightarrow> ('n \<times> 'k, 'e) poller_api \<Rightarrow> ('t \<Rightarrow> raw_fd) \<Rightarrow>
     ('t \<Rightarrow> 'n \<Rightarrow> 'v io_result \<times> 'n) \<Rightarrow> 't reader \<Rightarrow> waker \<Rightarrow> 'r option \<Rightarrow> ('f, 'o, 's, 'n \<times> 'k, 'e) runtime \<Rightarrow>
     ('v io_result poll \<times> 't reader \<times> 'r option \<times> ('f, 'o, 's, 'n \<times> 'k, 'e) runtime) m" where
  "read_main debug th A Q raw read (ReadFrom sys) cx current rt =
     bindM (from_std A Q raw (current \<noteq> None) sys (runtime_reactor rt)) (\<lambda>(r, x).
       case r of
         Inl e \<Rightarrow> Ret (Ready (Inl e), ReadFrom sys, current, put_reactor x rt)
       | Inr a \<Rightarrow> await_read debug th A Q read a cx current (put_reactor x rt))"
| "read_main debug th A Q raw read (Reading a) cx current rt = await_read debug th A Q read a cx current rt"

section \<open>The kernel\<close>

text \<open>
  One socket with descriptor \<open>fd\<close>, read by \<open>rd\<close>. The poller takes it, keeps it until it is
  deleted and arms it when asked to. A read that would block changes nothing; while it would
  block each poll brings the data nearer (\<open>due\<close>), and data that is there stays there and makes
  an armed descriptor ready. Polls may be interrupted and may wake the reader too early, as long
  as nothing is there.
\<close>

locale network_kernel = reporting_poller Q arm ready
  for Q :: "('n \<times> 'k, 'e) poller_api" and arm :: "'n \<times> 'k \<Rightarrow> raw_fd \<Rightarrow> direction \<Rightarrow> usize option"
    and ready :: "'n \<times> 'k \<Rightarrow> raw_fd \<Rightarrow> direction \<Rightarrow> bool" +
  fixes held :: "'n \<times> 'k \<Rightarrow> raw_fd set" and fd :: raw_fd and rd :: "'n \<Rightarrow> 'v io_result \<times> 'n" and due :: "'n \<Rightarrow> nat"
    and read_now :: "'n \<times> 'k \<Rightarrow> instant \<times> 'n \<times> 'k"
  assumes taken: "fd \<notin> held q \<Longrightarrow> \<exists>q'. p_add Q fd ev q = (Inr (), q') \<and> fd \<in> held q' \<and> fst q' = fst q"
    and changed: "fd \<in> held q \<Longrightarrow> \<exists>q'. p_update Q fd ev q = (Inr (), q') \<and> fd \<in> held q' \<and> fst q' = fst q"
    and deleted: "p_delete Q fd q = (u, q') \<Longrightarrow> fst q' = fst q"
    and polled: "p_poll Q n t q = (r, q') \<Longrightarrow> fd \<in> held q \<Longrightarrow> fd \<in> held q'"
    and interrupted: "p_poll Q n t q = (Inl err, q') \<Longrightarrow> err_kind err = Interrupted"
    and arriving: "p_poll Q n t q = (r, q') \<Longrightarrow> would_block (fst (rd (fst q))) \<Longrightarrow> due (fst q') < due (fst q)"
    and arrived: "p_poll Q initial_events t q = (r, q') \<Longrightarrow> \<not> would_block (fst (rd (fst q))) \<Longrightarrow>
          (\<exists>es. r = Inr es \<and> length es < initial_events) \<and> \<not> would_block (fst (rd (fst q')))"
    and available: "\<not> would_block (fst (rd (fst q))) \<Longrightarrow> arm q fd Read \<noteq> None \<Longrightarrow> ready q fd Read"
    and blocked: "would_block (fst (rd m)) \<Longrightarrow> snd (rd m) = m"
    and timed: "fst (snd (read_now q)) = fst q \<and> arm (snd (read_now q)) = arm q \<and> held (snd (read_now q)) = held q"

section \<open>The reader's source\<close>

text \<open>The source waits for the main future, or was flagged ready; nobody writes.\<close>

definition reader_source :: "raw_fd \<Rightarrow> bool \<Rightarrow> waker source \<Rightarrow> bool" where
  "reader_source fd woke so \<longleftrightarrow> so_raw so = fd \<and> \<not> has_poller (so_writer so) \<and>
     so_reader so = (if woke then \<lparr>in_poller = None, in_woke = True\<rparr> else \<lparr>in_poller = Some MainWaker, in_woke = False\<rparr>)"

lemma take_ready_reader:
  assumes "take_ready e so ws = (so', ws')" and "reader_source fd woke so"
  shows "reader_source fd (woke \<or> ev_readable e) so' \<and>
    ws' = ws @ (if \<not> woke \<and> ev_readable e then [MainWaker] else [])"
  using assms by (auto simp: take_ready_def interest_take_def reader_source_def has_poller_def Let_def split: if_splits option.splits)

locale reading_program = reporting_env A Q arm ready + network_kernel Q arm ready held fd rd due read_now
  for A :: "('s, waker source) slab_api" and Q :: "('n \<times> 'k, 'e) poller_api"
    and arm :: "'n \<times> 'k \<Rightarrow> raw_fd \<Rightarrow> direction \<Rightarrow> usize option" and ready :: "'n \<times> 'k \<Rightarrow> raw_fd \<Rightarrow> direction \<Rightarrow> bool"
    and held :: "'n \<times> 'k \<Rightarrow> raw_fd set" and fd :: raw_fd and rd :: "'n \<Rightarrow> 'v io_result \<times> 'n" and due :: "'n \<Rightarrow> nat"
    and read_now :: "'n \<times> 'k \<Rightarrow> instant \<times> 'n \<times> 'k"
begin

lemma update_reader:
  assumes "reader_source fd woke so" and "fd \<in> held q"
  shows "\<exists>q'. update_interest Q key so q = (Inr (), q') \<and> fd \<in> held q' \<and> fst q' = fst q"
  using changed [OF assms(2)] assms(1) by (simp add: update_interest_def reader_source_def)

lemma handle_events_reader:
  assumes "slab_get A ss = [i \<mapsto> so]" and "reader_source fd woke so" and "fd \<in> held q"
  shows "\<exists>woke' ss' q' so'. handle_events A Q es ws ss q =
      (Inr (), ws @ (if \<not> woke \<and> woke' then [MainWaker] else []), ss', q') \<and> slab_get A ss' = [i \<mapsto> so'] \<and>
    reader_source fd woke' so' \<and> (woke \<longrightarrow> woke') \<and> fd \<in> held q' \<and> fst q' = fst q"
  using assms
proof (induction es arbitrary: ws ss q so woke)
  case Nil
  then show ?case by (intro exI [of _ woke] exI [of _ ss] exI [of _ q] exI [of _ so]) simp
next
  case (Cons e es)
  show ?case
  proof (cases "unat (ev_key e) = i")
    case False
    with Cons.IH [OF Cons.prems, of ws] Cons.prems(1) show ?thesis by simp
  next
    case True
    obtain so1 ws1 where t: "take_ready e so ws = (so1, ws1)" by fastforce
    let ?w1 = "woke \<or> ev_readable e" and ?ss = "slab_set A ss i so1"
    note so1 = take_ready_reader [OF t Cons.prems(2)]
    have ss: "slab_get A ?ss = [i \<mapsto> so1]" using get_set [of ss i so1] Cons.prems(1) by (simp add: fun_eq_iff)
    obtain q1 where u: "update_interest Q i so1 q = (Inr (), q1)" "fd \<in> held q1" "fst q1 = fst q"
      using update_reader [OF conjunct1 [OF so1] Cons.prems(3), of i] by blast
    obtain q2 where q2: "handle_events A Q (e # es) ws ss q = handle_events A Q es ws1 ?ss q2" "fd \<in> held q2" "fst q2 = fst q"
    proof (cases "has_poller (so_reader so1) \<or> has_poller (so_writer so1)")
      case h: True
      show thesis by (rule that [of q1]) (use h True t u Cons.prems(1) in \<open>simp_all add: Let_def\<close>)
    next
      case h: False
      show thesis by (rule that [of q]) (use h True t Cons.prems in \<open>simp_all add: Let_def\<close>)
    qed
    obtain w2 ss' q' so' where ih: "handle_events A Q es ws1 ?ss q2 =
        (Inr (), ws1 @ (if \<not> ?w1 \<and> w2 then [MainWaker] else []), ss', q')" "slab_get A ss' = [i \<mapsto> so']"
      "reader_source fd w2 so'" "?w1 \<longrightarrow> w2" "fd \<in> held q'" "fst q' = fst q2"
      using Cons.IH [OF ss conjunct1 [OF so1] q2(2), of ws1] by blast
    have "ws1 @ (if \<not> ?w1 \<and> w2 then [MainWaker] else []) = ws @ (if \<not> woke \<and> w2 then [MainWaker] else [])"
      using so1 ih(4) by (cases woke; cases "ev_readable e") simp_all
    with ih q2 show ?thesis by (intro exI [of _ w2] exI [of _ ss'] exI [of _ q'] exI [of _ so']) simp
  qed
qed

section \<open>Parking\<close>

text \<open>The network, whether a read of the socket would block, and the states between two polls.\<close>

definition net :: "('f, 'o, 's, 'n \<times> 'k, 'e) runtime \<Rightarrow> 'n" where
  "net rt = fst (rx_poller (runtime_reactor rt))"

definition blocks :: "('f, 'o, 's, 'n \<times> 'k, 'e) runtime \<Rightarrow> bool" where
  "blocks rt = would_block (fst (rd (net rt)))"

definition reading :: "nat \<Rightarrow> nat \<Rightarrow> bool \<Rightarrow> ('f, 'o, 's, 'n \<times> 'k, 'e) runtime \<Rightarrow> bool" where
  "reading th i woke rt \<longleftrightarrow> ex_queue rt = [] \<and> ex_created_on rt = th \<and> ex_woke rt = woke \<and>
     ck_alarms (runtime_clock rt) = [] \<and> fd \<in> held (rx_poller (runtime_reactor rt)) \<and>
     waiting_inv {} (slab_get A (rx_sources (runtime_reactor rt))) (arm (rx_poller (runtime_reactor rt))) \<and>
     (\<exists>so. slab_get A (rx_sources (runtime_reactor rt)) = [i \<mapsto> so] \<and> reader_source fd woke so)"

lemma reactor_poll_reader:
  assumes "slab_get A (rx_sources x) = [i \<mapsto> so]" and "reader_source fd False so" and "fd \<in> held (rx_poller x)"
    and inv: "waiting_inv {} (slab_get A (rx_sources x)) (arm (rx_poller x))"
  shows "\<exists>woke x' so'. reactor_poll A Q tm x [] = (Inr (), if woke then [MainWaker] else [], x') \<and>
    slab_get A (rx_sources x') = [i \<mapsto> so'] \<and> reader_source fd woke so' \<and> fd \<in> held (rx_poller x') \<and>
    waiting_inv {} (slab_get A (rx_sources x')) (arm (rx_poller x')) \<and>
    (if would_block (fst (rd (fst (rx_poller x)))) then due (fst (rx_poller x')) < due (fst (rx_poller x))
     else woke \<and> \<not> would_block (fst (rd (fst (rx_poller x')))))"
proof -
  obtain r q where p: "p_poll Q initial_events tm (rx_poller x) = (r, q)" by (metis prod.collapse)
  note held = polled [OF p assms(3)]
  show ?thesis
  proof (cases r)
    case (Inl err)
    have "reactor_poll A Q tm x [] = (Inr (), [], x\<lparr>rx_poller := q\<rparr>)"
      using p Inl interrupted [OF p [unfolded Inl]] by (simp add: reactor_poll_def)
    moreover have "would_block (fst (rd (fst (rx_poller x))))" using arrived [OF p] Inl by blast
    ultimately show ?thesis
      using assms held arriving [OF p] poll_fails [OF p [unfolded Inl]]
      by (intro exI [of _ False] exI [of _ "x\<lparr>rx_poller := q\<rparr>"] exI [of _ so]) simp
  next
    case (Inr es)
    obtain woke ss' q' so' where h: "handle_events A Q (map (p_event Q) es) [] (rx_sources x) q =
        (Inr (), if woke then [MainWaker] else [], ss', q')" and s: "slab_get A ss' = [i \<mapsto> so']" "reader_source fd woke so'"
      and q': "fd \<in> held q'" "fst q' = fst q"
      using handle_events_reader [OF assms(1,2) held, of "map (p_event Q) es" "[]"] by auto
    let ?x = "x\<lparr>rx_poller := q', rx_events := es, rx_sources := ss'\<rparr>"
    have poll: "reactor_poll A Q tm x [] = (Inr (), if woke then [MainWaker] else [], ?x)"
      using p Inr h by (simp add: reactor_poll_def)
    have woken: woke if "\<not> would_block (fst (rd (fst (rx_poller x))))"
    proof -
      have w: "in_poller (source_interest Read so) = Some MainWaker" "so_raw so = fd" and si: "slab_get A (rx_sources x) i = Some so"
        using assms(1,2) by (simp_all add: reader_source_def)
      have "arm (rx_poller x) fd Read \<noteq> None"
        using waiting_invD(3) [OF inv si, of Read] w by (simp add: has_poller_def)
      from available [OF that this] have "ready (rx_poller x) (so_raw so) Read" using w(2) by simp
      from ready_wakes_inv [OF inv si w(1) this p [unfolded Inr] _ poll] arrived [OF p that] Inr
      show ?thesis by (auto split: if_splits)
    qed
    show ?thesis
      using poll s q' woken arriving [OF p] arrived [OF p] waiting_park [OF inv poll]
      by (intro exI [of _ woke] exI [of _ ?x] exI [of _ so']) simp
  qed
qed

lemma park_reading:
  assumes "reading th i False rt"
  shows "\<exists>rt' woke. park_and_wake debug th (pk_park (timed_parker A Q read_now)) rt = Ret rt' \<and> reading th i woke rt' \<and>
    (if blocks rt then due (net rt') < due (net rt) else woke \<and> \<not> blocks rt')"
proof -
  let ?c = "runtime_clock rt" and ?q = "rx_poller (runtime_reactor rt)"
  let ?read = "?c\<lparr>ck_parker := (ck_parker ?c)\<lparr>rx_poller := snd (read_now ?q)\<rparr>\<rparr>"
  obtain now where c0: "read_clock read_now ?c = (now, ?read)"
    by (simp add: read_clock_def runtime_reactor_def case_prod_unfold Let_def)
  have e: "extend_with_expired now [] ?read = (None, [], ?read)"
    using assms by (simp add: reading_def extend_with_expired_def bt_split_off_def bt_first_key_def bt_into_values_def)
  obtain so where so: "slab_get A (rx_sources (ck_parker ?read)) = [i \<mapsto> so]" "reader_source fd False so"
    "fd \<in> held (rx_poller (ck_parker ?read))"
    "waiting_inv {} (slab_get A (rx_sources (ck_parker ?read))) (arm (rx_poller (ck_parker ?read)))"
    using assms timed [of ?q] by (auto simp: reading_def runtime_reactor_def)
  obtain woke x' so' where poll: "reactor_poll A Q None (ck_parker ?read) [] = (Inr (), if woke then [MainWaker] else [], x')"
    and x': "slab_get A (rx_sources x') = [i \<mapsto> so']" "reader_source fd woke so'" "fd \<in> held (rx_poller x')"
      "waiting_inv {} (slab_get A (rx_sources x')) (arm (rx_poller x'))"
    and n: "if would_block (fst (rd (fst (rx_poller (ck_parker ?read))))) then due (fst (rx_poller x')) < due (fst (rx_poller (ck_parker ?read)))
       else woke \<and> \<not> would_block (fst (rd (fst (rx_poller x'))))"
    using reactor_poll_reader [OF so, of None] by blast
  let ?rt = "rt\<lparr>ex_parker := ?read\<lparr>ck_parker := x'\<rparr>, ex_woke := woke\<rparr>"
  have "pk_park (timed_parker A Q read_now) ?c [] = (Inr (), if woke then [MainWaker] else [], ?read\<lparr>ck_parker := x'\<rparr>)"
    using c0 e poll by (simp add: timed_parker_def runtime_parker_def clock_park_def reactor_as_park_def)
  then have "park_and_wake debug th (pk_park (timed_parker A Q read_now)) rt = Ret ?rt"
    using assms by (simp add: park_and_wake_def runtime_clock_def reading_def util_wake_same_thread)
  moreover have "reading th i woke ?rt"
    unfolding reading_def
    by (intro conjI exI [of _ so']) (use assms x' in \<open>simp_all add: reading_def runtime_reactor_def runtime_clock_def\<close>)
  moreover have "if blocks rt then due (net ?rt) < due (net rt) else woke \<and> \<not> blocks ?rt"
    using n timed [of ?q] by (simp add: blocks_def net_def runtime_reactor_def runtime_clock_def split: if_splits)
  ultimately show ?thesis by blast
qed

section \<open>Polls of the main future\<close>

lemma arm_reader:
  assumes "slab_get A (rx_sources x) = [i \<mapsto> so]" and "so_raw so = fd" and "\<not> has_poller (so_writer so)"
    and "\<not> has_poller (so_reader so)" and "\<not> in_woke (so_reader so)" and "fd \<in> held (rx_poller x)"
    and inv: "waiting_inv {} (slab_get A (rx_sources x)) (arm (rx_poller x))"
  shows "\<exists>x' so'. poll_ready A Q i Read MainWaker x = Ret (Pending, x', []) \<and> slab_get A (rx_sources x') = [i \<mapsto> so'] \<and>
    reader_source fd False so' \<and> fd \<in> held (rx_poller x') \<and> fst (rx_poller x') = fst (rx_poller x) \<and>
    waiting_inv {} (slab_get A (rx_sources x')) (arm (rx_poller x'))"
proof -
  let ?so = "so\<lparr>so_reader := (so_reader so)\<lparr>in_poller := Some MainWaker\<rparr>\<rparr>"
  have so: "reader_source fd False ?so"
    using assms(2,3,5) by (cases "so_reader so") (simp add: reader_source_def)
  obtain q where q: "update_interest Q i ?so (rx_poller x) = (Inr (), q)" "fd \<in> held q" "fst q = fst (rx_poller x)"
    using update_reader [OF so assms(6), of i] by blast
  let ?x = "x\<lparr>rx_sources := slab_set A (rx_sources x) i ?so, rx_poller := q\<rparr>"
  have p: "poll_ready A Q i Read MainWaker x = Ret (Pending, ?x, [])"
    using assms(1,4,5) q(1) by (simp add: poll_ready_def has_poller_def Let_def)
  have "slab_get A (rx_sources ?x) = [i \<mapsto> ?so]" using get_set [of "rx_sources x" i ?so] assms(1) by (simp add: fun_eq_iff)
  with p so q waiting_poll [OF inv p] show ?thesis by (intro exI [of _ ?x] exI [of _ ?so]) simp
qed

lemma clear_reader:
  assumes "slab_get A (rx_sources x) = [i \<mapsto> so]" and "in_woke (so_reader so)"
    and inv: "waiting_inv {} (slab_get A (rx_sources x)) (arm (rx_poller x))"
  shows "\<exists>x'. poll_ready A Q i Read MainWaker x = Ret (Ready (Inr ()), x', []) \<and> rx_poller x' = rx_poller x \<and>
    slab_get A (rx_sources x') = [i \<mapsto> so\<lparr>so_reader := (so_reader so)\<lparr>in_woke := False\<rparr>\<rparr>] \<and>
    waiting_inv {} (slab_get A (rx_sources x')) (arm (rx_poller x'))"
proof -
  let ?so = "so\<lparr>so_reader := (so_reader so)\<lparr>in_woke := False\<rparr>\<rparr>"
  let ?x = "x\<lparr>rx_sources := slab_set A (rx_sources x) i ?so\<rparr>"
  have p: "poll_ready A Q i Read MainWaker x = Ret (Ready (Inr ()), ?x, [])"
    using assms(1,2) by (simp add: poll_ready_def Let_def)
  have "slab_get A (rx_sources ?x) = [i \<mapsto> ?so]" using get_set [of "rx_sources x" i ?so] assms(1) by (simp add: fun_eq_iff)
  with p waiting_poll [OF inv p] show ?thesis by (intro exI [of _ ?x]) simp
qed

lemma read_waits:
  assumes a: "as_sys a = Some sys" "read sys = rd" and so: "slab_get A (rx_sources x) = [as_id a \<mapsto> so]" "so_raw so = fd"
      "\<not> has_poller (so_writer so)" "\<not> has_poller (so_reader so)"
    and held: "fd \<in> held (rx_poller x)" and inv: "waiting_inv {} (slab_get A (rx_sources x)) (arm (rx_poller x))"
    and wb: "would_block (fst (rd (fst (rx_poller x))))"
  shows "\<exists>x' so'. poll_read A Q read MainWaker a (fst (rx_poller x)) x = Ret (Pending, fst (rx_poller x), x', []) \<and>
    slab_get A (rx_sources x') = [as_id a \<mapsto> so'] \<and> reader_source fd False so' \<and> fd \<in> held (rx_poller x') \<and>
    fst (rx_poller x') = fst (rx_poller x) \<and> waiting_inv {} (slab_get A (rx_sources x')) (arm (rx_poller x'))"
proof -
  let ?n = "fst (rx_poller x)"
  obtain e where e: "rd ?n = (e, ?n)" "would_block e" using blocked [OF wb] wb by (metis prod.collapse)
  note loop = poll_io_loop.simps [of A Q "as_id a" Read rd MainWaker ?n] e
  have io: "poll_read A Q read MainWaker a ?n x = poll_io_loop A Q (as_id a) Read rd MainWaker ?n x []"
    using a by (simp add: poll_read_def poll_io_def async_sys_def)
  show ?thesis
  proof (cases "in_woke (so_reader so)")
    case False
    from arm_reader [OF so False held inv] show ?thesis unfolding io by (auto simp: loop)
  next
    case True
    let ?so = "so\<lparr>so_reader := (so_reader so)\<lparr>in_woke := False\<rparr>\<rparr>"
    obtain x1 where r: "poll_ready A Q (as_id a) Read MainWaker x = Ret (Ready (Inr ()), x1, [])" "rx_poller x1 = rx_poller x"
      "slab_get A (rx_sources x1) = [as_id a \<mapsto> ?so]" "waiting_inv {} (slab_get A (rx_sources x1)) (arm (rx_poller x1))"
      using clear_reader [OF so(1) True inv] by blast
    have "so_raw ?so = fd" "\<not> has_poller (so_writer ?so)" "\<not> has_poller (so_reader ?so)" "\<not> in_woke (so_reader ?so)"
      "fd \<in> held (rx_poller x1)" using so(2-4) held r(2) by (simp_all add: has_poller_def)
    from arm_reader [OF r(3) this r(4)] r(1,2) show ?thesis unfolding io by (auto simp: loop)
  qed
qed

lemma read_ready:
  assumes "as_sys a = Some sys" "read sys = rd" and "\<not> would_block (fst (rd n))"
  shows "poll_read A Q read MainWaker a n x = Ret (Ready (fst (rd n)), snd (rd n), x, [])"
  using assms by (simp add: poll_read_def poll_io_def async_sys_def case_prod_unfold
      poll_io_loop.simps [of A Q "as_id a" Read rd MainWaker n x])

text \<open>Between the wakeup and the next poll: nothing waits, whether the source is flagged or not.\<close>

definition unread :: "nat \<Rightarrow> nat \<Rightarrow> ('f, 'o, 's, 'n \<times> 'k, 'e) runtime \<Rightarrow> bool" where
  "unread th i rt \<longleftrightarrow> ex_queue rt = [] \<and> ex_created_on rt = th \<and> \<not> ex_woke rt \<and>
     ck_alarms (runtime_clock rt) = [] \<and> fd \<in> held (rx_poller (runtime_reactor rt)) \<and>
     waiting_inv {} (slab_get A (rx_sources (runtime_reactor rt))) (arm (rx_poller (runtime_reactor rt))) \<and>
     (\<exists>so. slab_get A (rx_sources (runtime_reactor rt)) = [i \<mapsto> so] \<and> so_raw so = fd \<and>
        \<not> has_poller (so_writer so) \<and> \<not> has_poller (so_reader so))"

lemma reading_woken: "reading th i True rt \<Longrightarrow> unread th i (rt\<lparr>ex_woke := False\<rparr>)"
  by (auto simp: reading_def unread_def reader_source_def has_poller_def runtime_reactor_def runtime_clock_def)

lemma await_waits:
  assumes "unread th (as_id a) rt" and "blocks rt" and "as_sys a = Some sys" and "read sys = rd"
  shows "\<exists>rt'. await_read debug th A Q read a MainWaker c rt = Ret (Pending, Reading a, c, rt') \<and>
    reading th (as_id a) False rt' \<and> net rt' = net rt"
proof -
  let ?x = "runtime_reactor rt"
  obtain so where so: "slab_get A (rx_sources ?x) = [as_id a \<mapsto> so]" "so_raw so = fd" "\<not> has_poller (so_writer so)"
    "\<not> has_poller (so_reader so)" "fd \<in> held (rx_poller ?x)" "waiting_inv {} (slab_get A (rx_sources ?x)) (arm (rx_poller ?x))"
    using assms(1) unfolding unread_def by blast
  have "would_block (fst (rd (fst (rx_poller ?x))))" using assms(2) by (simp add: blocks_def net_def)
  from read_waits [where read = read, OF assms(3,4) so this] obtain x' so'
    where p: "poll_read A Q read MainWaker a (fst (rx_poller ?x)) ?x = Ret (Pending, fst (rx_poller ?x), x', [])"
      and x': "slab_get A (rx_sources x') = [as_id a \<mapsto> so']" "reader_source fd False so'" "fd \<in> held (rx_poller x')"
        "fst (rx_poller x') = fst (rx_poller ?x)" "waiting_inv {} (slab_get A (rx_sources x')) (arm (rx_poller x'))" by blast
  have "(fst (rx_poller ?x), snd (rx_poller x')) = rx_poller x'" using x'(4) by (metis prod.collapse)
  with p have "await_read debug th A Q read a MainWaker c rt = Ret (Pending, Reading a, c, put_reactor x' rt)"
    by (simp add: await_read_def Let_def)
  moreover have "reading th (as_id a) False (put_reactor x' rt)"
    unfolding reading_def by (intro conjI exI [of _ so']) (use assms(1) x' in \<open>simp_all add: unread_def\<close>)
  ultimately show ?thesis using x'(4) by (simp add: net_def)
qed

lemma await_reads:
  assumes "unread th (as_id a) rt" and "\<not> blocks rt" and "as_sys a = Some sys" and "read sys = rd"
  shows "\<exists>rt'. await_read debug th A Q read a MainWaker c rt = Ret (Ready (fst (rd (net rt))), Reading a, c, rt') \<and>
    net rt' = snd (rd (net rt)) \<and> slab_get A (rx_sources (runtime_reactor rt')) = Map.empty"
proof -
  let ?x = "runtime_reactor rt"
  obtain so where so: "slab_get A (rx_sources ?x) = [as_id a \<mapsto> so]" "so_raw so = fd"
    using assms(1) unfolding unread_def by blast
  have p: "poll_read A Q read MainWaker a (fst (rx_poller ?x)) ?x = Ret (Ready (fst (rd (net rt))), snd (rd (net rt)), ?x, [])"
    using read_ready [where read = read, OF assms(3,4)] assms(2) by (simp add: blocks_def net_def)
  obtain ss where rm: "slab_remove A (rx_sources ?x) (as_id a) = Some (so, ss)" "slab_get A ss = Map.empty"
    using remove_None [of "rx_sources ?x" "as_id a"] remove_Some [of "rx_sources ?x" "as_id a"] so(1)
    by (cases "slab_remove A (rx_sources ?x) (as_id a)") (fastforce simp: fun_eq_iff)+
  let ?q = "(snd (rd (net rt)), snd (rx_poller ?x))"
  obtain r1 q1 where d: "p_delete Q fd ?q = (r1, q1)" by (metis prod.collapse)
  have "await_read debug th A Q read a MainWaker c rt = Ret (Ready (fst (rd (net rt))), Reading a, c,
      put_reactor (?x\<lparr>rx_sources := ss, rx_poller := q1\<rparr>) (put_reactor (?x\<lparr>rx_poller := ?q\<rparr>) rt))"
    using p rm(1) d so(2) assms(3) by (simp add: await_read_def async_drop_def remove_source_def Let_def)
  then show ?thesis using rm(2) deleted [OF d] by (simp add: net_def)
qed

section \<open>The whole run\<close>

text \<open>One poll of the main future inside the runtime, as \<open>block_on\<close> makes it.\<close>

definition main_poll ::
    "bool \<Rightarrow> nat \<Rightarrow> ('t \<Rightarrow> raw_fd) \<Rightarrow> ('t \<Rightarrow> 'n \<Rightarrow> 'v io_result \<times> 'n) \<Rightarrow> 'r \<Rightarrow> ('r, 't reader) entering \<times> 'r option \<Rightarrow> waker \<Rightarrow>
     ('f, 'o, 's, 'n \<times> 'k, 'e) runtime \<Rightarrow>
     (('v io_result \<times> 'r option) poll \<times> (('r, 't reader) entering \<times> 'r option) \<times> ('f, 'o, 's, 'n \<times> 'k, 'e) runtime) m" where
  "main_poll debug th raw read r = (\<lambda>(st, current) cx e.
     bindM (entering_poll r (read_main debug th A Q raw read) st cx current e)
       (\<lambda>(p, st, current, e). Ret (map_poll_value (\<lambda>val. (val, current)) p, (st, current), e)))"

text \<open>The outcome of a run: the result of a read that did not block, and no source left behind.\<close>

definition outcome :: "'v io_result \<Rightarrow> ('f, 'o, 's, 'n \<times> 'k, 'e) runtime \<Rightarrow> bool" where
  "outcome v rt \<longleftrightarrow> \<not> would_block v \<and> (\<exists>n. rd n = (v, net rt)) \<and> slab_get A (rx_sources (runtime_reactor rt)) = Map.empty"

lemma outcomeI:
  assumes "\<not> blocks rt" and "net rt' = snd (rd (net rt))" and "slab_get A (rx_sources (runtime_reactor rt')) = Map.empty"
  shows "outcome (fst (rd (net rt))) rt'"
  using assms unfolding outcome_def blocks_def by (metis prod.collapse)

lemma loop_reads:
  assumes "as_sys a = Some sys" and "read sys = rd" and "reading th (as_id a) False rt"
  shows "\<exists>v rt'. block_on_loop debug th X (timed_parker A Q read_now) (main_poll debug th raw read r)
      (EnterRunning current (Reading a), c) rt = Ret ((v, current), rt') \<and> outcome v rt'"
  using assms(3)
proof (induction "due (net rt)" arbitrary: rt rule: less_induct)
  case less
  let ?main = "main_poll debug th raw read r" and ?g = "(EnterRunning current (Reading a), c)"
  let ?loop = "block_on_loop debug th X (timed_parker A Q read_now) ?main ?g"
  obtain rt1 woke where p: "park_and_wake debug th (pk_park (timed_parker A Q read_now)) rt = Ret rt1" and r1: "reading th (as_id a) woke rt1"
    and d: "if blocks rt then due (net rt1) < due (net rt) else woke \<and> \<not> blocks rt1"
    using park_reading [OF less.prems] by blast
  have "\<not> ex_woke rt" "ex_queue rt = []" using less.prems by (simp_all add: reading_def)
  from loop_parks [OF this p] have step: "?loop rt = ?loop rt1" .
  show ?case
  proof (cases woke)
    case False
    with d have "due (net rt1) < due (net rt)" by (simp split: if_splits)
    from less.hyps [OF this] r1 False show ?thesis unfolding step by simp
  next
    case True
    let ?rt = "rt1\<lparr>ex_woke := False\<rparr>"
    have w: "ex_woke rt1" and u: "unread th (as_id a) ?rt"
      using r1 True reading_woken by (auto simp: reading_def)
    have same: "net ?rt = net rt1" "blocks ?rt = blocks rt1"
      by (simp_all add: net_def blocks_def runtime_reactor_def runtime_clock_def)
    show ?thesis
    proof (cases "blocks rt1")
      case b: True
      with same have "blocks ?rt" by simp
      from await_waits [OF u this assms(1), where read = read, OF assms(2), of debug c] same(1) obtain rt2
        where a: "await_read debug th A Q read a MainWaker c ?rt = Ret (Pending, Reading a, c, rt2)"
          and rt2: "reading th (as_id a) False rt2" "net rt2 = net rt1" by auto
      have m: "?main ?g MainWaker ?rt = Ret (Pending, ?g, rt2)"
        by (simp add: main_poll_def entering_poll_def a)
      have "\<not> ex_woke rt2" using rt2(1) by (simp add: reading_def)
      from loop_pending [where main_poll = ?main, OF w m this] have "?loop rt1 = ?loop rt2" .
      moreover have "due (net rt2) < due (net rt)" using d b rt2(2) by (simp split: if_splits)
      ultimately show ?thesis unfolding step using less.hyps [OF _ rt2(1)] by simp
    next
      case b: False
      with same have nb: "\<not> blocks ?rt" by simp
      from await_reads [OF u this assms(1), where read = read, OF assms(2), of debug c] obtain rt2
        where a: "await_read debug th A Q read a MainWaker c ?rt = Ret (Ready (fst (rd (net ?rt))), Reading a, c, rt2)"
          and rt2: "net rt2 = snd (rd (net ?rt))" "slab_get A (rx_sources (runtime_reactor rt2)) = Map.empty" by blast
      have m: "?main ?g MainWaker ?rt = Ret (Ready (fst (rd (net ?rt)), current), (EnterRunning current (Reading a), current), rt2)"
        by (simp add: main_poll_def entering_poll_def guard_drop_def a)
      have "?loop rt1 = Ret ((fst (rd (net ?rt)), current), rt2)" using loop_ready [where main_poll = ?main, OF w m] .
      with outcomeI [OF nb rt2] show ?thesis unfolding step by blast
    qed
  qed
qed

text \<open>The first poll registers the socket.\<close>

lemma socket_taken:
  assumes "slab_get A (rx_sources x) = Map.empty" and "slab_vacant_key A (rx_sources x) < 2 ^ 64" and "fd \<notin> held (rx_poller x)"
    and "raw sys = fd"
  shows "\<exists>a x'. async_new A Q raw sys x = (Inr a, x') \<and> as_sys a = Some sys \<and> fd \<in> held (rx_poller x') \<and>
    fst (rx_poller x') = fst (rx_poller x) \<and> waiting_inv {} (slab_get A (rx_sources x')) (arm (rx_poller x')) \<and>
    slab_get A (rx_sources x') = [as_id a \<mapsto> \<lparr>so_raw = fd, so_reader = interest_default, so_writer = interest_default\<rparr>]"
proof -
  define k where "k = slab_vacant_key A (rx_sources x)"
  let ?so = "\<lparr>so_raw = fd, so_reader = interest_default, so_writer = interest_default\<rparr> :: waker source"
  obtain q where q: "p_add Q fd \<lparr>ev_key = of_nat k, ev_readable = False, ev_writable = False\<rparr> (rx_poller x) = (Inr (), q)"
    "fd \<in> held q" "fst q = fst (rx_poller x)" using taken [OF assms(3)] by blast
  obtain ss where ss: "slab_insert A (rx_sources x) ?so = (k, ss)" "slab_get A ss = (slab_get A (rx_sources x))(k \<mapsto> ?so)"
    unfolding k_def by (rule insert_eq)
  let ?x = "x\<lparr>rx_poller := q, rx_sources := ss\<rparr>"
  have i: "insert_source A Q fd x = (Inr k, ?x)"
    using q(1) ss(1) by (simp add: insert_source_def Let_def k_def [symmetric])
  have S: "slab_get A ss = [k \<mapsto> ?so]" using ss(2) assms(1) by simp
  have "waiting_inv {} (slab_get A (rx_sources x)) (arm (rx_poller x))"
    by (simp add: assms(1) waiting_inv_def distinct_raws_def)
  from waiting_insert [OF this assms(2) i] have "waiting_inv {} (slab_get A ss) (arm q)"
    by (simp add: S distinct_raws_def)
  with i q S assms(4) show ?thesis
    by (intro exI [of _ "\<lparr>as_id = k, as_sys = Some sys\<rparr>"] exI [of _ ?x]) (simp add: async_new_def)
qed

lemma reading_ends:
  assumes "ex_queue rt = []" "ex_created_on rt = th" "ck_alarms (runtime_clock rt) = []" and "raw sys = fd" and "read sys = rd"
    and "slab_get A (rx_sources (runtime_reactor rt)) = Map.empty" and "slab_vacant_key A (rx_sources (runtime_reactor rt)) < 2 ^ 64"
    and "fd \<notin> held (rx_poller (runtime_reactor rt))"
  shows "\<exists>v rt'. runtime_block_on debug th X (timed_parker A Q read_now) r (read_main debug th A Q raw read) (ReadFrom sys) current rt =
      Ret (v, current, rt') \<and> outcome v rt'"
proof -
  let ?main = "main_poll debug th raw read r" and ?start = "(EnterStart (ReadFrom sys), current)" and ?rt = "rt\<lparr>ex_woke := True\<rparr>"
  let ?loop = "block_on_loop debug th X (timed_parker A Q read_now) ?main"
  obtain a x where a: "async_new A Q raw sys (runtime_reactor rt) = (Inr a, x)" "as_sys a = Some sys" and x: "fd \<in> held (rx_poller x)"
    "fst (rx_poller x) = net rt" "waiting_inv {} (slab_get A (rx_sources x)) (arm (rx_poller x))"
    "slab_get A (rx_sources x) = [as_id a \<mapsto> \<lparr>so_raw = fd, so_reader = interest_default, so_writer = interest_default\<rparr>]"
    using socket_taken [OF assms(6-8), of raw sys, OF assms(4)] unfolding net_def by blast
  let ?rt1 = "put_reactor x (rt\<lparr>ex_woke := False\<rparr>)"
  have "ck_alarms (runtime_clock (rt\<lparr>ex_woke := False\<rparr>)) = []" using assms(3) by (simp add: runtime_clock_def)
  then have u: "unread th (as_id a) ?rt1"
    unfolding unread_def
    by (intro conjI exI [of _ "\<lparr>so_raw = fd, so_reader = interest_default, so_writer = interest_default\<rparr>"])
      (use x assms(1-2) in \<open>simp_all add: interest_default_def has_poller_def\<close>)
  have "runtime_reactor (rt\<lparr>ex_woke := False\<rparr>) = runtime_reactor rt" by (simp add: runtime_reactor_def runtime_clock_def)
  then have start: "read_main debug th A Q raw read (ReadFrom sys) MainWaker (Some r) (rt\<lparr>ex_woke := False\<rparr>) =
      await_read debug th A Q read a MainWaker (Some r) ?rt1"
    by (simp add: from_std_def a(1))
  have "\<exists>v rt'. ?loop ?start ?rt = Ret ((v, current), rt') \<and> outcome v rt'"
  proof (cases "blocks ?rt1")
    case True
    from await_waits [OF u this a(2), where read = read, OF assms(5), of debug "Some r"] obtain rt2
      where aw: "await_read debug th A Q read a MainWaker (Some r) ?rt1 = Ret (Pending, Reading a, Some r, rt2)"
        and rt2: "reading th (as_id a) False rt2" by blast
    have m: "?main ?start MainWaker (?rt\<lparr>ex_woke := False\<rparr>) = Ret (Pending, (EnterRunning current (Reading a), Some r), rt2)"
      by (simp add: main_poll_def entering_poll_def enter_def start aw del: read_main.simps)
    have "\<not> ex_woke rt2" using rt2 by (simp add: reading_def)
    from loop_pending [where main_poll = ?main, OF _ m this] have "?loop ?start ?rt = ?loop (EnterRunning current (Reading a), Some r) rt2"
      by simp
    with loop_reads [OF a(2), where read = read, OF assms(5) rt2] show ?thesis by simp
  next
    case False
    from await_reads [OF u False a(2), where read = read, OF assms(5), of debug "Some r"] obtain rt2
      where ar: "await_read debug th A Q read a MainWaker (Some r) ?rt1 = Ret (Ready (fst (rd (net ?rt1))), Reading a, Some r, rt2)"
        and rt2: "net rt2 = snd (rd (net ?rt1))" "slab_get A (rx_sources (runtime_reactor rt2)) = Map.empty" by blast
    have m: "?main ?start MainWaker (?rt\<lparr>ex_woke := False\<rparr>) =
        Ret (Ready (fst (rd (net ?rt1)), current), (EnterRunning current (Reading a), current), rt2)"
      by (simp add: main_poll_def entering_poll_def enter_def guard_drop_def start ar del: read_main.simps)
    have "?loop ?start ?rt = Ret ((fst (rd (net ?rt1)), current), rt2)" using loop_ready [where main_poll = ?main, OF _ m] by simp
    with outcomeI [OF False rt2] show ?thesis by blast
  qed
  then show ?thesis by (auto simp: runtime_block_on_def block_on_def main_poll_def)
qed

end

section \<open>The property\<close>


text \<open>
  The simulated epoll with a network that delivers one message to descriptor \<open>fd\<close> after \<open>d\<close> polls.
\<close>

definition with_data :: "raw_fd \<Rightarrow> nat \<Rightarrow> sim_kernel \<Rightarrow> sim_kernel" where
  "with_data fd d k = k\<lparr>sk_ready := if d = 0 then [(fd, 3)] else []\<rparr>"

definition delivering_poller :: "raw_fd \<Rightarrow> ((nat \<times> string) \<times> sim_kernel, epoll_event) poller_api" where
  "delivering_poller fd = \<lparr>p_add = (\<lambda>f ev (n, k). apsnd (Pair n) (p_add sim_poller f ev k)),
     p_update = (\<lambda>f ev (n, k). apsnd (Pair n) (p_update sim_poller f ev k)),
     p_delete = (\<lambda>f (n, k). apsnd (Pair n) (p_delete sim_poller f k)),
     p_poll = (\<lambda>c t ((d, v), k). apsnd (Pair (d - 1, v)) (p_poll sim_poller c t (with_data fd d k))),
     p_event = p_event sim_poller\<rparr>"

fun read_message :: "raw_fd \<Rightarrow> nat \<times> string \<Rightarrow> string io_result \<times> nat \<times> string" where
  "read_message fd (0, v) = (Inr v, 0, [])"
| "read_message fd (Suc d, v) = (Inl \<lparr>err_kind = WouldBlock, err_os = None\<rparr>, Suc d, v)"

abbreviation delivering_arm where "delivering_arm q \<equiv> armed_directions (sim_regs linux_consts) (snd q)"

abbreviation delivering_ready where
  "delivering_ready fd q \<equiv> sim_holds linux_consts (with_data fd (fst (fst q)) (snd q))"

lemma delivering_simps:
  "p_add (delivering_poller fd) f ev q = (r, q') \<longleftrightarrow> fst q' = fst q \<and> p_add sim_poller f ev (snd q) = (r, snd q')"
  "p_update (delivering_poller fd) f ev q = (r, q') \<longleftrightarrow> fst q' = fst q \<and> p_update sim_poller f ev (snd q) = (r, snd q')"
  "p_delete (delivering_poller fd) f q = (r, q') \<longleftrightarrow> fst q' = fst q \<and> p_delete sim_poller f (snd q) = (r, snd q')"
  "p_poll (delivering_poller fd) c t q = (pr, q') \<longleftrightarrow> fst q' = (fst (fst q) - 1, snd (fst q)) \<and>
     p_poll sim_poller c t (with_data fd (fst (fst q)) (snd q)) = (pr, snd q')"
  "p_event (delivering_poller fd) = p_event sim_poller"
  by (cases q; cases q'; auto simp: delivering_poller_def apsnd_def map_prod_def split: prod.splits)+

lemma with_data_regs: "sk_regs (with_data fd d k) = sk_regs k" "sim_regs C (with_data fd d k) = sim_regs C k"
  by (simp_all add: with_data_def sim_regs_def)

lemma delivering_reports: "reporting_poller (delivering_poller fd) delivering_arm (delivering_ready fd)"
proof -
  note D = linux_flags.sim_directions [of 3]
  note arm = with_data_regs(2) [of linux_consts fd]
  have "direction_poller (delivering_poller fd) delivering_arm"
  proof (unfold_locales, unfold delivering_simps)
    fix n t q es q' f d k
    assume "fst q' = (fst (fst q) - 1, snd (fst q)) \<and>
        p_poll sim_poller n t (with_data fd (fst (fst q)) (snd q)) = (Inr es, snd q')"
      and "delivering_arm q f d = Some k"
    then show "delivering_arm q' f d = Some k \<or> k \<in> (\<lambda>e. ev_key (p_event sim_poller e)) ` set es"
      using direction_poller.poll_keeps [OF D, of n t "with_data fd (fst (fst q)) (snd q)" es "snd q'" f d k]
      by (simp add: armed_directions_def arm)
  next
    fix n t q err q'
    assume "fst q' = (fst (fst q) - 1, snd (fst q)) \<and>
        p_poll sim_poller n t (with_data fd (fst (fst q)) (snd q)) = (Inl err, snd q')"
    then show "delivering_arm q' = delivering_arm q"
      using direction_poller.poll_fails [OF D, of n t "with_data fd (fst (fst q)) (snd q)" err "snd q'"]
      by (simp add: armed_directions_def arm fun_eq_iff)
  next
    fix f ev q r q' f'
    assume "fst q' = fst q \<and> p_add sim_poller f ev (snd q) = (r, snd q')" and "f' \<noteq> (f :: raw_fd)"
    then show "delivering_arm q' f' = delivering_arm q f'" using direction_poller.add_other [OF D] by blast
  next
    fix f ev q err q'
    assume "fst q' = fst q \<and> p_add sim_poller f ev (snd q) = (Inl err, snd q')"
    then show "delivering_arm q' = delivering_arm q" using direction_poller.add_fails [OF D] by blast
  next
    fix f ev q r q' f'
    assume "fst q' = fst q \<and> p_update sim_poller f ev (snd q) = (r, snd q')" and "f' \<noteq> (f :: raw_fd)"
    then show "delivering_arm q' f' = delivering_arm q f'" using direction_poller.update_other [OF D] by blast
  next
    fix f ev q u q' d
    assume "fst q' = fst q \<and> p_update sim_poller f ev (snd q) = (Inr u, snd q')"
    then show "delivering_arm q' f d = (if dir_ready d ev then Some (ev_key ev) else None)"
      using direction_poller.update_arms [OF D] by blast
  next
    fix f q r q' f'
    assume "fst q' = fst q \<and> p_delete sim_poller f (snd q) = (r, snd q')" and "f' \<noteq> (f :: raw_fd)"
    then show "delivering_arm q' f' = delivering_arm q f'" using direction_poller.delete_other [OF D] by blast
  qed
  then show ?thesis
  proof (rule reporting_poller.intro, unfold_locales, unfold delivering_simps)
    fix n t q es q' f d k
    assume "fst q' = (fst (fst q) - 1, snd (fst q)) \<and>
        p_poll sim_poller n t (with_data fd (fst (fst q)) (snd q)) = (Inr es, snd q')"
      and "length es < n" and "delivering_arm q f d = Some k" and "delivering_ready fd q f d"
    then show "\<exists>e \<in> set es. ev_key (p_event sim_poller e) = k \<and> dir_ready d (p_event sim_poller e)"
      using reporting_poller.reports [OF linux_flags.sim_reporting [of 3], of n t "with_data fd (fst (fst q)) (snd q)" es "snd q'" f d k]
      by (simp add: armed_directions_def arm)
  qed
qed

lemma sim_poll_result:
  assumes "p_poll sim_poller c t k = (r, k')"
  shows "fst ` set (sk_regs k') = fst ` set (sk_regs k)"
    and "\<exists>es. r = Inr es \<and> length es \<le> length (filter (sim_active k) (remdups (map fst (sk_regs k))))"
  using assms by (force simp: epoll_poller_def epoll_poll_def sim_linux_def syscall_def map_ok_def sim_wait_def Let_def
      image_image case_prod_unfold)+

lemma one_active: "length (filter (sim_active (with_data fd d k)) (remdups (map fst (sk_regs k)))) \<le> 1"
proof -
  let ?xs = "filter (sim_active (with_data fd d k)) (remdups (map fst (sk_regs k)))"
  have "f = fd" if "sim_active (with_data fd d k) f" for f
    using that by (auto simp: sim_active_def sim_ready_def with_data_def split: option.splits if_splits)
  then have "set ?xs \<subseteq> {fd}" by auto
  then have "card (set ?xs) \<le> 1" by (metis card_mono finite.emptyI finite.insertI card.empty card_insert_disjoint empty_iff One_nat_def)
  then show ?thesis by (metis distinct_card distinct_filter distinct_remdups)
qed

lemma delivering_kernel:
  "network_kernel (delivering_poller fd) delivering_arm (delivering_ready fd) (\<lambda>q. fst ` set (sk_regs (snd q)))
     fd (read_message fd) fst (Pair 0)"
proof (rule network_kernel.intro [OF delivering_reports], unfold_locales)
  fix q :: "(nat \<times> string) \<times> sim_kernel" and ev
  assume "fd \<notin> fst ` set (sk_regs (snd q))"
  then have "map_of (sk_regs (snd q)) fd = None" by (simp add: map_of_eq_None_iff)
  then show "\<exists>q'. p_add (delivering_poller fd) fd ev q = (Inr (), q') \<and> fd \<in> fst ` set (sk_regs (snd q')) \<and> fst q' = fst q"
    by (intro exI [of _ "(fst q, (snd q)\<lparr>sk_regs := AList.update fd (epoll_encode linux_consts ev) (sk_regs (snd q))\<rparr>)"])
      (simp add: delivering_simps epoll_poller_def epoll_add_def sim_linux_def sim_ctl_result syscall_def map_ok_def dom_update)
next
  fix q :: "(nat \<times> string) \<times> sim_kernel" and ev
  assume "fd \<in> fst ` set (sk_regs (snd q))"
  then have "map_of (sk_regs (snd q)) fd \<noteq> None" by (simp add: map_of_eq_None_iff)
  then show "\<exists>q'. p_update (delivering_poller fd) fd ev q = (Inr (), q') \<and> fd \<in> fst ` set (sk_regs (snd q')) \<and> fst q' = fst q"
    by (intro exI [of _ "(fst q, (snd q)\<lparr>sk_regs := AList.update fd (epoll_encode linux_consts ev) (sk_regs (snd q))\<rparr>)"])
      (simp add: delivering_simps epoll_poller_def epoll_update_def sim_linux_def sim_ctl_result syscall_def map_ok_def dom_update)
next
  fix q u q'
  show "p_delete (delivering_poller fd) fd q = (u, q') \<Longrightarrow> fst q' = fst q" by (simp add: delivering_simps)
next
  fix n t q r and q' :: "(nat \<times> string) \<times> sim_kernel"
  assume "p_poll (delivering_poller fd) n t q = (r, q')" and "fd \<in> fst ` set (sk_regs (snd q))"
  then show "fd \<in> fst ` set (sk_regs (snd q'))"
    using sim_poll_result(1) [of n t "with_data fd (fst (fst q)) (snd q)" r "snd q'"] by (simp add: delivering_simps with_data_regs)
next
  fix n t q err and q' :: "(nat \<times> string) \<times> sim_kernel"
  assume "p_poll (delivering_poller fd) n t q = (Inl err, q')"
  then show "err_kind err = Interrupted"
    using sim_poll_result(2) [of n t "with_data fd (fst (fst q)) (snd q)" "Inl err" "snd q'"] by (simp add: delivering_simps)
next
  fix n t q r and q' :: "(nat \<times> string) \<times> sim_kernel"
  assume p: "p_poll (delivering_poller fd) n t q = (r, q')" and b: "would_block (fst (read_message fd (fst q)))"
  have "fst (fst q) \<noteq> 0" using b by (cases q; cases "fst (fst q)") (auto simp: would_block_def)
  with p show "fst (fst q') < fst (fst q)" by (simp add: delivering_simps)
next
  fix t q r and q' :: "(nat \<times> string) \<times> sim_kernel"
  assume p: "p_poll (delivering_poller fd) initial_events t q = (r, q')" and b: "\<not> would_block (fst (read_message fd (fst q)))"
  obtain v k where q: "q = ((0, v), k)" using b by (cases q; cases "fst (fst q)") (auto simp: would_block_def)
  from p q have s: "p_poll sim_poller initial_events t (with_data fd 0 k) = (r, snd q')" and f: "fst q' = (0, v)"
    by (simp_all add: delivering_simps)
  show "(\<exists>es. r = Inr es \<and> length es < initial_events) \<and> \<not> would_block (fst (read_message fd (fst q')))"
    using sim_poll_result(2) [OF s] one_active [of fd 0 k] f by (auto simp: with_data_regs initial_events_def would_block_def)
next
  fix q :: "(nat \<times> string) \<times> sim_kernel"
  assume b: "\<not> would_block (fst (read_message fd (fst q)))" and a: "delivering_arm q fd Read \<noteq> None"
  obtain v k where q: "q = ((0, v), k)" using b by (cases q; cases "fst (fst q)") (auto simp: would_block_def)
  from a q show "delivering_ready fd q fd Read"
    by (auto simp: armed_directions_def sim_regs_def dir_ready_def epoll_decode_def sim_holds_def sim_ready_def with_data_def
        linux_consts_def and.assoc split: option.splits if_splits)
next
  fix m :: "nat \<times> string"
  assume "would_block (fst (read_message fd m))"
  then show "snd (read_message fd m) = m" by (cases m; cases "fst m") (auto simp: would_block_def)
qed simp

interpretation delivering: network_kernel "delivering_poller fd" delivering_arm "delivering_ready fd"
    "\<lambda>q. fst ` set (sk_regs (snd q))" fd "read_message fd" fst "Pair 0" for fd
  by (rule delivering_kernel)

interpretation delivered: reading_program assoc_slab "delivering_poller fd" delivering_arm "delivering_ready fd"
    "\<lambda>q. fst ` set (sk_regs (snd q))" fd "read_message fd" fst "Pair 0" for fd
  by (intro reading_program.intro reporting_env.intro waiting_env.intro sources.source_slab_axioms delivering_reports
      reporting_poller.axioms(1) [OF delivering_reports] delivering_kernel)


end
