(* ===== verification/Nested_Block_On.thy ===== *)
theory Nested_Block_On
  imports Task_Programs
begin

text \<open>
  A call of \<open>Runtime::block_on\<close> while the same runtime already runs a main future. The executor has
  one flag for the wakeups of its main future, which both loops take for their own.
\<close>

section \<open>The program\<close>

text \<open>
  \<open>rt.block_on(async { join!(spawn(job), async { rt.block_on(yield_now()) }) })\<close>, with a job that is
  ready in its first poll. The first poll of the main future polls the join handle and then runs
  the inner \<open>block_on\<close> to its end; later polls only poll the join handle.
\<close>

definition inner_main ::
    "nat \<Rightarrow> bool \<Rightarrow> waker \<Rightarrow> 'r option \<Rightarrow> ('f, 'o, 'p) executor \<Rightarrow> (unit poll \<times> bool \<times> 'r option \<times> ('f, 'o, 'p) executor) m" where
  "inner_main th b cx current e = bindM (yield_poll th b cx e) (\<lambda>(r, b, e). Ret (r, b, current, e))"

fun nested_main ::
    "bool \<Rightarrow> nat \<Rightarrow> ('p, waker) park_api \<Rightarrow> 'r \<Rightarrow> (nat \<times> 'o) joiner \<Rightarrow> waker \<Rightarrow> 'r option \<Rightarrow> (nat \<times> 'o, 'o, 'p) executor \<Rightarrow>
     ('o poll \<times> (nat \<times> 'o) joiner \<times> 'r option \<times> (nat \<times> 'o, 'o, 'p) executor) m" where
  "nested_main debug th P r (Spawning f) cx current e =
     bindM (spawn_current current f e) (\<lambda>(h, e).
     bindM (join_handle_poll th h cx e) (\<lambda>(p, e).
     bindM (runtime_block_on debug th (job_futures th) P r (inner_main th) False current e) (\<lambda>(_, current, e).
       Ret (p, Joining h, current, e))))"
| "nested_main debug th P r (Joining h) cx current e = await_join th h cx current e"

section \<open>The inner loop\<close>

text \<open>The state in which the inner \<open>block_on\<close> starts, and the one that its tick leaves behind.\<close>

definition joined_state :: "nat \<Rightarrow> 'o \<Rightarrow> 'p \<Rightarrow> (nat \<times> 'o, 'o, 'p) executor" where
  "joined_state th v p = (executor_new th p)\<lparr>ex_next := 1, ex_tasks := (ex_tasks (executor_new th p))(0 :=
     \<lparr>tk_awaiter = None, tk_state = Done, tk_payload = Output v, tk_borrowed = False\<rparr>)\<rparr>"

lemma inner_tick:
  assumes "joining th v 0 e" and "ex_next e = 1" and "ex_woke e" and "ex_parker e = p"
    and "\<forall>t > 0. ex_tasks e t = ex_tasks (executor_new th p) t"
  shows "tick debug th (job_futures th) P polls_per_tick e = Ret ([0], joined_state th v p\<lparr>ex_woke := True\<rparr>)"
proof -
  have "run debug th (job_futures th) 0 (popped e) = Ret (joined_state th v p\<lparr>ex_woke := True\<rparr>)"
    using assms by (auto simp: joining_def joined_state_def run_unfold job_futures_def job_poll_def run_started_def run_done_def
        popped_def util_wake_same_thread update_task_def executor_new_def fun_eq_iff Let_def intro!: executor.equality)
  moreover have "ex_queue e = [0]" using assms(1) by (simp add: joining_def)
  ultimately show ?thesis by (simp add: tick_pos polls_per_tick_def popped_def joined_state_def)
qed

lemma inner_block_on:
  assumes "joining th v 0 e" and "ex_next e = 1" and "ex_parker e = p"
    and "\<forall>t > 0. ex_tasks e t = ex_tasks (executor_new th p) t"
  shows "runtime_block_on debug th (job_futures th) P r (inner_main th) False current e = Ret ((), current, joined_state th v p)"
proof -
  let ?main = "\<lambda>(st, current) cx e. bindM (entering_poll r (inner_main th) st cx current e) (\<lambda>(r, st, current, e).
      Ret (map_poll_value (\<lambda>val. (val, current)) r, (st, current), e))"
  let ?loop = "block_on_loop debug th (job_futures th) P ?main"
  let ?e = "e\<lparr>ex_woke := True\<rparr>" and ?j = "joined_state th v p"
  have th: "ex_created_on e = th" using assms(1) by (simp add: joining_def)
  have first: "?main (EnterStart False, current) MainWaker (?e\<lparr>ex_woke := False\<rparr>) =
      Ret (Pending, (EnterRunning current True, Some r), ?e)"
    using th by (simp add: entering_poll_def enter_def inner_main_def waker_wake_def assert_not_sent_def)
  have "joining th v 0 ?e" using assms(1) by (simp add: joining_def)
  from inner_tick [OF this, of p] assms(2-4) have tick: "tick debug th (job_futures th) P polls_per_tick ?e = Ret ([0], ?j\<lparr>ex_woke := True\<rparr>)"
    by simp
  have "ex_woke ?e" by simp
  from loop_pending_ticks [where main_poll = ?main, OF this first tick]
  have "?loop (EnterStart False, current) ?e = ?loop (EnterRunning current True, Some r) (?j\<lparr>ex_woke := True\<rparr>)" .
  also have "\<dots> = Ret (((), current), ?j)"
    by (rule loop_ready) (simp_all add: entering_poll_def inner_main_def guard_drop_def joined_state_def executor_new_def)
  finally show ?thesis by (simp add: runtime_block_on_def block_on_def)
qed

section \<open>The lost wakeup\<close>

text \<open>One poll of the outer main future inside the runtime, as \<open>block_on\<close> makes it.\<close>

definition nested_step ::
    "bool \<Rightarrow> nat \<Rightarrow> ('p, waker) park_api \<Rightarrow> 'r \<Rightarrow> ('r, (nat \<times> 'o) joiner) entering \<times> 'r option \<Rightarrow> waker \<Rightarrow>
     (nat \<times> 'o, 'o, 'p) executor \<Rightarrow>
     (('o \<times> 'r option) poll \<times> (('r, (nat \<times> 'o) joiner) entering \<times> 'r option) \<times> (nat \<times> 'o, 'o, 'p) executor) m" where
  "nested_step debug th P r = (\<lambda>(st, current) cx e. bindM (entering_poll r (nested_main debug th P r) st cx current e)
     (\<lambda>(p, st, current, e). Ret (map_poll_value (\<lambda>val. (val, current)) p, (st, current), e)))"

text \<open>
  C40. A nested \<open>block_on\<close> on the same runtime takes away the wakeups of the outer main future: the job
  is done and has woken the main future, which would be ready now, but the flag was cleared by the
  inner loop. The outer loop has nothing to run, and parks without a limit before it polls its
  main future again.
\<close>

theorem nested_block_on_loses_wakeup:
  "runtime_block_on debug th (job_futures th) P r (nested_main debug th P r) (Spawning (0, v)) current (executor_new th p) =
      bindM (park_and_wake debug th (pk_park P) (joined_state th v p)) (\<lambda>e.
        bindM (block_on_loop debug th (job_futures th) P (nested_step debug th P r)
          (EnterRunning current (Joining (join_handle_new (Task 0))), Some r) e) (\<lambda>((val, current), e). Ret (val, current, e))) \<and>
    ex_queue (joined_state th v p) = [] \<and> \<not> ex_woke (joined_state th v p) \<and>
    (\<exists>e. join_handle_poll th (join_handle_new (Task 0)) MainWaker (joined_state th v p) = Ret (Ready v, e))"
proof -
  let ?start = "(EnterStart (Spawning (0, v)), current)" and ?g = "(EnterRunning current (Joining (join_handle_new (Task 0))), Some r)"
  let ?e = "executor_new th p\<lparr>ex_woke := True\<rparr>" and ?j = "joined_state th v p" and ?h = "join_handle_new (Task 0)"
  obtain e0 e1 where s: "spawn_current (Some r) (0, v) (executor_new th p\<lparr>ex_woke := False\<rparr>) = Ret (?h, e0)"
    and jp: "join_handle_poll th ?h MainWaker e0 = Ret (Pending, e1)" and j: "joining th v 0 e1" "ex_next e1 = 1" "ex_parker e1 = p"
      "\<forall>t > 0. ex_tasks e1 t = ex_tasks (executor_new th p) t"
    by (simp add: spawn_current_def unwrap_current_def runtime_spawn_def spawn_def joining_def executor_new_def poll_output_def
        borrow_payload_def release_payload_def waker_clone_def assert_not_sent_def update_task_def Let_def)
  have m: "nested_step debug th P r ?start MainWaker (?e\<lparr>ex_woke := False\<rparr>) = Ret (Pending, ?g, ?j)"
    by (simp add: nested_step_def entering_poll_def enter_def s jp inner_block_on [OF j] del: join_handle_simps)
  have k: "\<not> ex_woke ?j" "ex_queue ?j = []" by (simp_all add: joined_state_def executor_new_def)
  have "ex_woke ?e" by simp
  from loop_pending_parks [where main_poll = "nested_step debug th P r", OF this m k(2)]
  have "block_on debug th (job_futures th) P (nested_step debug th P r) ?start (executor_new th p) =
      bindM (park_and_wake debug th (pk_park P) ?j) (block_on_loop debug th (job_futures th) P (nested_step debug th P r) ?g)"
    by (simp add: block_on_def)
  then have "runtime_block_on debug th (job_futures th) P r (nested_main debug th P r) (Spawning (0, v)) current (executor_new th p) =
      bindM (park_and_wake debug th (pk_park P) ?j) (\<lambda>e.
        bindM (block_on_loop debug th (job_futures th) P (nested_step debug th P r) ?g e) (\<lambda>((val, current), e). Ret (val, current, e)))"
    by (simp add: runtime_block_on_def nested_step_def bindM_def split: option.split sum.split)
  moreover have "\<exists>e'. join_handle_poll th ?h MainWaker ?j = Ret (Ready v, e')"
    by (simp add: joined_state_def poll_output_def borrow_payload_def)
  ultimately show ?thesis using k by (intro conjI)
qed

end
