(* ===== verification/Spec2Isabelle.thy ===== *)
theory Spec2Isabelle
  imports Semaphore_Properties Locks_Properties Oneshot Timer_Properties Executor_Properties Wakers
    Clock_Reference Reactor_Properties Net_Properties Runtime_Properties Reentrancy Sleep_Program Task_Programs
    Hyper_Server Oneshot_Reference Channel_Program Read_Program Nested_Block_On
begin

text \<open>
  A verification of platoon, a single-threaded runtime for asynchronous Rust (the files under
  \<open>src/src\<close>). The theories follow the code: each starts with a translation of one module,
  definition by definition, and goes on to what holds of it.

  \<^bold>\<open>The program.\<close> \<open>runtime/mod.rs\<close> builds a runtime out of three layers. The executor
  (\<open>runtime/executor.rs\<close>) keeps a queue of tasks and runs the main future of \<open>block_on\<close>; when it
  has nothing to run it parks. Its parker is the clock (\<open>runtime/clock.rs\<close>), a timer heap, which
  parks for no longer than the next alarm and whose own parker is the reactor
  (\<open>runtime/reactor.rs\<close>): the table of I/O sources over epoll or kqueue (\<open>sys.rs\<close>). A park
  returns a vector of wakers, which the executor calls, and calling the waker of a task puts it
  back into the queue. Futures are what users see: timers (\<open>time.rs\<close>), sockets (\<open>net\<close>), join
  handles and \<open>yield_now\<close> (\<open>task.rs\<close>), and, independent of the runtime, a semaphore, a mutex, a
  read-write lock and a one-shot channel (\<open>sync\<close>).

  \<^bold>\<open>Conventions\<close> (\<open>Prelude\<close>). An operation is a function of the state it borrows, which it
  returns updated. Its outcome \<open>'a m\<close> is a value, a panic with its cause, or \<open>None\<close> when it does
  not return; \<open>Result\<close> of \<open>std::io\<close> is a sum. An operation that calls wakers returns them in
  order; the type of wakers is a parameter outside the executor. Machine integers are words:
  \<open>usize\<close> has 64 bits, and its addition overflows with a panic or a wrap, as the build says
  (\<open>oc\<close>). Instants and durations are natural numbers of nanoseconds. Loops with no obvious bound are
  \<open>partial_function (option)\<close>, so that there is no fuel, and that they return is proved. Code
  outside the repository is a parameter: the crate \<open>slab\<close> (the record \<open>slab_api\<close>, its documented
  laws the locale \<open>slab_crate\<close>, which \<open>assoc_slab\<close> fulfils), the system calls, the constants of
  \<open>libc\<close>, \<open>socket2\<close>, the sockets of the standard library, and the futures that users spawn.

  \<^bold>\<open>Theories.\<close>

  \<^item> \<open>Semaphore\<close> is \<open>sync/semaphore.rs\<close>. \<open>Semaphore_Queue\<close> relates the doubly linked list of
    waiters to a plain queue (\<open>sem_rel\<close>, \<open>sem_abs\<close>) and shows that each operation is one on the
    queue; \<open>Semaphore_Invariant\<close> has the invariant of the queue, \<open>Semaphore_System\<close> the clients of a
    semaphore as a step relation (\<open>sem_step\<close>, one rule for each public operation, reachable
    states \<open>sem_reach\<close>), \<open>Semaphore_Properties\<close> the results: no panic and no endless loop, permits
    are conserved, no lost wakeup, first in first out, no barging, a well-formed list.
  \<^item> \<open>Mutex\<close> and \<open>RwLock\<close> are \<open>sync/mutex.rs\<close> and \<open>sync/rwlock.rs\<close>: a \<open>RefCell\<close> (its borrow flag)
    behind a semaphore. Their clients' steps are steps of the semaphore's clients; what they need of
    it is the locale \<open>permit_gate\<close>. \<open>Locks_Properties\<close>: exclusion, and no panic of the \<open>RefCell\<close>
    but for the read-write lock with \<open>isize::MAX\<close> readers.
  \<^item> \<open>Oneshot\<close> is \<open>sync/oneshot.rs\<close> with the history of the channel beside its cells.
    \<open>Oneshot_Reference\<close>: any sequence of operations on it has the results of a machine with three
    states (\<open>contract\<close>).
  \<^item> \<open>Ordered_Map\<close> is the \<open>BTreeMap\<close> of the standard library as a sorted list (locale
    \<open>ordered_map\<close>), \<open>Park\<close> the trait of \<open>runtime/park.rs\<close> (record \<open>park_api\<close>, locale \<open>park_trait\<close>),
    \<open>Clock\<close> the timer heap, \<open>Timer\<close> the futures of \<open>time.rs\<close> and any number of sleeps on one clock
    (\<open>timer_step\<close>). \<open>Timer_Properties\<close>: sleeps end in time and never early, parks deliver exactly
    the expired alarms, every alarm has one owner, resetting a delivered sleep panics.
    \<open>Clock_Reference\<close>: any sequence of operations on the clock equals one on a plain list of
    alarms (\<open>ref_apply\<close>), by a simulation (\<open>clock_rel\<close>). \<open>Util\<close> is the \<open>poll_fn\<close> of \<open>util.rs\<close>.
  \<^item> \<open>Executor\<close> is \<open>runtime/executor.rs\<close> and the futures of \<open>task.rs\<close>; tasks live in a heap by
    number. \<open>Executor_Invariant\<close> says what a future may do while it is polled (\<open>acts\<close>, locale
    \<open>futures\<close>, which the futures of \<open>task.rs\<close> fulfil) and has the invariant of the queue,
    \<open>Executor_Properties\<close> the results: exact wakeups, fairness of a tick (61 polls between two
    parks), termination of a tick, joining, cancelling. \<open>Wakers\<close> is the memory behind wakers: the
    reference counts of tasks and of the executor, and the virtual table of the raw waker.
  \<^item> \<open>Sys\<close> is \<open>sys.rs\<close> with the macro of \<open>util.rs\<close>: both pollers over the system calls.
    \<open>Reactor\<close> is \<open>runtime/reactor.rs\<close>. \<open>Reactor_Invariant\<close> has the contract of a poller that
    reports each registration once (locale \<open>oneshot_poller\<close>) and the invariant that the poller is
    armed exactly for the wakers that wait; \<open>Epoll\<close> shows the contract for the epoll back end on a
    simulated kernel. The kqueue back end does not fulfil it: its two filters are reported one
    by one, so that a source can be reported twice in one call, and a filter can stay armed
    (\<open>kqueue_stays_armed\<close>). \<open>Reactor_Waiting\<close> has the weaker contract that both back ends fulfil
    (locale \<open>direction_poller\<close>, with the reports \<open>reporting_poller\<close>; \<open>Epoll\<close> and \<open>Kqueue\<close> interpret
    them on simulated kernels) and shows under it that a waiting waker is armed and is woken when
    its descriptor is ready. \<open>Reactor_Properties\<close> has the results.
  \<^item> \<open>Reentrancy\<close> puts the borrow flag of the reactor's \<open>RefCell\<close> and the memory of \<open>Wakers\<close> beside
    the reactor: when the waker that \<open>poll_ready\<close> calls has another owner the reactor does what
    \<open>Reactor\<close> says; when it has none, the output of its task can be dropped under the borrow.
  \<^item> \<open>Net\<close> is \<open>net/mod.rs\<close> and \<open>net/tcp.rs\<close>: registered sockets and the retry loops. \<open>Net_Properties\<close>:
    the loops end, the \<open>async\<close> and the polling form agree, a socket is registered while it lives, connecting
    leaks no source on any outcome.
  \<^item> \<open>Runtime\<close> is \<open>runtime/mod.rs\<close>: the parts put together and the current runtime of the thread.
    \<open>Runtime_Properties\<close> follows a timer and an I/O event through all layers to the queue, and has
    the result of \<open>block_on\<close>. The time is read from the state of the operating system at each park.
    \<open>Sleep_Program\<close> runs \<open>block_on(async { sleep(d).await })\<close> on a new runtime and shows that it ends,
    on every kernel whose time goes on (locale \<open>ticking_kernel\<close>).
    \<open>Read_Program\<close> does so for a program that registers a socket and awaits a read, on every poller
    that keeps the contract of both back ends (locale \<open>network_kernel\<close>): the read's own retry loop, the
    reactor, the clock and the executor together. \<open>Task_Programs\<close> does so for
    \<open>block_on(async { spawn(job).await })\<close>, and has the program that never parks; \<open>Channel_Program\<close> for
    a task that sends over a one-shot channel to the main future. \<open>Main_Loop\<close> has the rounds of the
    loop and what the last two share (locale \<open>worker_program\<close>). \<open>Nested_Block_On\<close> shows that a
    \<open>block_on\<close> inside the main future of the same runtime takes that future's wakeup away.
  \<^item> \<open>Hyper_Server\<close> is \<open>examples/hyper.rs\<close>: the adapters to the traits of tokio and hyper (reading
    appends to the buffer just what was read, locale \<open>read_buf_crate\<close>), and a server whose main
    future accepts connections and spawns a task for each. One poll of it accepts all that wait
    (\<open>accept_loop_serves\<close>, for every one-shot poller with room, locale \<open>registering_poller\<close>, and every
    listening socket with a queue, locale \<open>backlog_listener\<close>).

  \<^bold>\<open>Bounds.\<close> Three steps assume that a counter has not run over: a new alarm needs an identifier
  below \<open>2 ^ 64\<close>, a new source a slab key below \<open>2 ^ 64\<close>, and permits are added only while fewer
  than \<open>2 ^ 64\<close> are in circulation. The first two take centuries or more memory than there is; the
  third is the caller's duty.

  \<^bold>\<open>Not modelled.\<close> Re-entrancy through \<open>Drop\<close> and \<open>Clone\<close> of user values and wakers inside the
  borrows of the runtime's own cells, but for the reactor's \<open>poll_ready\<close> in \<open>Reentrancy\<close> (elsewhere a
  waker is called after the operation that collected it). The order in
  which the compiler drops the parts of an \<open>async\<close> block that is abandoned, but for the timers,
  semaphore waiters and sockets whose drop has an effect here. A \<open>block_on\<close> on the same
  runtime inside a task (inside the main future it is in \<open>Nested_Block_On\<close>).
  Overflow of \<open>Instant\<close> (a panic of the standard library). Concurrent use of wakers: \<open>Wakers\<close> lets threads
  take turns. The sockets of the standard library (their operations and options are
  parameters), the crates \<open>hyper\<close> and \<open>tokio\<close>, re-exports, and the tests.
\<close>

end
